(* ===== verification/Prelude.thy ===== *)
theory Prelude
  imports Complex_Main "HOL-Library.Sublist"
begin

text \<open>
  What the components share.

  A Rust \<open>String\<close>, \<open>&str\<close> or \<open>Vec<u8>\<close> is a \<open>string\<close>, that is a list of bytes: \<open>length\<close> is
  the byte length that \<open>len()\<close> returns, and slicing is \<open>take\<close> and \<open>drop\<close>. An \<open>anyhow::Result\<close>
  is a sum whose left side is an \<open>error\<close>; the string an error carries names the failing step of
  the source. Decimal printing and parsing (\<open>to_string\<close> and \<open>parse\<close> of the Rust integers) and the
  few \<open>str\<close> operations the program uses are modelled here, with the separator lemmas that make
  the hand-rolled MAC encodings unambiguous.
\<close>

named_theorems rust_simps \<open>unfolding rules for the modelled standard-library operations\<close>
named_theorems chain_simps \<open>one-step rules for the hash-linked logs\<close>
named_theorems conserve \<open>accounting rules: nothing is lost or invented\<close>

type_synonym bytes = string

datatype error =
    DbFailed string
  | EncodingFailed string
  | IoFailed string
  | KeyFailed string
  | Refused string
  | Invalid string

type_synonym 'a result = "error + 'a"

fun is_ok :: "'e + 'a \<Rightarrow> bool" where
  "is_ok (Inl _) = False"
| "is_ok (Inr _) = True"

lemma is_ok_conv: "is_ok r \<longleftrightarrow> (\<exists>x. r = Inr x)"
  by (cases r) auto

text \<open>The \<open>?\<close> operator.\<close>

fun and_then :: "'a result \<Rightarrow> ('a \<Rightarrow> 'b result) \<Rightarrow> 'b result" where
  "and_then (Inl e) f = Inl e"
| "and_then (Inr x) f = f x"

lemma and_then_Inr: "and_then r f = Inr y \<longleftrightarrow> (\<exists>x. r = Inr x \<and> f x = Inr y)"
  by (cases r) auto

lemma and_then_Inl: "and_then r f = Inl e \<longleftrightarrow> r = Inl e \<or> (\<exists>x. r = Inr x \<and> f x = Inl e)"
  by (cases r) auto

lemma concat_map_concat_map: "concat (map f (concat (map g xs))) = concat (map (\<lambda>x. concat (map f (g x))) xs)"
  by (induction xs) auto

lemma concat_map_Nil [simp]: "concat (map (\<lambda>x. []) xs) = []"
  by (induction xs) auto

lemma find_append: "find P (xs @ ys) = (case find P xs of None \<Rightarrow> find P ys | Some x \<Rightarrow> Some x)"
  by (induction xs) auto

lemma find_SomeD: "find P xs = Some x \<Longrightarrow> x \<in> set xs \<and> P x"
  by (induction xs) (auto split: if_splits)

section \<open>Separators\<close>

text \<open>Fields joined by a separator byte, as the MAC inputs are.\<close>

fun join :: "char \<Rightarrow> string list \<Rightarrow> string" where
  "join c [] = []"
| "join c [f] = f"
| "join c (f # g # fs) = f @ c # join c (g # fs)"

lemma count_join: "fs \<noteq> [] \<Longrightarrow> count_list (join c fs) c = sum_list (map (\<lambda>f. count_list f c) fs) + (length fs - 1)"
  by (induction c fs rule: join.induct) auto

lemma append_sep_inject:
  assumes "c \<notin> set xs" and "c \<notin> set ys"
  shows "xs @ c # as = ys @ c # bs \<longleftrightarrow> xs = ys \<and> as = bs"
  using assms
proof (induction xs arbitrary: ys)
  case Nil
  then show ?case by (cases ys) auto
next
  case (Cons x xs)
  then show ?case by (cases ys) auto
qed

lemma append_sep_inject_last:
  assumes "c \<notin> set as" and "c \<notin> set bs"
  shows "xs @ c # as = ys @ c # bs \<longleftrightarrow> xs = ys \<and> as = bs"
proof -
  have "xs @ c # as = ys @ c # bs \<longleftrightarrow> rev as @ c # rev xs = rev bs @ c # rev ys"
    by (metis (no_types, lifting) append_Cons append_Nil append_assoc rev.simps(2) rev_append rev_rev_ident)
  with append_sep_inject [of c "rev as" "rev bs" "rev xs" "rev ys"] assms show ?thesis
    by auto
qed

text \<open>
  If the fields of one side are free of the separator, the joined string determines the fields
  of any other split into equally many fields, whatever bytes those hold: an attacker cannot
  move a field boundary.
\<close>

lemma join_inject:
  assumes "join c fs = join c gs" and "length fs = length gs" and "\<forall>f \<in> set fs. c \<notin> set f"
  shows "fs = gs"
  using assms
proof (induction c fs arbitrary: gs rule: join.induct)
  case (1 c)
  then show ?case by simp
next
  case (2 c f)
  then show ?case by (cases gs) auto
next
  case (3 c f f' fs)
  from "3.prems"(2) obtain g g' gs' where gs: "gs = g # g' # gs'"
    by (metis Suc_length_conv length_Cons)
  have free: "sum_list (map (\<lambda>f. count_list f c) (f # f' # fs)) = 0"
    using "3.prems"(3) by (auto simp: sum_list_eq_0_iff count_list_0_iff)
  have "count_list (join c gs) c = count_list (join c (f # f' # fs)) c"
    using "3.prems"(1) by simp
  then have "sum_list (map (\<lambda>f. count_list f c) gs) = 0"
    using "3.prems"(2) free count_join [of gs c] count_join [of "f # f' # fs" c] gs by simp
  then have "c \<notin> set g"
    by (simp add: gs sum_list_eq_0_iff count_list_0_iff)
  moreover have "f @ c # join c (f' # fs) = g @ c # join c (g' # gs')"
    using "3.prems"(1) gs by simp
  ultimately have "f = g" and "join c (f' # fs) = join c (g' # gs')"
    using "3.prems"(3) by (simp_all add: append_sep_inject)
  then show ?case
    using "3.IH" [of "g' # gs'"] "3.prems"(2,3) gs by simp
qed

section \<open>Decimal numbers\<close>

definition digit_char :: "nat \<Rightarrow> char" where
  "digit_char d = char_of (48 + d)"

fun show_nat :: "nat \<Rightarrow> string" where
  "show_nat n = (if n < 10 then [digit_char n] else show_nat (n div 10) @ [digit_char (n mod 10)])"

declare show_nat.simps [simp del]

definition show_int :: "int \<Rightarrow> string" where
  "show_int i = (if i < 0 then CHR ''-'' # show_nat (nat (- i)) else show_nat (nat i))"

definition is_digit :: "char \<Rightarrow> bool" where
  "is_digit c \<longleftrightarrow> 48 \<le> (of_char c :: nat) \<and> (of_char c :: nat) \<le> 57"

definition digit_val :: "char \<Rightarrow> nat" where
  "digit_val c = of_char c - 48"

definition digits_val :: "string \<Rightarrow> nat" where
  "digits_val s = foldl (\<lambda>n c. 10 * n + digit_val c) 0 s"

text \<open>\<open>str::parse::<u64>\<close>: an optional plus sign, at least one digit, nothing else, no overflow.\<close>

definition parse_u64 :: "string \<Rightarrow> nat option" where
  "parse_u64 s =
     (let ds = (case s of c # t \<Rightarrow> if c = CHR ''+'' then t else s | [] \<Rightarrow> [])
      in if ds \<noteq> [] \<and> list_all is_digit ds \<and> digits_val ds < 2 ^ 64 then Some (digits_val ds) else None)"

definition show_bool :: "bool \<Rightarrow> string" where
  "show_bool b = (if b then ''true'' else ''false'')"

definition parse_bool :: "string \<Rightarrow> bool option" where
  "parse_bool s = (if s = ''true'' then Some True else if s = ''false'' then Some False else None)"

lemma is_digit_digit_char [simp]: "d < 10 \<Longrightarrow> is_digit (digit_char d)"
  by (simp add: is_digit_def digit_char_def)

lemma digit_val_digit_char [simp]: "d < 10 \<Longrightarrow> digit_val (digit_char d) = d"
  by (simp add: digit_val_def digit_char_def)

lemma show_nat_digits: "list_all is_digit (show_nat n)"
proof (induction n rule: show_nat.induct)
  case (1 n)
  then show ?case by (subst show_nat.simps) simp
qed

lemma show_nat_nonempty [simp]: "show_nat n \<noteq> []"
  by (subst show_nat.simps) simp

lemma digits_val_append [simp]: "digits_val (s @ [c]) = 10 * digits_val s + digit_val c"
  by (simp add: digits_val_def)

lemma digits_val_show_nat [simp]: "digits_val (show_nat n) = n"
proof (induction n rule: show_nat.induct)
  case (1 n)
  show ?case
  proof (cases "n < 10")
    case True
    then show ?thesis by (subst show_nat.simps) (simp add: digits_val_def)
  next
    case False
    with 1 show ?thesis by (subst show_nat.simps) simp
  qed
qed

lemma show_nat_inject [simp]: "show_nat m = show_nat n \<longleftrightarrow> m = n"
  by (metis digits_val_show_nat)

lemma plus_not_digit [simp]: "\<not> is_digit CHR ''+''"
  and minus_not_digit [simp]: "\<not> is_digit CHR ''-''"
  and nul_not_digit [simp]: "\<not> is_digit CHR 0x00"
  by (simp_all add: is_digit_def)

lemma show_nat_not_Cons: "\<not> is_digit c \<Longrightarrow> show_nat n \<noteq> c # t"
  by (metis list.pred_inject(2) show_nat_digits)

lemma parse_u64_show_nat [simp]: "n < 2 ^ 64 \<Longrightarrow> parse_u64 (show_nat n) = Some n"
  using show_nat_digits [of n] digits_val_show_nat [of n]
  by (cases "show_nat n") (auto simp: parse_u64_def Let_def show_nat_not_Cons)

lemma parse_bool_show_bool [simp]: "parse_bool (show_bool b) = Some b"
  by (simp add: parse_bool_def show_bool_def)

lemma not_in_digits: "\<not> is_digit c \<Longrightarrow> list_all is_digit s \<Longrightarrow> c \<notin> set s"
  by (auto simp: list_all_iff)

lemma nul_notin_show_nat [simp]: "CHR 0x00 \<notin> set (show_nat n)"
  by (rule not_in_digits [OF _ show_nat_digits]) simp

lemma nul_notin_show_int [simp]: "CHR 0x00 \<notin> set (show_int i)"
  by (simp add: show_int_def)

lemma show_int_inject [simp]: "show_int i = show_int j \<longleftrightarrow> i = j"
proof
  assume eq: "show_int i = show_int j"
  have "i < 0 \<longleftrightarrow> j < 0"
    using eq by (auto simp: show_int_def show_nat_not_Cons show_nat_not_Cons [symmetric] split: if_splits)
  with eq show "i = j"
    by (auto simp: show_int_def split: if_splits)
qed simp

lemma nul_notin_show_bool [simp]: "CHR 0x00 \<notin> set (show_bool b)"
  by (simp add: show_bool_def)

section \<open>String operations of the standard library\<close>

definition starts_with :: "string \<Rightarrow> string \<Rightarrow> bool" where
  "starts_with s p \<longleftrightarrow> take (length p) s = p"

definition ends_with :: "string \<Rightarrow> string \<Rightarrow> bool" where
  "ends_with s p \<longleftrightarrow> length p \<le> length s \<and> drop (length s - length p) s = p"

definition strip_prefix :: "string \<Rightarrow> string \<Rightarrow> string option" where
  "strip_prefix s p = (if starts_with s p then Some (drop (length p) s) else None)"

fun contains :: "string \<Rightarrow> string \<Rightarrow> bool" where
  "contains [] p \<longleftrightarrow> p = []"
| "contains (c # s) p \<longleftrightarrow> starts_with (c # s) p \<or> contains s p"

text \<open>The ASCII white space of \<open>char::is_whitespace\<close>, which is what \<open>trim\<close> strips here.\<close>

definition is_space :: "char \<Rightarrow> bool" where
  "is_space c \<longleftrightarrow> c = CHR '' '' \<or> (9 \<le> (of_char c :: nat) \<and> (of_char c :: nat) \<le> 13)"

definition trim :: "string \<Rightarrow> string" where
  "trim s = rev (dropWhile is_space (rev (dropWhile is_space s)))"

definition to_lower_char :: "char \<Rightarrow> char" where
  "to_lower_char c =
     (if 65 \<le> (of_char c :: nat) \<and> (of_char c :: nat) \<le> 90 then char_of ((of_char c :: nat) + 32) else c)"

definition to_lower :: "string \<Rightarrow> string" where
  "to_lower = map to_lower_char"

lemma strip_prefix_Some: "strip_prefix s p = Some r \<Longrightarrow> s = p @ r"
  by (auto simp: strip_prefix_def starts_with_def split: if_splits) (metis append_take_drop_id)

lemma starts_with_append [simp]: "starts_with (p @ s) p"
  by (simp add: starts_with_def)

text \<open>
  \<open>str::lines\<close>: split at line feeds, a final line feed ends the last line rather than starting
  an empty one, and one carriage return before each line feed is dropped.
\<close>

fun split_lf :: "string \<Rightarrow> string \<Rightarrow> string list" where
  "split_lf acc [] = (if acc = [] then [] else [rev acc])"
| "split_lf acc (c # s) =
     (if c = CHR 0x0A
      then (case acc of a # as \<Rightarrow> if a = CHR 0x0D then rev as else rev acc | [] \<Rightarrow> []) # split_lf [] s
      else split_lf (c # acc) s)"

definition lines :: "string \<Rightarrow> string list" where
  "lines s = split_lf [] s"

end
