(* ===== verification/Json.thy ===== *)
theory Json
  imports Prelude
begin

text \<open>
  The shape of \<open>serde_json::Value\<close>. A number is kept as the text it prints as. An object is the
  list of its members in the order \<open>serde_json::Map\<close> iterates them, which without the
  \<open>preserve_order\<close> feature is that of a \<open>BTreeMap\<close>: ascending by the bytes of the key.

  The text of a value (\<open>Value::to_string\<close>) and the parser (\<open>serde_json::from_str\<close>) belong to the
  library and are parameters where they are used.
\<close>

datatype json =
    JNull
  | JBool bool
  | JNumber string
  | JString string
  | JArray "json list"
  | JObject "(string \<times> json) list"

fun bytes_less :: "string \<Rightarrow> string \<Rightarrow> bool" where
  "bytes_less [] [] = False"
| "bytes_less [] (c # s) = True"
| "bytes_less (c # s) [] = False"
| "bytes_less (c # s) (d # t) =
     ((of_char c :: nat) < of_char d \<or> (c = d \<and> bytes_less s t))"

text \<open>\<open>Map::insert\<close>: an existing key keeps its place and gets the new value.\<close>

fun obj_insert :: "string \<Rightarrow> json \<Rightarrow> (string \<times> json) list \<Rightarrow> (string \<times> json) list" where
  "obj_insert k v [] = [(k, v)]"
| "obj_insert k v ((k', v') # ms) =
     (if k = k' then (k, v) # ms
      else if bytes_less k k' then (k, v) # (k', v') # ms
      else (k', v') # obj_insert k v ms)"

text \<open>\<open>Value::get\<close> on a key, and the \<open>as_*\<close> accessors.\<close>

fun json_get :: "json \<Rightarrow> string \<Rightarrow> json option" where
  "json_get (JObject ms) k = map_of ms k"
| "json_get _ k = None"

fun as_str :: "json \<Rightarrow> string option" where
  "as_str (JString s) = Some s"
| "as_str _ = None"

fun as_array :: "json \<Rightarrow> json list option" where
  "as_array (JArray xs) = Some xs"
| "as_array _ = None"

fun is_object :: "json \<Rightarrow> bool" where
  "is_object (JObject ms) = True"
| "is_object _ = False"

text \<open>The members of an object are in strictly ascending key order, at every depth.\<close>

fun keys_ascend :: "(string \<times> 'a) list \<Rightarrow> bool" where
  "keys_ascend ((k, v) # (k', v') # ms) \<longleftrightarrow> bytes_less k k' \<and> keys_ascend ((k', v') # ms)"
| "keys_ascend ms \<longleftrightarrow> True"

lemma bytes_less_irrefl [simp]: "\<not> bytes_less s s"
  by (induction s) auto

lemma bytes_less_total: "s \<noteq> t \<Longrightarrow> \<not> bytes_less s t \<Longrightarrow> bytes_less t s"
proof (induction s t rule: bytes_less.induct)
  case (4 c s d t)
  have "(of_char c :: nat) = of_char d \<longleftrightarrow> c = d" by simp
  with 4 show ?case by auto
qed auto

lemma bytes_less_trans: "bytes_less r s \<Longrightarrow> bytes_less s t \<Longrightarrow> bytes_less r t"
proof (induction r t arbitrary: s rule: bytes_less.induct)
  case (4 c r d t)
  then show ?case by (cases s) auto
next
  case (3 c r)
  then show ?case by (cases s) auto
next
  case 1
  then show ?case by (cases s) auto
qed auto

lemma keys_ascend_Cons:
  "keys_ascend ((k, v) # ms) \<longleftrightarrow> (\<forall>k' \<in> fst ` set ms. bytes_less k k') \<and> keys_ascend ms"
proof (induction ms arbitrary: k v)
  case (Cons m ms)
  obtain k' v' where "m = (k', v')" by (cases m)
  with Cons [of k' v'] show ?case by (auto intro: bytes_less_trans)
qed simp

lemma keys_ascend_append:
  "keys_ascend (ms @ ns) \<longleftrightarrow>
     keys_ascend ms \<and> keys_ascend ns \<and> (\<forall>k \<in> fst ` set ms. \<forall>k' \<in> fst ` set ns. bytes_less k k')"
proof (induction ms)
  case (Cons m ms)
  obtain k v where "m = (k, v)" by (cases m)
  with Cons show ?case by (auto simp: keys_ascend_Cons)
qed simp

lemma map_of_obj_insert: "map_of (obj_insert k v ms) = (map_of ms)(k \<mapsto> v)"
  by (induction k v ms rule: obj_insert.induct) auto

lemma keys_obj_insert: "fst ` set (obj_insert k v ms) = insert k (fst ` set ms)"
  by (induction k v ms rule: obj_insert.induct) auto

lemma keys_ascend_obj_insert: "keys_ascend ms \<Longrightarrow> keys_ascend (obj_insert k v ms)"
proof (induction k v ms rule: obj_insert.induct)
  case (2 k v k' v' ms)
  then show ?case
    by (auto simp: keys_ascend_Cons keys_obj_insert intro: bytes_less_trans bytes_less_total)
qed simp

text \<open>Inserting the members of an object in their order rebuilds it.\<close>

lemma obj_insert_last: "\<forall>k' \<in> fst ` set ms. bytes_less k' k \<Longrightarrow> obj_insert k v ms = ms @ [(k, v)]"
proof (induction k v ms rule: obj_insert.induct)
  case (2 k v k' v' ms)
  have "bytes_less k' k" using "2.prems" by auto
  then have "k \<noteq> k'" and "\<not> bytes_less k k'"
    using bytes_less_irrefl bytes_less_trans by blast+
  with 2 show ?case by auto
qed simp

lemma obj_rebuild:
  assumes "keys_ascend (ms @ ns)"
  shows "foldl (\<lambda>out (k, v). obj_insert k v out) ms ns = ms @ ns"
  using assms
proof (induction ns arbitrary: ms)
  case (Cons n ns)
  obtain k v where n: "n = (k, v)" by (cases n)
  have "\<forall>k' \<in> fst ` set ms. bytes_less k' k"
    using Cons.prems n by (simp add: keys_ascend_append)
  then show ?case using Cons.IH [of "ms @ [n]"] Cons.prems n by (simp add: obj_insert_last)
qed simp

end
