(* ===== verification/Truncate.thy ===== *)
theory Truncate
  imports Json
begin

text \<open>
  \<open>src/truncate.rs\<close>: the truncation of the \<open>standard\<close> and \<open>minimal\<close> tiers. The lemmas show that
  structure and keys survive, that lengths are bounded, and that a cut is always at a character
  boundary.
\<close>

definition max_string_bytes :: nat where "max_string_bytes = 500"
definition array_keep_head :: nat where "array_keep_head = 3"
definition array_keep_tail :: nat where "array_keep_tail = 3"
definition raw_head_bytes :: nat where "raw_head_bytes = 300"
definition raw_middle_bytes :: nat where "raw_middle_bytes = 200"
definition raw_tail_bytes :: nat where "raw_tail_bytes = 300"

text \<open>\<open>str::is_char_boundary\<close>: the ends, and every byte that does not continue a character.\<close>

definition is_char_boundary :: "string \<Rightarrow> nat \<Rightarrow> bool" where
  "is_char_boundary s i \<longleftrightarrow> i = 0 \<or> i = length s \<or>
     (i < length s \<and> \<not> (128 \<le> (of_char (s ! i) :: nat) \<and> (of_char (s ! i) :: nat) < 192))"

fun snap_back :: "string \<Rightarrow> nat \<Rightarrow> nat" where
  "snap_back s 0 = 0"
| "snap_back s (Suc i) = (if is_char_boundary s (Suc i) then Suc i else snap_back s i)"

definition snap_boundary :: "string \<Rightarrow> nat \<Rightarrow> nat" where
  "snap_boundary s idx = (if length s \<le> idx then length s else snap_back s idx)"

definition truncate_string :: "string \<Rightarrow> string" where
  "truncate_string s =
     (if length s \<le> max_string_bytes then s
      else take (snap_boundary s max_string_bytes) s @
        ''... [truncated, '' @ show_nat (length s) @ '' bytes total]'')"

lemma size_json_item: "x \<in> set arr \<Longrightarrow> size x < size_list size arr" for arr :: "json list"
  by (induction arr) auto

lemma size_kept_item [termination_simp]:
  "x \<in> set (take n arr) \<Longrightarrow> size x < size_list size arr"
  "x \<in> set (drop n arr) \<Longrightarrow> size x < size_list size arr"
  "x \<in> set arr \<Longrightarrow> size x < size_list size arr"
  for arr :: "json list"
  by (auto intro: size_json_item dest: in_set_takeD in_set_dropD)

text \<open>
  \<open>truncate_json_semantic\<close> and \<open>truncate_array\<close> call each other; the array branch truncates only
  the items it keeps.
\<close>

fun truncate_json_semantic :: "json \<Rightarrow> json"
  and truncate_array :: "json list \<Rightarrow> json list" where
  "truncate_json_semantic (JString s) = JString (truncate_string s)"
| "truncate_json_semantic (JArray arr) = JArray (truncate_array arr)"
| "truncate_json_semantic (JObject ms) =
     JObject (foldl (\<lambda>out (k, v). obj_insert k v out) [] (map (\<lambda>(k, v). (k, truncate_json_semantic v)) ms))"
| "truncate_json_semantic v = v"
| "truncate_array arr =
     (if length arr \<le> array_keep_head + array_keep_tail then map truncate_json_semantic arr
      else map truncate_json_semantic (take array_keep_head arr)
        @ [JString (''... '' @ show_nat (length arr - array_keep_head - array_keep_tail) @ '' items omitted ...'')]
        @ map truncate_json_semantic (drop (length arr - array_keep_tail) arr))"

text \<open>The start of the last character before \<open>i\<close>, which \<open>char_indices().last()\<close> finds.\<close>

definition prev_boundary :: "string \<Rightarrow> nat \<Rightarrow> nat" where
  "prev_boundary s i = snap_back s (i - 1)"

lemma snap_back_le [simp]: "snap_back s i \<le> i"
  by (induction i) auto

definition preview_envelope :: "(json \<Rightarrow> string) \<Rightarrow> nat \<Rightarrow> string \<Rightarrow> string" where
  "preview_envelope render original_bytes preview = render (JObject
     [(''__auditmcp_truncated'', JBool True),
      (''original_bytes'', JNumber (show_nat original_bytes)),
      (''preview'', JString preview)])"

function preview_loop :: "(json \<Rightarrow> string) \<Rightarrow> nat \<Rightarrow> string \<Rightarrow> nat \<Rightarrow> string" where
  "preview_loop render max_bytes serialized end =
     (let envelope = preview_envelope render (length serialized) (take end serialized)
      in if length envelope \<le> max_bytes \<or> end = 0 then envelope
         else preview_loop render max_bytes serialized (prev_boundary serialized end))"
  by auto
termination
  by (relation "measure (\<lambda>(_, _, _, end). end)")
     (auto simp: prev_boundary_def intro: le_less_trans [OF snap_back_le])

declare preview_loop.simps [simp del]

definition truncate_json_preview :: "(json \<Rightarrow> string) \<Rightarrow> json \<Rightarrow> nat \<Rightarrow> string" where
  "truncate_json_preview render v max_bytes =
     (let serialized = render v
      in if length serialized \<le> max_bytes then serialized
         else preview_loop render max_bytes serialized
           (snap_boundary serialized (min max_bytes (length serialized))))"

definition truncate_raw_sampled :: "string \<Rightarrow> string" where
  "truncate_raw_sampled text =
     (let total = length text in
      if total \<le> raw_head_bytes + raw_middle_bytes + raw_tail_bytes then text
      else
        let head_end = snap_boundary text raw_head_bytes;
            mid_start = snap_boundary text (total div 2 - raw_middle_bytes div 2);
            mid_end = snap_boundary text (mid_start + raw_middle_bytes);
            tail_start = snap_boundary text (total - raw_tail_bytes)
        in take head_end text
          @ CHR 0x0A # ''... [truncated, '' @ show_nat total @ '' bytes total; middle sample at offset ''
          @ show_nat mid_start @ ''] ...'' @ CHR 0x0A # take (mid_end - mid_start) (drop mid_start text)
          @ CHR 0x0A # ''... [middle sample ends] ...'' @ CHR 0x0A # drop tail_start text)"

section \<open>Lemmas\<close>

lemma snap_boundary_le: "snap_boundary s i \<le> i"
  by (simp add: snap_boundary_def)

lemma snap_boundary_le_length: "snap_boundary s i \<le> length s"
  using snap_back_le [of s i] le_trans [of "snap_back s i" i "length s"] by (auto simp: snap_boundary_def)

lemma snap_back_boundary: "is_char_boundary s (snap_back s i)"
  by (induction i) (auto simp: is_char_boundary_def)

lemma snap_boundary_boundary: "is_char_boundary s (snap_boundary s i)"
  by (simp add: snap_boundary_def snap_back_boundary) (simp add: is_char_boundary_def)

lemma snap_back_greatest: "j \<le> i \<Longrightarrow> is_char_boundary s j \<Longrightarrow> j \<le> snap_back s i"
proof (induction i)
  case (Suc i)
  then show ?case by (cases "j = Suc i") auto
qed simp

lemma snap_boundary_greatest: "j \<le> i \<Longrightarrow> j \<le> length s \<Longrightarrow> is_char_boundary s j \<Longrightarrow> j \<le> snap_boundary s i"
  by (simp add: snap_boundary_def snap_back_greatest)

lemma snap_boundary_mono: "i \<le> j \<Longrightarrow> snap_boundary s i \<le> snap_boundary s j"
  by (intro snap_boundary_greatest order_trans [OF snap_boundary_le] snap_boundary_le_length
      snap_boundary_boundary)

lemma show_nat_length: "n < 10 ^ Suc d \<Longrightarrow> length (show_nat n) \<le> Suc d"
proof (induction d arbitrary: n)
  case 0
  then show ?case by (subst show_nat.simps) simp
next
  case (Suc d)
  then have "n div 10 < 10 ^ Suc d" by (simp add: less_mult_imp_div_less)
  with Suc.IH [of "n div 10"] show ?case by (subst show_nat.simps) simp
qed

lemma show_u64_length: "n < 2 ^ 64 \<Longrightarrow> length (show_nat n) \<le> 20"
  using show_nat_length [of n 19] by simp

lemma truncate_object:
  "keys_ascend ms \<Longrightarrow>
     truncate_json_semantic (JObject ms) = JObject (map (\<lambda>(k, v). (k, truncate_json_semantic v)) ms)"
proof -
  let ?f = "\<lambda>(k, v). (k, truncate_json_semantic v)"
  assume "keys_ascend ms"
  then have "keys_ascend (map ?f ms)"
    by (induction ms rule: keys_ascend.induct) auto
  with obj_rebuild [of "[]" "map ?f ms"] show ?thesis by simp
qed

section \<open>Properties\<close>

text \<open>Every object has its keys in order, and every string and array satisfies a predicate.\<close>

fun json_all :: "(string \<Rightarrow> bool) \<Rightarrow> (nat \<Rightarrow> bool) \<Rightarrow> json \<Rightarrow> bool" where
  "json_all P Q (JString s) \<longleftrightarrow> P s"
| "json_all P Q (JArray arr) \<longleftrightarrow> Q (length arr) \<and> (\<forall>x \<in> set arr. json_all P Q x)"
| "json_all P Q (JObject ms) \<longleftrightarrow> keys_ascend ms \<and> (\<forall>m \<in> set ms. json_all P Q (snd m))"
| "json_all P Q v \<longleftrightarrow> True"

lemma truncate_string_length: "length s < 2 ^ 64 \<Longrightarrow> length (truncate_string s) \<le> 550"
  using show_u64_length [of "length s"] snap_boundary_le [of s 500]
  by (simp add: truncate_string_def max_string_bytes_def)

lemma keys_ascend_map_values: "keys_ascend (map (\<lambda>(k, v). (k, f v)) ms) \<longleftrightarrow> keys_ascend ms"
  by (induction ms rule: keys_ascend.induct) auto

lemma truncate_bounds:
  "json_all (\<lambda>s. length s < 2 ^ 64) (\<lambda>n. n < 2 ^ 64) v \<Longrightarrow>
     json_all (\<lambda>s. length s \<le> 550) (\<lambda>n. n \<le> 7) (truncate_json_semantic v)"
  "length arr < 2 ^ 64 \<Longrightarrow> \<forall>x \<in> set arr. json_all (\<lambda>s. length s < 2 ^ 64) (\<lambda>n. n < 2 ^ 64) x \<Longrightarrow>
     length (truncate_array arr) \<le> 7 \<and>
     (\<forall>x \<in> set (truncate_array arr). json_all (\<lambda>s. length s \<le> 550) (\<lambda>n. n \<le> 7) x)"
proof (induction v and arr rule: truncate_json_semantic_truncate_array.induct)
  case (3 ms)
  then show ?case
    by (auto simp: truncate_object keys_ascend_map_values simp del: truncate_json_semantic.simps(3))
next
  case (5 arr)
  have num: "length (show_nat (length arr - 6)) \<le> 20"
    by (rule show_u64_length) (use "5.prems"(1) in simp)
  let ?ok = "\<lambda>x. json_all (\<lambda>s. length s \<le> 550) (\<lambda>n. n \<le> 7) (truncate_json_semantic x)"
  show ?case
  proof (cases "length arr \<le> array_keep_head + array_keep_tail")
    case True
    then have "\<forall>x \<in> set arr. ?ok x" using "5.IH"(1) "5.prems"(2) by blast
    with True show ?thesis by (simp add: array_keep_head_def array_keep_tail_def)
  next
    case False
    have "\<forall>x \<in> set (take array_keep_head arr). ?ok x"
      using "5.IH"(2) [OF False] "5.prems"(2) in_set_takeD by fast
    moreover have "\<forall>x \<in> set (drop (length arr - array_keep_tail) arr). ?ok x"
      using "5.IH"(3) [OF False] "5.prems"(2) in_set_dropD by fast
    ultimately show ?thesis using False num by (auto simp: array_keep_head_def array_keep_tail_def)
  qed
qed (simp_all add: truncate_string_length [simplified])

text \<open>
  Under the standard tier every stored string is at most 550 bytes and every stored array has
  at most seven elements, at every depth, whatever the tool sent.
\<close>

theorem truncate_json_semantic_bounded:
  assumes "json_all (\<lambda>s. length s < 2 ^ 64) (\<lambda>n. n < 2 ^ 64) v"
  shows "json_all (\<lambda>s. length s \<le> 550) (\<lambda>n. n \<le> 7) (truncate_json_semantic v)"
  using truncate_bounds(1) [OF assms] .

theorem truncate_json_semantic_bounded_witness:
  "json_all (\<lambda>s. length s \<le> 550) (\<lambda>n. n \<le> 7)
     (truncate_json_semantic (JArray (replicate 20 (JString (replicate 1000 CHR ''x'')))))"
  by (rule truncate_json_semantic_bounded) simp

lemma truncate_within_caps:
  "json_all (\<lambda>s. length s \<le> 500) (\<lambda>n. n \<le> 6) v \<Longrightarrow> truncate_json_semantic v = v"
  "length arr \<le> 6 \<Longrightarrow> \<forall>x \<in> set arr. json_all (\<lambda>s. length s \<le> 500) (\<lambda>n. n \<le> 6) x \<Longrightarrow>
     truncate_array arr = arr"
proof (induction v and arr rule: truncate_json_semantic_truncate_array.induct)
  case (3 ms)
  then have "\<forall>m \<in> set ms. (case m of (k, v) \<Rightarrow> (k, truncate_json_semantic v)) = m" by auto
  with 3 show ?case
    by (auto simp: truncate_object map_idI simp del: truncate_json_semantic.simps(3))
qed (auto simp: truncate_string_def max_string_bytes_def array_keep_head_def array_keep_tail_def map_idI)

text \<open>
  A value within the caps (strings of at most 500 bytes, arrays of at most six elements) is
  stored exactly as it was.
\<close>

theorem truncate_json_semantic_exact:
  assumes "json_all (\<lambda>s. length s \<le> max_string_bytes) (\<lambda>n. n \<le> array_keep_head + array_keep_tail) v"
  shows "truncate_json_semantic v = v"
  using truncate_within_caps(1) assms
  by (simp add: max_string_bytes_def array_keep_head_def array_keep_tail_def)

theorem truncate_json_semantic_exact_witness:
  "truncate_json_semantic (JObject [(''path'', JString ''/tmp'')]) = JObject [(''path'', JString ''/tmp'')]"
  by (rule truncate_json_semantic_exact) (simp add: max_string_bytes_def)

lemma preview_loop_result:
  assumes "is_char_boundary serialized end" and "end \<le> length serialized"
  shows "\<exists>j \<le> end. is_char_boundary serialized j \<and>
    preview_loop render max_bytes serialized end =
      preview_envelope render (length serialized) (take j serialized) \<and>
    (j = 0 \<or> length (preview_envelope render (length serialized) (take j serialized)) \<le> max_bytes)"
  using assms
proof (induction render max_bytes serialized "end" rule: preview_loop.induct)
  case (1 render max_bytes serialized "end")
  let ?e = "preview_envelope render (length serialized) (take end serialized)"
  show ?case
  proof (cases "length ?e \<le> max_bytes \<or> end = 0")
    case True
    with 1(2) show ?thesis by (intro exI [of _ "end"]) (auto simp: preview_loop.simps [of _ _ _ "end"])
  next
    case False
    let ?p = "prev_boundary serialized end"
    have p: "?p \<le> end" "is_char_boundary serialized ?p"
      using le_trans [OF snap_back_le [of serialized "end - 1"] diff_le_self]
      by (simp_all add: prev_boundary_def snap_back_boundary)
    have step: "preview_loop render max_bytes serialized end = preview_loop render max_bytes serialized ?p"
      using False by (subst preview_loop.simps) (simp add: Let_def)
    have len: "?p \<le> length serialized" using p(1) 1(3) by simp
    from 1(1) [OF refl False p(2) len] obtain j where j: "j \<le> ?p" "is_char_boundary serialized j"
      "preview_loop render max_bytes serialized ?p = preview_envelope render (length serialized) (take j serialized)"
      "j = 0 \<or> length (preview_envelope render (length serialized) (take j serialized)) \<le> max_bytes"
      by blast
    show ?thesis
      unfolding step by (rule exI [of _ j]) (use j p(1) in simp)
  qed
qed

text \<open>
  The minimal tier's preview is the whole serialised value when it fits the budget; otherwise
  it is the envelope around a prefix cut at a character boundary, and it fits the budget unless
  even the envelope with an empty preview does not.
\<close>

theorem truncate_json_preview_bounded:
  "(length (render v) \<le> max_bytes \<and> truncate_json_preview render v max_bytes = render v) \<or>
   (\<exists>j. is_char_boundary (render v) j \<and> j \<le> max_bytes \<and>
     truncate_json_preview render v max_bytes =
       preview_envelope render (length (render v)) (take j (render v)) \<and>
     (j = 0 \<or> length (truncate_json_preview render v max_bytes) \<le> max_bytes))"
proof (cases "length (render v) \<le> max_bytes")
  case False
  let ?i = "snap_boundary (render v) (min max_bytes (length (render v)))"
  have i: "?i \<le> max_bytes" using snap_boundary_le [of "render v" "min max_bytes (length (render v))"] by simp
  have "truncate_json_preview render v max_bytes = preview_loop render max_bytes (render v) ?i"
    using False by (simp add: truncate_json_preview_def Let_def)
  moreover obtain j where "j \<le> ?i" "is_char_boundary (render v) j"
    "preview_loop render max_bytes (render v) ?i = preview_envelope render (length (render v)) (take j (render v))"
    "j = 0 \<or> length (preview_envelope render (length (render v)) (take j (render v))) \<le> max_bytes"
    using preview_loop_result [OF snap_boundary_boundary snap_boundary_le_length] by blast
  ultimately show ?thesis using i by (intro disjI2 exI [of _ j]) simp
qed (simp add: truncate_json_preview_def)

end
