(* ===== verification/Hex.thy ===== *)
theory Hex
  imports Prelude
begin

text \<open>
  \<open>src/hex.rs\<close> and the hexadecimal decoder of \<open>src/keys.rs\<close>: \<open>hex_encode\<close> is what every digest
  passes through before it is stored, \<open>hex_decode\<close> reads the root key back. The lemmas give the
  round trip, injectivity, the length and the alphabet (no NUL, no brace), on which the
  unambiguity of the MAC inputs rests.
\<close>

definition hex_digit :: "nat \<Rightarrow> char" where
  "hex_digit n = (if n < 10 then char_of (48 + n) else char_of (87 + n))"

fun hex_encode :: "bytes \<Rightarrow> string" where
  "hex_encode [] = []"
| "hex_encode (b # bs) = hex_digit (of_char b div 16) # hex_digit (of_char b mod 16) # hex_encode bs"

definition nibble :: "char \<Rightarrow> nat option" where
  "nibble c = (let n = (of_char c :: nat) in
     if 48 \<le> n \<and> n \<le> 57 then Some (n - 48)
     else if 97 \<le> n \<and> n \<le> 102 then Some (n - 97 + 10)
     else if 65 \<le> n \<and> n \<le> 70 then Some (n - 65 + 10)
     else None)"

fun hex_pairs :: "string \<Rightarrow> bytes result" where
  "hex_pairs (a # b # s) =
     (case (nibble a, nibble b) of
        (Some hi, Some lo) \<Rightarrow>
          (case hex_pairs s of Inl e \<Rightarrow> Inl e | Inr bs \<Rightarrow> Inr (char_of (hi * 16 + lo) # bs))
      | _ \<Rightarrow> Inl (Invalid ''non-hex character''))"
| "hex_pairs s = Inr []"

definition hex_decode :: "string \<Rightarrow> bytes result" where
  "hex_decode s = (if odd (length s) then Inl (Invalid ''odd-length hex string'') else hex_pairs s)"

lemma of_char_lt [simp]: "(of_char c :: nat) < 256"
  by (metis of_char_mod_256 mod_less_divisor zero_less_numeral)

lemma of_char_hex_digit: "n < 16 \<Longrightarrow> (of_char (hex_digit n) :: nat) = (if n < 10 then 48 + n else 87 + n)"
  by (auto simp: hex_digit_def)

lemma nibble_hex_digit [simp]: "n < 16 \<Longrightarrow> nibble (hex_digit n) = Some n"
  by (auto simp: nibble_def of_char_hex_digit Let_def)

lemma hex_digit_inject: "m < 16 \<Longrightarrow> n < 16 \<Longrightarrow> hex_digit m = hex_digit n \<longleftrightarrow> m = n"
  by (metis nibble_hex_digit option.inject)

lemma div16_lt [simp]: "(of_char c :: nat) div 16 < 16"
  using of_char_lt [of c] by linarith

lemma hex_pairs_encode: "hex_pairs (hex_encode bs) = Inr bs"
  by (induction bs) (auto simp: mult.commute)

lemma length_hex_encode [simp]: "length (hex_encode bs) = 2 * length bs"
  by (induction bs) auto

lemma hex_decode_encode: "hex_decode (hex_encode bs) = Inr bs"
  by (simp add: hex_decode_def hex_pairs_encode)

lemma hex_encode_inject [simp]: "hex_encode a = hex_encode b \<longleftrightarrow> a = b"
  by (metis hex_pairs_encode sum.inject(2))

lemma hex_digit_alphabet: "n < 16 \<Longrightarrow> nibble c = None \<Longrightarrow> hex_digit n \<noteq> c"
  by auto

lemma hex_encode_alphabet: "nibble c = None \<Longrightarrow> c \<notin> set (hex_encode bs)"
  by (induction bs) (auto simp: hex_digit_alphabet dest: hex_digit_alphabet [rotated])

lemma nul_notin_hex [simp]: "CHR 0x00 \<notin> set (hex_encode bs)"
  by (rule hex_encode_alphabet) (simp add: nibble_def)

lemma brace_notin_hex [simp]: "CHR ''{'' \<notin> set (hex_encode bs)"
  by (rule hex_encode_alphabet) (simp add: nibble_def)

end
