(* ===== verification/LinkedLog.thy ===== *)
theory LinkedLog
  imports Prelude
begin

text \<open>
  The contract both hash-linked logs of the program share: the table \<open>tool_calls\<close>
  (\<open>src/db/chain_hash.rs\<close>) and the anchor file (\<open>src/anchor.rs\<close>). A log is a list of records
  that a walk accepts from a cursor; each record names its predecessor's digest, and its own
  digest is a keyed MAC of that name and its content.

  The locale says what a walk must check; the lemmas proved from it, once for both logs, are
  what the MAC buys: a log that is accepted splits at any point, extends by one record, and is
  determined by its length and its last digest, unless two different MAC inputs collide.
  Nothing is assumed about the MAC: a collision is the explicit alternative \<open>clash\<close>, and \<open>wf\<close> also
  says which inputs it can be between, so that it is one between texts the logs hold.
\<close>

fun head_of :: "('r \<Rightarrow> string) \<Rightarrow> string \<Rightarrow> 'r list \<Rightarrow> string" where
  "head_of own p [] = p"
| "head_of own p (r # rs) = head_of own (own r) rs"

lemma head_of_append [simp]: "head_of own p (xs @ ys) = head_of own (head_of own p xs) ys"
  by (induction xs arbitrary: p) auto

lemma head_of_map: "map own xs = map own ys \<Longrightarrow> head_of own p xs = head_of own p ys"
proof -
  have h: "head_of own p zs = last (p # map own zs)" for zs by (induction zs arbitrary: p) auto
  assume "map own xs = map own ys"
  then show ?thesis by (simp add: h)
qed

lemma head_of_snoc: "head_of own p (xs @ [r]) = own r"
  by simp

text \<open>Two different texts, both among those at hand, with the same MAC.\<close>

definition mac_collision :: "(bytes \<Rightarrow> bytes \<Rightarrow> bytes) \<Rightarrow> bytes \<Rightarrow> string set \<Rightarrow> bool" where
  "mac_collision mac key texts \<longleftrightarrow> (\<exists>m\<in>texts. \<exists>m'\<in>texts. m \<noteq> m' \<and> mac key m = mac key m')"

lemma mac_collisionI:
  "mac key m = mac key m' \<Longrightarrow> m \<in> texts \<Longrightarrow> m' \<in> texts \<Longrightarrow> m = m' \<or> mac_collision mac key texts"
  by (auto simp: mac_collision_def)

locale linked_log =
  fixes expected :: "'s \<Rightarrow> string"
    and follows :: "'s \<Rightarrow> 'r \<Rightarrow> bool"
    and advance :: "'r \<Rightarrow> 's"
    and prev :: "'r \<Rightarrow> string"
    and own :: "'r \<Rightarrow> string"
    and content :: "'r \<Rightarrow> 'c"
    and digest :: "string \<Rightarrow> 'c \<Rightarrow> string"
    and wf :: "string \<Rightarrow> 'c \<Rightarrow> bool"
    and walk :: "'s \<Rightarrow> 'r list \<Rightarrow> bool"
    and clash :: bool
  assumes walk_Nil: "walk s []"
    and walk_Cons: "walk s (r # rs) \<longleftrightarrow>
      follows s r \<and> prev r = expected s \<and> digest (prev r) (content r) = own r \<and> walk (advance r) rs"
    and expected_advance: "expected (advance r) = own r"
    and digest_inject:
      "wf p c \<Longrightarrow> digest p c = digest p' c' \<Longrightarrow> wf p' c' \<Longrightarrow> (p = p' \<and> c = c') \<or> clash"
begin

lemma walk_append:
  "walk s (xs @ ys) \<longleftrightarrow> walk s xs \<and> walk (if xs = [] then s else advance (last xs)) ys"
  by (induction xs arbitrary: s) (auto simp: walk_Nil walk_Cons)

lemma walk_prefix: "walk s (xs @ ys) \<Longrightarrow> walk s xs"
  by (simp add: walk_append)

lemma walk_take: "walk s xs \<Longrightarrow> walk s (take n xs)"
  by (metis append_take_drop_id walk_prefix)

lemma walk_snoc:
  assumes "walk s xs"
  shows "walk s (xs @ [r]) \<longleftrightarrow>
    follows (if xs = [] then s else advance (last xs)) r \<and>
    prev r = head_of own (expected s) xs \<and> digest (prev r) (content r) = own r"
proof -
  have "head_of own (expected s) xs = expected (if xs = [] then s else advance (last xs))"
    by (cases xs rule: rev_cases) (auto simp: expected_advance)
  with assms show ?thesis by (simp add: walk_append walk_Cons walk_Nil)
qed

lemma walk_last_link:
  assumes "walk s (xs @ [r])"
  shows "prev r = head_of own (expected s) xs" and "digest (prev r) (content r) = own r" and "walk s xs"
  using assms walk_snoc [of s xs r] walk_prefix by auto

text \<open>The last digest and the length determine every link and content of an accepted log.\<close>

lemma walk_determined:
  assumes "walk s xs" and "walk t ys" and "expected s = expected t" and "length xs = length ys"
    and "head_of own (expected s) xs = head_of own (expected t) ys"
    and "\<forall>r \<in> set xs \<union> set ys. wf (prev r) (content r)"
  shows "map (\<lambda>r. (prev r, content r, own r)) xs = map (\<lambda>r. (prev r, content r, own r)) ys \<or> clash"
  using assms
proof (induction xs arbitrary: ys rule: rev_induct)
  case Nil
  then show ?case by simp
next
  case (snoc x xs)
  from snoc.prems(4) obtain y ys' where ys: "ys = ys' @ [y]"
    by (metis append_butlast_last_id length_0_conv length_append_singleton nat.distinct(1))
  note lx = walk_last_link [OF snoc.prems(1)]
  note ly = walk_last_link [OF snoc.prems(2) [unfolded ys]]
  have own: "own x = own y"
    using snoc.prems(5) by (simp add: ys)
  with lx(2) ly(2) have "digest (prev x) (content x) = digest (prev y) (content y)"
    by simp
  then have "(prev x = prev y \<and> content x = content y) \<or> clash"
    using snoc.prems(6) digest_inject by (auto simp: ys)
  then show ?case
  proof
    assume eq: "prev x = prev y \<and> content x = content y"
    have "map (\<lambda>r. (prev r, content r, own r)) xs = map (\<lambda>r. (prev r, content r, own r)) ys' \<or> clash"
      using snoc.IH [OF lx(3) ly(3)] snoc.prems(3,4,6) eq lx(1) ly(1) by (simp add: ys)
    with eq own show ?thesis by (auto simp: ys)
  qed simp
qed

lemma walk_follows_last: "walk s (xs @ x # ys) \<Longrightarrow> follows (if xs = [] then s else advance (last xs)) x"
  by (simp add: walk_append walk_Cons)

end

text \<open>A log whose genesis marker no digest can equal: the last digest alone determines the log.\<close>

locale rooted_log = linked_log +
  fixes root :: string
  assumes root_fresh: "digest p c \<noteq> root"
begin

lemma head_determines_length:
  assumes "walk s xs" and "walk t ys" and "expected s = root" and "expected t = root"
    and "head_of own root xs = head_of own root ys"
    and "\<forall>r \<in> set xs \<union> set ys. wf (prev r) (content r)"
  shows "length xs = length ys \<or> clash"
  using assms
proof (induction xs arbitrary: ys rule: rev_induct)
  case Nil
  show ?case
  proof (cases ys rule: rev_cases)
    case (snoc ys' y)
    then have "digest (prev y) (content y) = own y"
      using walk_last_link(2) Nil.prems(2) by blast
    then show ?thesis using Nil.prems(5) snoc root_fresh by auto
  qed simp
next
  case (snoc x xs)
  note lx = walk_last_link [OF snoc.prems(1)]
  show ?case
  proof (cases ys rule: rev_cases)
    case Nil
    then show ?thesis using snoc.prems(5) lx(2) root_fresh by auto
  next
    case ys: (snoc ys' y)
    note ly = walk_last_link [OF snoc.prems(2) [unfolded ys]]
    have "digest (prev x) (content x) = digest (prev y) (content y)"
      using snoc.prems(5) lx(2) ly(2) by (simp add: ys)
    then have "prev x = prev y \<or> clash"
      using snoc.prems(6) digest_inject by (auto simp: ys)
    then show ?thesis
      using snoc.IH [OF lx(3) ly(3) snoc.prems(3,4)] snoc.prems(3,4,6) lx(1) ly(1) by (auto simp: ys)
  qed
qed

lemma head_determines_log:
  assumes "walk s xs" and "walk t ys" and "expected s = root" and "expected t = root"
    and "head_of own root xs = head_of own root ys"
    and "\<forall>r \<in> set xs \<union> set ys. wf (prev r) (content r)"
  shows "map (\<lambda>r. (prev r, content r, own r)) xs = map (\<lambda>r. (prev r, content r, own r)) ys \<or> clash"
  using head_determines_length [OF assms] walk_determined [OF assms(1,2)] assms(3,4,5,6) by auto

text \<open>
  What can be made without the key: a log that is accepted is a prefix of the one that was written,
  or one of its records carries the digest of an input that was never digested before.
\<close>

lemma prefix_or_new_input:
  assumes "walk s xs" and "walk t ys" and "expected s = root" and "expected t = root"
    and "\<forall>r \<in> set xs \<union> set ys. wf (prev r) (content r)"
  shows "clash \<or> (\<exists>y \<in> set ys. (prev y, content y) \<notin> (\<lambda>r. (prev r, content r)) ` set xs) \<or>
    map (\<lambda>r. (prev r, content r, own r)) ys = map (\<lambda>r. (prev r, content r, own r)) (take (length ys) xs)"
  using assms(2,5)
proof (induction ys rule: rev_induct)
  case (snoc y ys)
  let ?f = "\<lambda>r. (prev r, content r, own r)"
  note ly = walk_last_link [OF snoc.prems(1)]
  consider "clash" | "\<exists>y \<in> set ys. (prev y, content y) \<notin> (\<lambda>r. (prev r, content r)) ` set xs"
    | "(prev y, content y) \<notin> (\<lambda>r. (prev r, content r)) ` set xs"
    | "map ?f ys = map ?f (take (length ys) xs)" "(prev y, content y) \<in> (\<lambda>r. (prev r, content r)) ` set xs"
    using snoc.IH [OF ly(3)] snoc.prems(2) by auto
  then show ?case
  proof cases
    case 4
    then obtain i where i: "i < length xs" "prev (xs ! i) = prev y" "content (xs ! i) = content y"
      by (auto simp: in_set_conv_nth)
    have len: "length ys \<le> length xs" using arg_cong [OF 4(1), of length] by simp
    have walks: "walk s (take i xs)" "walk s (take (length ys) xs)" using assms(1) walk_take by blast+
    have "walk s (take i xs @ [xs ! i])" using assms(1) i(1) walk_take [of s xs "Suc i"] by (simp add: take_Suc_conv_app_nth)
    from walk_last_link(1,2) [OF this] have xi: "prev (xs ! i) = head_of own root (take i xs)"
      "digest (prev (xs ! i)) (content (xs ! i)) = own (xs ! i)" using assms(3) by simp_all
    have "map own ys = map own (take (length ys) xs)" using arg_cong [OF 4(1), of "map (snd \<circ> snd)"] by (simp add: comp_def)
    then have "head_of own root ys = head_of own root (take (length ys) xs)" by (rule head_of_map)
    with ly(1) i(2) xi(1) assms(4) have "head_of own root (take i xs) = head_of own root (take (length ys) xs)" by metis
    moreover have "\<forall>r \<in> set (take i xs) \<union> set (take (length ys) xs). wf (prev r) (content r)"
      using assms(5) by (auto dest: in_set_takeD)
    ultimately have "i = length ys \<or> clash"
      using head_determines_length [OF walks assms(3,3)] i(1) len by simp
    then show ?thesis
    proof
      assume n: "i = length ys"
      then have "own y = own (xs ! i)" using ly(2) xi(2) i(2,3) by simp
      with 4(1) i n show ?thesis by (simp add: take_Suc_conv_app_nth)
    qed simp
  qed auto
qed simp

end

end
