(* ===== verification/Store.thy ===== *)
theory Store
  imports Prelude "HOL-Library.Multiset"
begin

text \<open>
  \<open>src/db/mod.rs\<close>: the tables of the audit database and the read and allowlist paths.

  SQLite itself is not under \<open>src/\<close>. A database is the contents of its four tables and the two
  \<open>AUTOINCREMENT\<close> counters, and each statement of the source is translated to what its SQL says
  of them. Which statements fail is not the program's choice: \<open>sql_fails d label n\<close> says whether
  the n-th execution of the statement named \<open>label\<close> fails, so that every \<open>map_err\<close> and \<open>?\<close> of
  the source is a branch of the model, and the theorems hold whatever fails.
\<close>

record tool_call_entry =
  e_timestamp :: string
  e_session_id :: string
  e_agent_id :: "string option"
  e_tool_name :: string
  e_server_name :: "string option"
  e_args_json :: "string option"
  e_result_json :: "string option"
  e_status :: string
  e_error_message :: "string option"
  e_duration_ms :: "int option"
  e_bytes_in :: "int option"
  e_bytes_out :: "int option"
  e_source :: "string option"
  e_destination :: "string option"
  e_redaction_flags :: "string option"
  e_redaction_count :: int
  e_anomaly_score :: "real option"
  e_anomaly_reasons :: "string option"

record stored_row =
  row_id :: int
  row_entry :: tool_call_entry
  row_hash :: string
  row_prev_hash :: "string option"

type_synonym redaction_triple = "string \<times> string \<times> string"

record redaction_row =
  rr_id :: int
  rr_tool_call_id :: int
  rr_triple :: redaction_triple

record allowlist_row =
  al_added_at :: string
  al_note :: string

record database =
  tool_calls :: "stored_row list"
  calls_seq :: int
  redactions :: "redaction_row list"
  redactions_seq :: int
  secret_allowlist :: "string \<rightharpoonup> allowlist_row"
  chain_metadata :: "string \<rightharpoonup> string"
  sql_fails :: "string \<Rightarrow> nat \<Rightarrow> bool"

text \<open>A database just created by the schema, with no statement failing.\<close>

definition empty_database :: database where
  "empty_database = \<lparr>tool_calls = [], calls_seq = 0, redactions = [], redactions_seq = 0,
     secret_allowlist = Map.empty, chain_metadata = Map.empty, sql_fails = (\<lambda>_ _. False)\<rparr>"

text \<open>Runs the n-th execution of a statement whose result, if it succeeds, is \<open>x\<close>.\<close>

definition sql :: "database \<Rightarrow> string \<Rightarrow> nat \<Rightarrow> 'a \<Rightarrow> 'a result" where
  "sql d label n x = (if sql_fails d label n then Inl (DbFailed label) else Inr x)"

lemma sql_Inr [simp]: "sql d l n x = Inr y \<longleftrightarrow> \<not> sql_fails d l n \<and> x = y"
  by (auto simp: sql_def)

lemma sql_Inl: "sql d l n x = Inl e \<longleftrightarrow> sql_fails d l n \<and> e = DbFailed l"
  by (auto simp: sql_def)

lemma sql_ok: "\<not> sql_fails d l n \<Longrightarrow> sql d l n x = Inr x"
  by (simp add: sql_def)

section \<open>Reading the rows\<close>

definition rows_by_id :: "database \<Rightarrow> stored_row list" where
  "rows_by_id d = sort_key row_id (tool_calls d)"

definition read_all_rows :: "database \<Rightarrow> stored_row list result" where
  "read_all_rows d =
     and_then (sql d ''prepare query'' 0 ()) (\<lambda>_.
     and_then (sql d ''query rows'' 0 ()) (\<lambda>_.
     sql d ''read row'' 0 (rows_by_id d)))"

lemma set_rows_by_id [simp]: "set (rows_by_id d) = set (tool_calls d)"
  by (simp add: rows_by_id_def)

lemma rows_by_id_sorted: "sorted (map row_id (tool_calls d)) \<Longrightarrow> rows_by_id d = tool_calls d"
  by (simp add: rows_by_id_def sorted_sort_id sort_key_id_if_sorted)

section \<open>The allowlist\<close>

definition load_allowlist :: "database \<Rightarrow> string set result" where
  "load_allowlist d =
     and_then (sql d ''prepare allowlist'' 0 ()) (\<lambda>_.
     and_then (sql d ''query allowlist'' 0 ()) (\<lambda>_.
     sql d ''read allowlist row'' 0 (dom (secret_allowlist d))))"

definition add_to_allowlist :: "database \<Rightarrow> string \<Rightarrow> string \<Rightarrow> string \<Rightarrow> string result \<times> database" where
  "add_to_allowlist d now sha256 note =
     (case sql d ''write allowlist'' 0 () of
        Inl e \<Rightarrow> (Inl e, d)
      | Inr _ \<Rightarrow> (Inr now, d\<lparr>secret_allowlist :=
          (secret_allowlist d)(sha256 \<mapsto> \<lparr>al_added_at = now, al_note = note\<rparr>)\<rparr>))"

section \<open>Looking up recorded secret hashes\<close>

text \<open>The rows of \<open>redactions\<close> in id order.\<close>

definition redactions_by_id :: "database \<Rightarrow> redaction_row list" where
  "redactions_by_id d = sort_key rr_id (redactions d)"

definition rr_pattern :: "redaction_row \<Rightarrow> string" where
  "rr_pattern r = fst (rr_triple r)"

definition rr_sha256 :: "redaction_row \<Rightarrow> string" where
  "rr_sha256 r = snd (snd (rr_triple r))"

definition find_secret_hash_exact :: "database \<Rightarrow> string \<Rightarrow> string option result" where
  "find_secret_hash_exact d sha256 =
     sql d ''look up secret hash'' 0
       (map_option rr_pattern (find (\<lambda>r. rr_sha256 r = sha256) (redactions_by_id d)))"

text \<open>SQL's \<open>LIKE\<close>: case-insensitive in ASCII, \<open>%\<close> any sequence, \<open>_\<close> any one byte.\<close>

fun sql_like :: "string \<Rightarrow> string \<Rightarrow> bool" where
  "sql_like [] s = (s = [])"
| "sql_like (p # ps) [] = (p = CHR ''%'' \<and> sql_like ps [])"
| "sql_like (p # ps) (c # s) =
     (if p = CHR ''%'' then sql_like ps (c # s) \<or> sql_like (p # ps) s
      else (p = CHR ''_'' \<or> to_lower_char p = to_lower_char c) \<and> sql_like ps s)"

text \<open>\<open>SELECT DISTINCT\<close> in the order of the first occurrences.\<close>

definition distinct_first :: "'a list \<Rightarrow> 'a list" where
  "distinct_first xs = rev (remdups (rev xs))"

definition find_secret_hashes_by_prefix ::
  "database \<Rightarrow> string \<Rightarrow> nat \<Rightarrow> (nat \<times> (string \<times> string) list) result" where
  "find_secret_hashes_by_prefix d prefx sample_limit =
     (let like_pattern = prefx @ ''%'';
          matching = filter (\<lambda>r. sql_like like_pattern (rr_sha256 r)) (redactions_by_id d)
      in and_then (sql d ''count secret hashes'' 0 (length (remdups (map rr_sha256 matching)))) (\<lambda>n.
         and_then (sql d ''prepare prefix lookup'' 0 ()) (\<lambda>_.
         and_then (sql d ''query secret hashes'' 0 ()) (\<lambda>_.
         sql d ''read secret hash row'' 0
           (n, take sample_limit (distinct_first (map (\<lambda>r. (rr_sha256 r, rr_pattern r)) matching)))))))"

lemma set_distinct_first [simp]: "set (distinct_first xs) = set xs"
  by (simp add: distinct_first_def)

lemma distinct_distinct_first [simp]: "distinct (distinct_first xs)"
  by (simp add: distinct_first_def)

section \<open>The database and its side files\<close>

definition sidecar_paths :: "string \<Rightarrow> string list" where
  "sidecar_paths db_path = [db_path, db_path @ ''-wal'', db_path @ ''-shm'']"

lemma sidecar_paths_distinct: "distinct (sidecar_paths p)"
  by (simp add: sidecar_paths_def)

end
