(* ===== verification/HashChain.thy ===== *)
theory HashChain
  imports Store Hex LinkedLog
begin

text \<open>
  \<open>src/db/chain_hash.rs\<close>: the keyed hash chain over \<open>tool_calls\<close>, the walk \<open>verify\<close> runs over it,
  and \<open>chain_metadata\<close> with its own MAC.

  Two things are parameters: \<open>mac key message\<close>, the HMAC-SHA256 of the \<open>hmac\<close> crate (it accepts a
  key of any length, so building it cannot fail), and \<open>canon entry\<close>, the JSON text that
  \<open>serde_json\<close> gives for the entry (\<open>None\<close> if it cannot be serialised). Of \<open>canon\<close> the lemmas use
  only what the format documents: a struct is written as a JSON object, so its text starts with
  a brace. No property of \<open>mac\<close> is assumed at all.
\<close>

definition genesis_prev_hash :: string where
  "genesis_prev_hash = ''GENESIS''"

datatype hash_key = Hmac bytes

definition compute_hash_hmac ::
  "(bytes \<Rightarrow> bytes \<Rightarrow> bytes) \<Rightarrow> (tool_call_entry \<Rightarrow> string option) \<Rightarrow> bytes \<Rightarrow> string \<Rightarrow>
   tool_call_entry \<Rightarrow> string result" where
  "compute_hash_hmac mac canon chain_key prev_hash entry =
     (case canon entry of
        None \<Rightarrow> Inl (EncodingFailed ''canonicalize entry'')
      | Some canonical \<Rightarrow> Inr (hex_encode (mac chain_key (prev_hash @ canonical))))"

fun hash_key_compute ::
  "(bytes \<Rightarrow> bytes \<Rightarrow> bytes) \<Rightarrow> (tool_call_entry \<Rightarrow> string option) \<Rightarrow> hash_key \<Rightarrow> string \<Rightarrow>
   tool_call_entry \<Rightarrow> string result" where
  "hash_key_compute mac canon (Hmac key) prev_hash entry = compute_hash_hmac mac canon key prev_hash entry"

text \<open>The \<open>hash\<close> of the row with the greatest id, or the genesis marker for an empty table.\<close>

definition last_hash :: "database \<Rightarrow> string result" where
  "last_hash d = sql d ''read last hash'' 0
     (if tool_calls d = [] then genesis_prev_hash else row_hash (last (rows_by_id d)))"

section \<open>Walking the chain\<close>

datatype chain_issue =
    RowMissing (after_id: int) (expected_id: int) (found_id: int)
  | LinkBroken (issue_id: int) (expected_prev_hash: string) (stored_prev_hash: string)
  | ContentTampered (issue_id: int) (issue_tool_name: string) (expected_hash: string) (stored_hash: string)

definition stored_prev :: "stored_row \<Rightarrow> string" where
  "stored_prev row = (case row_prev_hash row of Some h \<Rightarrow> h | None \<Rightarrow> genesis_prev_hash)"

definition id_gap :: "int option \<Rightarrow> stored_row \<Rightarrow> chain_issue option" where
  "id_gap last_id row =
     (case last_id of
        Some prev_id \<Rightarrow>
          if row_id row \<noteq> prev_id + 1 then Some (RowMissing prev_id (prev_id + 1) (row_id row)) else None
      | None \<Rightarrow> None)"

text \<open>The loop of the walk, from the expected \<open>prev_hash\<close> and the id of the row before.\<close>

fun verify_rows ::
  "(bytes \<Rightarrow> bytes \<Rightarrow> bytes) \<Rightarrow> (tool_call_entry \<Rightarrow> string option) \<Rightarrow> hash_key \<Rightarrow>
   string \<Rightarrow> int option \<Rightarrow> stored_row list \<Rightarrow> chain_issue option result" where
  "verify_rows mac canon key expected last_id [] = Inr None"
| "verify_rows mac canon key expected last_id (row # rows) =
     (case id_gap last_id row of
        Some issue \<Rightarrow> Inr (Some issue)
      | None \<Rightarrow>
          if stored_prev row \<noteq> expected
          then Inr (Some (LinkBroken (row_id row) expected (stored_prev row)))
          else (case hash_key_compute mac canon key (stored_prev row) (row_entry row) of
                  Inl e \<Rightarrow> Inl e
                | Inr recomputed \<Rightarrow>
                    if recomputed \<noteq> row_hash row
                    then Inr (Some (ContentTampered (row_id row) (e_tool_name (row_entry row))
                               recomputed (row_hash row)))
                    else verify_rows mac canon key (row_hash row) (Some (row_id row)) rows))"

text \<open>The outer result is operational, the inner sum is the verdict: an issue or the row count.\<close>

definition verify_chain_with_key ::
  "(bytes \<Rightarrow> bytes \<Rightarrow> bytes) \<Rightarrow> (tool_call_entry \<Rightarrow> string option) \<Rightarrow> database \<Rightarrow> hash_key \<Rightarrow>
   (chain_issue + nat) result" where
  "verify_chain_with_key mac canon d key =
     and_then (read_all_rows d) (\<lambda>rows.
     and_then (verify_rows mac canon key genesis_prev_hash None rows) (\<lambda>issue.
       Inr (case issue of Some i \<Rightarrow> Inl i | None \<Rightarrow> Inr (length rows))))"

section \<open>The chain as a hash-linked log\<close>

text \<open>Where the walk stands: the digest it expects next, and the id of the row before.\<close>

type_synonym cursor = "string \<times> int option"

definition genesis_cursor :: cursor where
  "genesis_cursor = (genesis_prev_hash, None)"

definition row_cursor :: "stored_row \<Rightarrow> cursor" where
  "row_cursor row = (row_hash row, Some (row_id row))"

definition chain_accepts ::
  "(bytes \<Rightarrow> bytes \<Rightarrow> bytes) \<Rightarrow> (tool_call_entry \<Rightarrow> string option) \<Rightarrow> bytes \<Rightarrow> cursor \<Rightarrow> stored_row list \<Rightarrow> bool"
  where "chain_accepts mac canon k s rows \<longleftrightarrow> verify_rows mac canon (Hmac k) (fst s) (snd s) rows = Inr None"

definition row_follows :: "(tool_call_entry \<Rightarrow> string option) \<Rightarrow> cursor \<Rightarrow> stored_row \<Rightarrow> bool" where
  "row_follows canon s row \<longleftrightarrow> id_gap (snd s) row = None \<and> canon (row_entry row) \<noteq> None"

definition chain_digest :: "(bytes \<Rightarrow> bytes \<Rightarrow> bytes) \<Rightarrow> bytes \<Rightarrow> string \<Rightarrow> string option \<Rightarrow> string" where
  "chain_digest mac k p c = (case c of Some t \<Rightarrow> hex_encode (mac k (p @ t)) | None \<Rightarrow> [])"

text \<open>The texts whose MACs some rows hold.\<close>

definition maced_texts :: "(tool_call_entry \<Rightarrow> string option) \<Rightarrow> stored_row list \<Rightarrow> string set" where
  "maced_texts canon rows = {stored_prev r @ t | r t. r \<in> set rows \<and> canon (row_entry r) = Some t}"

text \<open>
  A hash names its predecessor without a brace, and the JSON text of an entry starts with one; the
  text of the two is among those at hand.
\<close>

definition chain_wf :: "string set \<Rightarrow> string \<Rightarrow> string option \<Rightarrow> bool" where
  "chain_wf texts p c \<longleftrightarrow> CHR ''{'' \<notin> set p \<and> (\<exists>t. c = Some (CHR ''{'' # t) \<and> p @ CHR ''{'' # t \<in> texts)"

lemma chain_digest_inject:
  assumes "chain_wf texts p c" and "chain_digest mac k p c = chain_digest mac k p' c'" and "chain_wf texts p' c'"
  shows "(p = p' \<and> c = c') \<or> mac_collision mac k texts"
proof -
  from assms obtain t t' where c: "c = Some (CHR ''{'' # t)" "c' = Some (CHR ''{'' # t')"
    and free: "CHR ''{'' \<notin> set p" "CHR ''{'' \<notin> set p'"
    and known: "p @ CHR ''{'' # t \<in> texts" "p' @ CHR ''{'' # t' \<in> texts"
    by (auto simp: chain_wf_def)
  have "p @ CHR ''{'' # t = p' @ CHR ''{'' # t' \<or> mac_collision mac k texts"
    using assms(2) c known by (intro mac_collisionI) (simp_all add: chain_digest_def)
  then show ?thesis using c free by (auto simp: append_sep_inject)
qed

lemma chain_digest_not_genesis: "chain_digest mac k p c \<noteq> genesis_prev_hash"
proof -
  have "even (length (chain_digest mac k p c))" by (simp add: chain_digest_def split: option.split)
  moreover have "odd (length genesis_prev_hash)" by (simp add: genesis_prev_hash_def)
  ultimately show ?thesis by metis
qed

interpretation chain: rooted_log fst "row_follows canon" row_cursor stored_prev row_hash
    "\<lambda>row. canon (row_entry row)" "chain_digest mac k" "chain_wf texts" "chain_accepts mac canon k"
    "mac_collision mac k texts" genesis_prev_hash
  for mac canon k texts
proof
  show "chain_accepts mac canon k s []" for s
    by (simp add: chain_accepts_def)
next
  fix s r rs
  show "chain_accepts mac canon k s (r # rs) \<longleftrightarrow>
      row_follows canon s r \<and> stored_prev r = fst s \<and>
      chain_digest mac k (stored_prev r) (canon (row_entry r)) = row_hash r \<and>
      chain_accepts mac canon k (row_cursor r) rs"
    by (auto simp: chain_accepts_def row_follows_def row_cursor_def chain_digest_def
        compute_hash_hmac_def split: option.splits)
next
  show "(p = p' \<and> c = c') \<or> mac_collision mac k texts"
    if "chain_wf texts p c" and "chain_digest mac k p c = chain_digest mac k p' c'" and "chain_wf texts p' c'"
    for p c p' c'
    using that by (rule chain_digest_inject)
qed (simp_all add: row_cursor_def chain_digest_not_genesis)

lemmas chain_walk [chain_simps] =
  chain.walk_Nil chain.walk_Cons chain.walk_append chain.walk_snoc

section \<open>What the walk establishes\<close>

lemma verify_chain_ok_iff:
  "verify_chain_with_key mac canon d (Hmac k) = Inr (Inr n) \<longleftrightarrow>
     read_all_rows d = Inr (rows_by_id d) \<and> chain_accepts mac canon k genesis_cursor (rows_by_id d) \<and>
     n = length (rows_by_id d)"
  by (auto simp: verify_chain_with_key_def chain_accepts_def genesis_cursor_def and_then_Inr
      read_all_rows_def split: option.splits)

lemma accepted_ids:
  assumes "chain_accepts mac canon k s rows" and "i < length rows" and "snd s = Some j"
  shows "row_id (rows ! i) = j + 1 + int i"
  using assms
proof (induction rows arbitrary: s i j)
  case (Cons r rs)
  then have "row_id r = j + 1"
    by (auto simp: chain_walk row_follows_def id_gap_def split: if_splits)
  with Cons.IH [of "row_cursor r" "i - 1" "row_id r"] Cons.prems show ?case
    by (cases i) (auto simp: chain_walk row_cursor_def)
qed simp

lemma accepted_ids_from_first:
  assumes "chain_accepts mac canon k s rows" and "i < length rows"
  shows "row_id (rows ! i) = row_id (hd rows) + int i"
proof (cases rows)
  case (Cons r rs)
  with assms have "chain_accepts mac canon k (row_cursor r) rs" by (simp add: chain_walk)
  with Cons assms(2) accepted_ids [of mac canon k "row_cursor r" rs "i - 1" "row_id r"] show ?thesis
    by (cases i) (auto simp: row_cursor_def)
qed (use assms in simp)

lemma accepted_links_brace_free:
  assumes "chain_accepts mac canon k s rows" and "CHR ''{'' \<notin> set (fst s)"
  shows "\<forall>r \<in> set rows. CHR ''{'' \<notin> set (stored_prev r)"
  using assms
proof (induction rows arbitrary: s)
  case (Cons r rs)
  then have "CHR ''{'' \<notin> set (row_hash r)"
    by (auto simp: chain_walk chain_digest_def split: option.splits)
       (metis brace_notin_hex empty_iff list.set(1))+
  with Cons.IH [of "row_cursor r"] Cons.prems show ?case by (simp add: chain_walk row_cursor_def)
qed simp

text \<open>The documented shape of a serialised entry.\<close>

definition json_objects :: "(tool_call_entry \<Rightarrow> string option) \<Rightarrow> stored_row list \<Rightarrow> bool" where
  "json_objects canon rows \<longleftrightarrow> (\<forall>r \<in> set rows. \<exists>t. canon (row_entry r) = Some (CHR ''{'' # t))"

lemma accepted_wf:
  assumes "chain_accepts mac canon k genesis_cursor rows" and "json_objects canon rows"
    and "maced_texts canon rows \<subseteq> texts"
  shows "\<forall>r \<in> set rows. chain_wf texts (stored_prev r) (canon (row_entry r))"
proof
  fix r assume r: "r \<in> set rows"
  then obtain t where t: "canon (row_entry r) = Some (CHR ''{'' # t)" using assms(2) by (auto simp: json_objects_def)
  with r assms(3) have "stored_prev r @ CHR ''{'' # t \<in> texts" by (auto simp: maced_texts_def)
  with t r accepted_links_brace_free [OF assms(1)] show "chain_wf texts (stored_prev r) (canon (row_entry r))"
    by (simp add: chain_wf_def genesis_cursor_def genesis_prev_hash_def)
qed

lemma maced_textsI: "r \<in> set rows \<Longrightarrow> canon (row_entry r) = Some t \<Longrightarrow> stored_prev r @ t \<in> maced_texts canon rows"
  by (auto simp: maced_texts_def)

lemma maced_texts_mono: "set rows \<subseteq> set rows' \<Longrightarrow> maced_texts canon rows \<subseteq> maced_texts canon rows'"
  by (auto simp: maced_texts_def)

lemma last_hash_head:
  assumes "last_hash d = Inr h"
  shows "head_of row_hash genesis_prev_hash (rows_by_id d) = h"
proof (cases "rows_by_id d" rule: rev_cases)
  case Nil
  with assms show ?thesis by (auto simp: last_hash_def dest: arg_cong [of _ _ length] simp: rows_by_id_def)
next
  case (snoc rs r)
  with assms show ?thesis by (auto simp: last_hash_def rows_by_id_def)
qed

lemma both_wf:
  assumes "chain_accepts mac canon k genesis_cursor (rows_by_id d)" and "chain_accepts mac canon k genesis_cursor (rows_by_id d')"
    and "json_objects canon (tool_calls d @ tool_calls d')"
  shows "\<forall>r \<in> set (rows_by_id d) \<union> set (rows_by_id d'). chain_wf (maced_texts canon (tool_calls d @ tool_calls d'))
    (stored_prev r) (canon (row_entry r))"
proof -
  have "json_objects canon (rows_by_id d)" "json_objects canon (rows_by_id d')" using assms(3) by (auto simp: json_objects_def)
  then show ?thesis
    using accepted_wf [OF assms(1) _ maced_texts_mono] accepted_wf [OF assms(2) _ maced_texts_mono] by (metis Un_iff Un_upper1 Un_upper2 set_append set_rows_by_id)
qed

text \<open>Which row a broken chain is reported at.\<close>

lemma verify_rows_append:
  assumes "chain_accepts mac canon k s xs" and "xs \<noteq> []"
  shows "verify_rows mac canon (Hmac k) (fst s) (snd s) (xs @ ys) =
    verify_rows mac canon (Hmac k) (row_hash (last xs)) (Some (row_id (last xs))) ys"
  using assms
proof (induction xs arbitrary: s)
  case (Cons r rs)
  then have acc: "chain_accepts mac canon k (row_cursor r) rs"
    and step: "verify_rows mac canon (Hmac k) (fst s) (snd s) (r # rs @ ys) =
      verify_rows mac canon (Hmac k) (row_hash r) (Some (row_id r)) (rs @ ys)"
    by (auto simp: chain_accepts_def row_cursor_def split: option.splits sum.splits if_splits)
  show ?case
  proof (cases "rs = []")
    case False
    then show ?thesis using Cons.IH [OF acc False] step by (simp add: row_cursor_def)
  qed (use step in simp)
qed simp

lemma accepted_hash_not_genesis:
  assumes "chain_accepts mac canon k s (xs @ [r])"
  shows "row_hash r \<noteq> genesis_prev_hash"
  using chain.walk_last_link(2) [OF assms] chain_digest_not_genesis by metis

end
