(* ===== verification/Samples.thy ===== *)
theory Samples
  imports HashChain
begin

text \<open>
  Concrete inputs for the witnesses: the sample entry of the repository's own tests
  (\<open>test_support::sample_entry\<close> in \<open>src/db/mod.rs\<close>), and small concrete functions in the place of
  the parameters: a MAC without collisions, and a canonical text that is a JSON-like object
  naming the tool.
\<close>

definition sample_entry :: tool_call_entry where
  "sample_entry = \<lparr>e_timestamp = ''2026-07-02T12:00:00Z'', e_session_id = ''sess-1'', e_agent_id = None,
     e_tool_name = ''echo'', e_server_name = Some ''fake_server'', e_args_json = Some ''{}'',
     e_result_json = Some ''{}'', e_status = ''success'', e_error_message = None,
     e_duration_ms = Some 12, e_bytes_in = Some 20, e_bytes_out = Some 20, e_source = None,
     e_destination = None, e_redaction_flags = None, e_redaction_count = 0,
     e_anomaly_score = None, e_anomaly_reasons = None\<rparr>"

definition toy_mac :: "bytes \<Rightarrow> bytes \<Rightarrow> bytes" where
  "toy_mac key msg = key @ msg"

definition toy_canon :: "tool_call_entry \<Rightarrow> string option" where
  "toy_canon e = Some (CHR ''{'' # e_tool_name e)"

definition toy_key :: bytes where
  "toy_key = ''k''"

lemma toy_mac_no_collision [simp]: "\<not> mac_collision toy_mac key texts"
  by (simp add: mac_collision_def toy_mac_def)

lemma toy_json_objects [simp]: "json_objects toy_canon rows"
  by (simp add: json_objects_def toy_canon_def)

text \<open>A chain of rows for the given tools, as the writer would store them.\<close>

fun toy_rows :: "string \<Rightarrow> int \<Rightarrow> string list \<Rightarrow> stored_row list" where
  "toy_rows prev i [] = []"
| "toy_rows prev i (t # ts) =
     (let h = hex_encode (toy_mac toy_key (prev @ CHR ''{'' # t))
      in \<lparr>row_id = i, row_entry = sample_entry\<lparr>e_tool_name := t\<rparr>, row_hash = h,
          row_prev_hash = (if prev = genesis_prev_hash then None else Some prev)\<rparr> # toy_rows h (i + 1) ts)"

definition toy_db :: "string list \<Rightarrow> database" where
  "toy_db ts = empty_database\<lparr>tool_calls := toy_rows genesis_prev_hash 1 ts, calls_seq := int (length ts)\<rparr>"

lemma toy_rows_ids: "map row_id (toy_rows p i ts) = map (\<lambda>j. i + int j) [0..<length ts]"
  by (induction ts arbitrary: p i)
     (auto simp: Let_def map_upt_Suc algebra_simps simp del: upt_Suc)

lemma length_toy_rows [simp]: "length (toy_rows p i ts) = length ts"
  by (induction ts arbitrary: p i) (auto simp: Let_def)

lemma toy_rows_sorted: "sorted (map row_id (toy_rows p i ts))"
  unfolding toy_rows_ids by (simp add: sorted_iff_nth_mono)

lemma toy_db_rows [simp]: "rows_by_id (toy_db ts) = toy_rows genesis_prev_hash 1 ts"
  by (simp add: rows_by_id_sorted toy_db_def toy_rows_sorted)

lemma toy_db_reads [simp]: "read_all_rows (toy_db ts) = Inr (toy_rows genesis_prev_hash 1 ts)"
  using toy_db_rows [of ts] by (simp add: read_all_rows_def sql_def toy_db_def empty_database_def)

lemma toy_rows_accepted:
  "(case snd s of Some j \<Rightarrow> i = j + 1 | None \<Rightarrow> True) \<Longrightarrow>
   chain_accepts toy_mac toy_canon toy_key s (toy_rows (fst s) i ts)"
proof (induction ts arbitrary: s i)
  case (Cons t ts)
  let ?h = "hex_encode (toy_mac toy_key (fst s @ CHR ''{'' # t))"
  show ?case
    using Cons.IH [of "i + 1" "(?h, Some i)"] Cons.prems
    by (auto simp: chain_walk Let_def row_follows_def id_gap_def row_cursor_def stored_prev_def
        chain_digest_def toy_canon_def split: option.splits)
qed (simp add: chain_walk)

lemma toy_db_verifies [simp]:
  "verify_chain_with_key toy_mac toy_canon (toy_db ts) (Hmac toy_key) = Inr (Inr (length ts))"
  using toy_rows_accepted [of 1 genesis_cursor ts] by (simp add: verify_chain_ok_iff genesis_cursor_def)

end
