(* ===== verification/Metadata.thy ===== *)
theory Metadata
  imports HashChain
begin

text \<open>
  \<open>chain_metadata\<close> in \<open>src/db/chain_hash.rs\<close>: the genesis configuration of a chain, the MAC over
  it, and the transaction that writes it once. The lemmas show that what genesis wrote reads back
  and verifies, and that no covered field can be edited under an unchanged MAC value: the
  NUL-separated encoding has only one way to be read.
\<close>

record chain_meta =
  cm_db_uuid :: string
  cm_hmac_version :: "string option"
  cm_cadence_min :: "nat option"
  cm_cadence_max :: "nat option"
  cm_created_at :: "string option"
  cm_heartbeat_enabled :: "bool option"
  cm_anchor_enabled :: "bool option"

definition chain_metadata_get :: "database \<Rightarrow> string \<Rightarrow> string option result" where
  "chain_metadata_get d key = sql d (''read chain_metadata.'' @ key) 0 (chain_metadata d key)"

definition read_chain_metadata :: "database \<Rightarrow> chain_meta option result" where
  "read_chain_metadata d =
     and_then (chain_metadata_get d ''db_uuid'') (\<lambda>u. case u of None \<Rightarrow> Inr None | Some db_uuid \<Rightarrow>
     and_then (chain_metadata_get d ''hmac_version'') (\<lambda>version.
     and_then (chain_metadata_get d ''heartbeat_cadence_min_secs'') (\<lambda>mn.
     and_then (chain_metadata_get d ''heartbeat_cadence_max_secs'') (\<lambda>mx.
     and_then (chain_metadata_get d ''created_at'') (\<lambda>created_at.
     and_then (chain_metadata_get d ''heartbeat_enabled'') (\<lambda>hb.
     and_then (chain_metadata_get d ''anchor_enabled'') (\<lambda>an.
       Inr (Some \<lparr>cm_db_uuid = db_uuid, cm_hmac_version = version,
         cm_cadence_min = Option.bind mn parse_u64, cm_cadence_max = Option.bind mx parse_u64,
         cm_created_at = created_at,
         cm_heartbeat_enabled = Option.bind hb parse_bool,
         cm_anchor_enabled = Option.bind an parse_bool\<rparr>))))))))"

definition current_hmac_version :: string where
  "current_hmac_version = ''2''"

definition supported_hmac_versions :: "string list" where
  "supported_hmac_versions = [''1'', ''2'']"

definition is_supported_hmac_version :: "string option \<Rightarrow> bool" where
  "is_supported_hmac_version version =
     (case version of None \<Rightarrow> False | Some v \<Rightarrow> v \<in> set supported_hmac_versions)"

definition compute_metadata_hmac ::
  "(bytes \<Rightarrow> bytes \<Rightarrow> bytes) \<Rightarrow> bytes \<Rightarrow> string \<Rightarrow> string \<Rightarrow> string \<Rightarrow> string \<Rightarrow> (string \<times> string) option \<Rightarrow> string"
  where
  "compute_metadata_hmac mac chain_key db_uuid version mn mx checks =
     (let nul = [CHR 0x00];
          message = db_uuid @ nul @ version @ nul @ mn @ nul @ mx @
            (case checks of None \<Rightarrow> [] | Some (hb, an) \<Rightarrow> nul @ hb @ nul @ an)
      in hex_encode (mac chain_key message))"

definition verify_chain_metadata_hmac ::
  "(bytes \<Rightarrow> bytes \<Rightarrow> bytes) \<Rightarrow> database \<Rightarrow> bytes \<Rightarrow> chain_meta \<Rightarrow> bool result" where
  "verify_chain_metadata_hmac mac d chain_key metadata =
     and_then (chain_metadata_get d ''metadata_hmac'') (\<lambda>st. case st of None \<Rightarrow> Inr False | Some stored \<Rightarrow>
     and_then (chain_metadata_get d ''heartbeat_cadence_min_secs'') (\<lambda>mn.
     and_then (chain_metadata_get d ''heartbeat_cadence_max_secs'') (\<lambda>mx.
     case (mn, mx) of
       (Some min_raw, Some max_raw) \<Rightarrow>
         and_then (chain_metadata_get d ''hmac_version'') (\<lambda>v. case v of None \<Rightarrow> Inr False | Some version \<Rightarrow>
         if version = ''2''
         then and_then (chain_metadata_get d ''heartbeat_enabled'') (\<lambda>h.
              and_then (chain_metadata_get d ''anchor_enabled'') (\<lambda>a.
              case (h, a) of
                (Some hb, Some an) \<Rightarrow>
                  Inr (compute_metadata_hmac mac chain_key (cm_db_uuid metadata) version min_raw max_raw
                         (Some (hb, an)) = stored)
              | _ \<Rightarrow> Inr False))
         else Inr (compute_metadata_hmac mac chain_key (cm_db_uuid metadata) version min_raw max_raw None
                     = stored))
     | _ \<Rightarrow> Inr False)))"

text \<open>
  The eight rows of genesis, and their insertion in one transaction: a duplicate key violates the
  primary key, and any failure rolls the whole transaction back.
\<close>

definition genesis_rows ::
  "(bytes \<Rightarrow> bytes \<Rightarrow> bytes) \<Rightarrow> string \<Rightarrow> bytes \<Rightarrow> string \<Rightarrow> nat \<Rightarrow> nat \<Rightarrow> bool \<Rightarrow> bool \<Rightarrow> (string \<times> string) list"
  where
  "genesis_rows mac created_at chain_key db_uuid mn mx hb an =
     [(''db_uuid'', db_uuid),
      (''hmac_version'', current_hmac_version),
      (''heartbeat_cadence_min_secs'', show_nat mn),
      (''heartbeat_cadence_max_secs'', show_nat mx),
      (''heartbeat_enabled'', show_bool hb),
      (''anchor_enabled'', show_bool an),
      (''created_at'', created_at),
      (''metadata_hmac'', compute_metadata_hmac mac chain_key db_uuid current_hmac_version
         (show_nat mn) (show_nat mx) (Some (show_bool hb, show_bool an)))]"

fun insert_metadata_rows :: "database \<Rightarrow> (string \<times> string) list \<Rightarrow> database result" where
  "insert_metadata_rows d [] = Inr d"
| "insert_metadata_rows d ((key, val) # entries) =
     (if chain_metadata d key \<noteq> None then Inl (DbFailed (''write chain_metadata.'' @ key))
      else and_then (sql d (''write chain_metadata.'' @ key) 0 ())
        (\<lambda>_. insert_metadata_rows (d\<lparr>chain_metadata := (chain_metadata d)(key \<mapsto> val)\<rparr>) entries))"

definition write_chain_metadata_genesis ::
  "(bytes \<Rightarrow> bytes \<Rightarrow> bytes) \<Rightarrow> database \<Rightarrow> string \<Rightarrow> bytes \<Rightarrow> string \<Rightarrow> nat \<Rightarrow> nat \<Rightarrow> bool \<Rightarrow> bool \<Rightarrow>
   unit result \<times> database" where
  "write_chain_metadata_genesis mac d now chain_key db_uuid mn mx hb an =
     (case and_then (sql d ''begin genesis metadata transaction'' 0 ()) (\<lambda>_.
           and_then (insert_metadata_rows d (genesis_rows mac now chain_key db_uuid mn mx hb an)) (\<lambda>d'.
           sql d' ''commit genesis metadata transaction'' 0 d')) of
        Inl e \<Rightarrow> (Inl e, d)
      | Inr d' \<Rightarrow> (Inr (), d'))"

section \<open>Lemmas\<close>

lemma chain_metadata_get_Inr [simp]:
  "chain_metadata_get d key = Inr v \<longleftrightarrow>
     \<not> sql_fails d (''read chain_metadata.'' @ key) 0 \<and> chain_metadata d key = v"
  by (simp add: chain_metadata_get_def)

lemma insert_metadata_rows_result:
  "insert_metadata_rows d entries = Inr d' \<Longrightarrow>
     d' = d\<lparr>chain_metadata := chain_metadata d ++ map_of (rev entries)\<rparr> \<and> distinct (map fst entries)
     \<and> (\<forall>k \<in> fst ` set entries. chain_metadata d k = None)"
proof (induction d entries rule: insert_metadata_rows.induct)
  case (2 d key val entries)
  let ?d = "d\<lparr>chain_metadata := (chain_metadata d)(key \<mapsto> val)\<rparr>"
  from "2.prems" have fresh: "\<not> chain_metadata d key \<noteq> None"
    and ins: "insert_metadata_rows ?d entries = Inr d'"
    by (auto simp: and_then_Inr split: if_splits)
  have *:
    "d' = d\<lparr>chain_metadata := (chain_metadata d)(key \<mapsto> val) ++ map_of (rev entries)\<rparr>"
    "distinct (map fst entries)" "\<forall>k \<in> fst ` set entries. ((chain_metadata d)(key \<mapsto> val)) k = None"
    using "2.IH" [OF fresh ins] by (simp_all del: fun_upd_apply)
  then have "key \<notin> fst ` set entries" by auto
  with * fresh show ?case
    by (auto simp: map_add_upd_left map_of_eq_None_iff [symmetric] dom_map_of_conv_image_fst
        fun_eq_iff map_add_def split: option.splits if_splits)
qed simp

lemma genesis_metadata_result:
  assumes "write_chain_metadata_genesis mac d now k u mn mx hb an = (Inr (), d')"
  shows "d' = d\<lparr>chain_metadata := chain_metadata d ++ map_of (rev (genesis_rows mac now k u mn mx hb an))\<rparr>"
  using assms insert_metadata_rows_result [of d "genesis_rows mac now k u mn mx hb an"]
  by (auto simp: write_chain_metadata_genesis_def and_then_Inr split: sum.splits)

lemma genesis_metadata_rolls_back:
  "write_chain_metadata_genesis mac d now k u mn mx hb an = (Inl e, d') \<Longrightarrow> d' = d"
  by (auto simp: write_chain_metadata_genesis_def split: sum.splits)

text \<open>What the MAC is taken of.\<close>

definition metadata_text :: "string \<Rightarrow> string \<Rightarrow> string \<Rightarrow> string \<Rightarrow> (string \<times> string) option \<Rightarrow> string" where
  "metadata_text u v mn mx c = u @ CHR 0x00 # v @ CHR 0x00 # mn @ CHR 0x00 # mx @
     (case c of None \<Rightarrow> [] | Some (hb, an) \<Rightarrow> CHR 0x00 # hb @ CHR 0x00 # an)"

lemma compute_metadata_hmac_text: "compute_metadata_hmac mac k u v mn mx c = hex_encode (mac k (metadata_text u v mn mx c))"
  by (simp add: compute_metadata_hmac_def metadata_text_def Let_def split: option.split)

text \<open>Two rows of covered fields with one MAC value: the version field decides how to read the rest.\<close>

lemma metadata_message_inject:
  assumes "CHR 0x00 \<notin> set v" "CHR 0x00 \<notin> set mn" "CHR 0x00 \<notin> set mx" "CHR 0x00 \<notin> set hb" "CHR 0x00 \<notin> set an"
    and "compute_metadata_hmac mac k u v mn mx (Some (hb, an)) =
      compute_metadata_hmac mac k u v mn' mx' (Some (hb', an'))"
    and "metadata_text u v mn mx (Some (hb, an)) \<in> texts" and "metadata_text u v mn' mx' (Some (hb', an')) \<in> texts"
  shows "(mn = mn' \<and> mx = mx' \<and> hb = hb' \<and> an = an') \<or> mac_collision mac k texts"
proof -
  let ?m = "u @ CHR 0x00 # v @ CHR 0x00 # join CHR 0x00 [mn, mx, hb, an]"
  let ?m' = "u @ CHR 0x00 # v @ CHR 0x00 # join CHR 0x00 [mn', mx', hb', an']"
  have "?m = ?m' \<or> mac_collision mac k texts"
    using assms(6-8) mac_collisionI [of mac k ?m ?m' texts]
    by (simp add: compute_metadata_hmac_text metadata_text_def hex_encode_inject)
  moreover have "?m = ?m' \<Longrightarrow> [mn, mx, hb, an] = [mn', mx', hb', an']"
    by (rule join_inject [where c = "CHR 0x00"]) (use assms in simp_all)
  ultimately show ?thesis by auto
qed

lemma metadata_message_version:
  assumes "CHR 0x00 \<notin> set v" "CHR 0x00 \<notin> set v'"
    and "compute_metadata_hmac mac k u v mn mx c = compute_metadata_hmac mac k u v' mn' mx' c'"
    and "metadata_text u v mn mx c \<in> texts" and "metadata_text u v' mn' mx' c' \<in> texts"
  shows "v = v' \<or> mac_collision mac k texts"
proof -
  define rest where "rest mn mx c = mn @ CHR 0x00 # mx @
    (case c of None \<Rightarrow> [] | Some (hb, an) \<Rightarrow> CHR 0x00 # hb @ CHR 0x00 # an)" for mn mx :: string and c
  have "u @ CHR 0x00 # v @ CHR 0x00 # rest mn mx c = u @ CHR 0x00 # v' @ CHR 0x00 # rest mn' mx' c'
      \<or> mac_collision mac k texts"
    using assms(3-5) by (intro mac_collisionI) (simp_all add: compute_metadata_hmac_text metadata_text_def rest_def hex_encode_inject)
  with append_sep_inject [OF assms(1,2)] show ?thesis by auto
qed

end
