(* ===== verification/ChainProps.thy ===== *)
theory ChainProps
  imports Samples
begin

text \<open>
  What the keyed chain promises about a database whose rows someone may have edited: every
  theorem compares a database that verifies with another one, and leaves the forging of a MAC
  collision as the only alternative. Removing rows from the end is the one change the chain
  itself accepts (\<open>chain_prefix_verifies\<close>); heartbeats and the anchor exist for that.
\<close>

lemma accepted_digest:
  "chain_accepts mac canon k s rows \<Longrightarrow> row \<in> set rows \<Longrightarrow> chain_digest mac k (stored_prev row) (canon (row_entry row)) = row_hash row"
proof (induction rows arbitrary: s)
  case (Cons r rs)
  then show ?case using Cons.IH [of "row_cursor r"] by (auto simp: chain_walk)
qed simp

text \<open>
  C6. The head of the chain determines every row: two databases that verify under one key and
  whose last hashes agree have equally many rows with the same entries and hashes in the same
  order, or two of the texts their rows were computed from collide under the MAC.
\<close>

theorem chain_head_determines_rows:
  assumes "verify_chain_with_key mac canon d (Hmac k) = Inr (Inr n)"
    and "verify_chain_with_key mac canon d' (Hmac k) = Inr (Inr n')"
    and "last_hash d = Inr h" and "last_hash d' = Inr h"
    and "json_objects canon (tool_calls d @ tool_calls d')"
    and "inj_on canon (row_entry ` set (tool_calls d @ tool_calls d'))"
  shows "(n = n' \<and> map row_entry (rows_by_id d) = map row_entry (rows_by_id d') \<and>
      map row_hash (rows_by_id d) = map row_hash (rows_by_id d')) \<or>
    mac_collision mac k (maced_texts canon (tool_calls d @ tool_calls d'))"
proof -
  let ?xs = "rows_by_id d" and ?ys = "rows_by_id d'" and ?texts = "maced_texts canon (tool_calls d @ tool_calls d')"
  let ?f = "\<lambda>r. (stored_prev r, canon (row_entry r), row_hash r)"
  have acc: "chain_accepts mac canon k genesis_cursor ?xs" "chain_accepts mac canon k genesis_cursor ?ys"
    and len: "n = length ?xs" "n' = length ?ys"
    using assms(1,2) by (auto simp: verify_chain_ok_iff)
  have wf: "\<forall>r \<in> set ?xs \<union> set ?ys. chain_wf ?texts (stored_prev r) (canon (row_entry r))"
    by (rule both_wf [OF acc assms(5)])
  have "map ?f ?xs = map ?f ?ys \<or> mac_collision mac k ?texts"
    using chain.head_determines_log [OF acc] wf last_hash_head [OF assms(3)] last_hash_head [OF assms(4)]
    by (simp add: genesis_cursor_def)
  then show ?thesis
  proof
    assume eq: "map ?f ?xs = map ?f ?ys"
    then have len': "length ?xs = length ?ys" using map_eq_imp_length_eq by blast
    from eq have canon: "map canon (map row_entry ?xs) = map canon (map row_entry ?ys)"
      and hash: "map row_hash ?xs = map row_hash ?ys"
      by (auto simp: list_eq_iff_nth_eq)
    have "inj_on canon (set (map row_entry ?xs) \<union> set (map row_entry ?ys))"
      using assms(6) by (simp add: image_Un)
    with canon have "map row_entry ?xs = map row_entry ?ys"
      by (simp only: inj_on_map_eq_map)
    with hash len len' show ?thesis by simp
  qed simp
qed

theorem chain_head_determines_rows_witness:
  "map row_entry (rows_by_id (toy_db [''a'', ''b''])) = map row_entry (rows_by_id (toy_db [''a'', ''b'']))
   \<and> verify_chain_with_key toy_mac toy_canon (toy_db [''a'', ''b'']) (Hmac toy_key) = Inr (Inr 2)"
proof -
  let ?d = "toy_db [''a'', ''b'']"
  have v: "verify_chain_with_key toy_mac toy_canon ?d (Hmac toy_key) = Inr (Inr 2)" by simp
  have h: "last_hash ?d = Inr (row_hash (last (rows_by_id ?d)))"
    by (simp add: last_hash_def sql_def) (simp add: toy_db_def empty_database_def Let_def)
  have "inj_on toy_canon (row_entry ` set (tool_calls ?d @ tool_calls ?d))"
    by (simp add: inj_on_def toy_canon_def toy_db_def Let_def sample_entry_def)
  from chain_head_determines_rows [OF v v h h _ this] show ?thesis using v by simp
qed

text \<open>
  C1. What can be made without the key: against a database that verifies, any other one that verifies
  under its key holds the entries of the first rows of it, in order and nothing else, or one of its
  rows carries the MAC of a text that the writer never gave to the MAC, or two of the texts
  of the two databases collide.
\<close>

theorem chain_forgery_or_prefix:
  assumes "verify_chain_with_key mac canon d (Hmac k) = Inr (Inr n)"
    and "verify_chain_with_key mac canon d' (Hmac k) = Inr (Inr n')"
    and "json_objects canon (tool_calls d @ tool_calls d')"
    and "inj_on canon (row_entry ` set (tool_calls d @ tool_calls d'))"
  shows "(n' \<le> n \<and> map row_entry (rows_by_id d') = take n' (map row_entry (rows_by_id d))) \<or>
    (\<exists>row\<in>set (tool_calls d'). \<exists>t. canon (row_entry row) = Some t \<and> row_hash row = hex_encode (mac k (stored_prev row @ t)) \<and>
      stored_prev row @ t \<notin> maced_texts canon (tool_calls d)) \<or> mac_collision mac k (maced_texts canon (tool_calls d @ tool_calls d'))"
proof -
  let ?xs = "rows_by_id d" and ?ys = "rows_by_id d'" and ?texts = "maced_texts canon (tool_calls d @ tool_calls d')"
  let ?f = "\<lambda>r. (stored_prev r, canon (row_entry r), row_hash r)"
  have acc: "chain_accepts mac canon k genesis_cursor ?xs" "chain_accepts mac canon k genesis_cursor ?ys"
    and len: "n = length ?xs" "n' = length ?ys"
    using assms(1,2) by (auto simp: verify_chain_ok_iff)
  have wf: "\<forall>r \<in> set ?xs \<union> set ?ys. chain_wf ?texts (stored_prev r) (canon (row_entry r))"
    by (rule both_wf [OF acc assms(3)])
  consider "mac_collision mac k ?texts"
    | row where "row \<in> set ?ys" "(stored_prev row, canon (row_entry row)) \<notin> (\<lambda>r. (stored_prev r, canon (row_entry r))) ` set ?xs"
    | "map ?f ?ys = map ?f (take (length ?ys) ?xs)"
    using chain.prefix_or_new_input [OF acc _ _ wf] by (auto simp: genesis_cursor_def)
  then show ?thesis
  proof cases
    case 2
    with wf obtain t where t: "canon (row_entry row) = Some (CHR ''{'' # t)" "CHR ''{'' \<notin> set (stored_prev row)"
      by (auto simp: chain_wf_def)
    have "stored_prev row @ CHR ''{'' # t \<notin> maced_texts canon (tool_calls d)"
    proof
      assume "stored_prev row @ CHR ''{'' # t \<in> maced_texts canon (tool_calls d)"
      then obtain r u where r: "r \<in> set ?xs" "canon (row_entry r) = Some u" "stored_prev row @ CHR ''{'' # t = stored_prev r @ u"
        by (auto simp: maced_texts_def)
      have "chain_wf ?texts (stored_prev r) (canon (row_entry r))" using wf r(1) by blast
      with r(2) obtain u' where "u = CHR ''{'' # u'" "CHR ''{'' \<notin> set (stored_prev r)" by (auto simp: chain_wf_def)
      with r(3) t(2) have "stored_prev row = stored_prev r" "CHR ''{'' # t = u" by (auto simp: append_sep_inject)
      with 2(2) r(1,2) t(1) show False by force
    qed
    moreover have "row_hash row = hex_encode (mac k (stored_prev row @ CHR ''{'' # t))"
      using accepted_digest [OF acc(2) 2(1)] t(1) by (simp add: chain_digest_def)
    ultimately show ?thesis using 2(1) t(1) by auto
  next
    case 3
    then have le: "n' \<le> n" using len map_eq_imp_length_eq [OF 3] by simp
    from 3 have "map canon (map row_entry ?ys) = map canon (map row_entry (take (length ?ys) ?xs))"
      by (auto simp: list_eq_iff_nth_eq)
    moreover have "inj_on canon (set (map row_entry ?ys) \<union> set (map row_entry (take (length ?ys) ?xs)))"
      by (rule inj_on_subset [OF assms(4)]) (auto dest: in_set_takeD)
    ultimately have "map row_entry ?ys = map row_entry (take (length ?ys) ?xs)" by (simp only: inj_on_map_eq_map)
    with le len show ?thesis by (simp add: take_map)
  qed simp
qed

theorem chain_forgery_or_prefix_witness:
  "map row_entry (rows_by_id (toy_db [''a''])) = take 1 (map row_entry (rows_by_id (toy_db [''a'', ''b''])))"
proof -
  let ?d = "toy_db [''a'', ''b'']" and ?e = "toy_db [''a'']"
  have v: "verify_chain_with_key toy_mac toy_canon ?d (Hmac toy_key) = Inr (Inr 2)"
    "verify_chain_with_key toy_mac toy_canon ?e (Hmac toy_key) = Inr (Inr 1)" by simp_all
  have "inj_on toy_canon (row_entry ` set (tool_calls ?d @ tool_calls ?e))"
    by (simp add: inj_on_def toy_canon_def toy_db_def Let_def sample_entry_def)
  then have "map row_entry (rows_by_id ?e) = take 1 (map row_entry (rows_by_id ?d)) \<or>
      (\<exists>row\<in>set (tool_calls ?e). \<exists>t. toy_canon (row_entry row) = Some t \<and> stored_prev row @ t \<notin> maced_texts toy_canon (tool_calls ?d))"
    using chain_forgery_or_prefix [OF v] by (auto simp del: toy_db_rows)
  moreover have "set (tool_calls ?e) \<subseteq> set (tool_calls ?d)" by (simp add: toy_db_def Let_def)
  then have "stored_prev row @ t \<in> maced_texts toy_canon (tool_calls ?d)" if "row \<in> set (tool_calls ?e)" "toy_canon (row_entry row) = Some t" for row t
    using that unfolding maced_texts_def by blast
  ultimately show ?thesis by blast
qed

text \<open>
  Rows deleted in front of surviving ones are reported, with no cryptographic assumption:
  behind a surviving row as \<open>RowMissing\<close> with the exact ids around the gap, from the start of
  the table as \<open>LinkBroken\<close> at the first survivor.
\<close>

theorem chain_deletion_reported:
  assumes "verify_chain_with_key mac canon d (Hmac k) = Inr (Inr n)"
    and "rows_by_id d = xs @ zs @ ys" and "zs \<noteq> []" and "ys \<noteq> []"
    and "read_all_rows d' = Inr (xs @ ys)"
  shows "verify_chain_with_key mac canon d' (Hmac k) = Inr (Inl
    (if xs = [] then LinkBroken (row_id (hd ys)) genesis_prev_hash (row_hash (last zs))
     else RowMissing (row_id (last xs)) (row_id (last xs) + 1) (row_id (hd ys))))"
proof -
  obtain y ys' where ys: "ys = y # ys'" using assms(4) by (cases ys) auto
  have acc: "chain_accepts mac canon k genesis_cursor (xs @ zs @ ys)"
    using assms(1,2) by (simp add: verify_chain_ok_iff)
  show ?thesis
  proof (cases "xs = []")
    case True
    have "chain_accepts mac canon k genesis_cursor (zs @ [y])"
      using acc chain.walk_prefix [of mac canon k genesis_cursor "zs @ [y]" ys'] True ys by simp
    then have "stored_prev y = row_hash (last zs)" and "chain_accepts mac canon k genesis_cursor zs"
      using assms(3) by (auto simp: chain.walk_append chain.walk_Cons row_cursor_def)
    moreover from this have "row_hash (last zs) \<noteq> genesis_prev_hash"
      using accepted_hash_not_genesis [of mac canon k genesis_cursor "butlast zs" "last zs"] assms(3) by simp
    ultimately show ?thesis
      using True ys assms(5) by (simp add: verify_chain_with_key_def id_gap_def)
  next
    case False
    have pre: "chain_accepts mac canon k genesis_cursor xs"
      using acc by (rule chain.walk_prefix)
    have "row_id y = row_id (last xs) + 1 + int (length zs)"
    proof -
      have "chain_accepts mac canon k (row_cursor (last xs)) (zs @ y # ys')"
        using acc False ys by (simp add: chain.walk_append)
      from accepted_ids [OF this, of "length zs" "row_id (last xs)"] show ?thesis
        by (simp add: row_cursor_def)
    qed
    then have "id_gap (Some (row_id (last xs))) y =
        Some (RowMissing (row_id (last xs)) (row_id (last xs) + 1) (row_id y))"
      using assms(3) by (simp add: id_gap_def)
    with verify_rows_append [OF pre False, of ys] show ?thesis
      using False ys assms(5) by (simp add: verify_chain_with_key_def genesis_cursor_def)
  qed
qed

theorem chain_deletion_reported_witness:
  "\<exists>d'. read_all_rows d' = Inr (toy_rows genesis_prev_hash 1 [''a''] @ drop 2 (toy_rows genesis_prev_hash 1 [''a'', ''b'', ''c'']))
     \<and> verify_chain_with_key toy_mac toy_canon d' (Hmac toy_key) = Inr (Inl (RowMissing 1 2 3))"
proof -
  let ?r = "toy_rows genesis_prev_hash 1 [''a'', ''b'', ''c'']"
  let ?d' = "empty_database\<lparr>tool_calls := take 1 ?r @ drop 2 ?r\<rparr>"
  have r: "read_all_rows ?d' = Inr (take 1 ?r @ drop 2 ?r)"
    by (simp add: read_all_rows_def sql_def empty_database_def rows_by_id_sorted Let_def)
  have "verify_chain_with_key toy_mac toy_canon ?d' (Hmac toy_key) = Inr (Inl (RowMissing 1 2 3))"
    using chain_deletion_reported [of toy_mac toy_canon "toy_db [''a'', ''b'', ''c'']" toy_key 3
        "take 1 ?r" "take 1 (drop 1 ?r)" "drop 2 ?r" ?d', OF _ _ _ _ r]
    by (simp add: Let_def)
  with r show ?thesis by (intro exI [of _ ?d']) (simp add: Let_def)
qed

text \<open>
  Editing any column the canonical text covers, in any row, is reported as
  \<open>ContentTampered\<close> at that row, or the old and the new text of the row collide under the MAC.
\<close>

theorem chain_edit_reported:
  assumes "verify_chain_with_key mac canon d (Hmac k) = Inr (Inr n)"
    and "rows_by_id d = xs @ x # ys"
    and "canon e' = Some t" and "canon (row_entry x) \<noteq> canon e'"
    and "read_all_rows d' = Inr (xs @ x\<lparr>row_entry := e'\<rparr> # ys)"
  shows "(\<exists>recomputed. verify_chain_with_key mac canon d' (Hmac k) =
      Inr (Inl (ContentTampered (row_id x) (e_tool_name e') recomputed (row_hash x)))) \<or>
    mac_collision mac k (maced_texts canon [x, x\<lparr>row_entry := e'\<rparr>])"
proof -
  let ?texts = "maced_texts canon [x, x\<lparr>row_entry := e'\<rparr>]"
  let ?x' = "x\<lparr>row_entry := e'\<rparr>"
  let ?s = "if xs = [] then genesis_cursor else row_cursor (last xs)"
  have acc: "chain_accepts mac canon k genesis_cursor (xs @ x # ys)"
    using assms(1,2) by (simp add: verify_chain_ok_iff)
  have pre: "chain_accepts mac canon k genesis_cursor xs" and x: "row_follows canon ?s x"
    "stored_prev x = fst ?s" "chain_digest mac k (stored_prev x) (canon (row_entry x)) = row_hash x"
    using acc by (auto simp: chain.walk_append chain.walk_Cons)
  have x': "stored_prev ?x' = fst ?s" "id_gap (snd ?s) ?x' = None"
    using x by (auto simp: stored_prev_def row_follows_def id_gap_def split: option.splits if_splits)
  obtain t0 where t0: "canon (row_entry x) = Some t0" using x(1) by (auto simp: row_follows_def)
  have "hex_encode (mac k (stored_prev x @ t)) \<noteq> row_hash x \<or> mac_collision mac k ?texts"
  proof (rule disjCI)
    assume "\<not> mac_collision mac k ?texts"
    moreover have "stored_prev x @ t \<in> ?texts" "stored_prev x @ t0 \<in> ?texts"
      using maced_textsI [of ?x' "[x, ?x']" canon t] maced_textsI [of x "[x, ?x']" canon t0] t0 assms(3) x(2) x'(1) by simp_all
    ultimately have "mac k (stored_prev x @ t) \<noteq> mac k (stored_prev x @ t0)"
      using t0 assms(3,4) mac_collisionI [of mac k "stored_prev x @ t" "stored_prev x @ t0" ?texts] by auto
    then have "hex_encode (mac k (stored_prev x @ t)) \<noteq> hex_encode (mac k (stored_prev x @ t0))"
      by (simp add: hex_encode_inject)
    with x(3) t0 show "hex_encode (mac k (stored_prev x @ t)) \<noteq> row_hash x"
      by (auto simp: chain_digest_def)
  qed
  moreover have "verify_rows mac canon (Hmac k) genesis_prev_hash None (xs @ ?x' # ys) =
      verify_rows mac canon (Hmac k) (fst ?s) (snd ?s) (?x' # ys)"
    using verify_rows_append [OF pre] by (cases "xs = []") (simp_all add: genesis_cursor_def row_cursor_def)
  ultimately show ?thesis
    using x' x(2) assms(3,5) by (auto simp: verify_chain_with_key_def compute_hash_hmac_def)
qed

theorem chain_edit_reported_witness:
  "\<exists>d' recomputed. verify_chain_with_key toy_mac toy_canon d' (Hmac toy_key) =
     Inr (Inl (ContentTampered 1 ''evil'' recomputed (row_hash (hd (toy_rows genesis_prev_hash 1 [''a''])))))"
proof -
  let ?x = "hd (toy_rows genesis_prev_hash 1 [''a''])"
  let ?e = "(row_entry ?x)\<lparr>e_tool_name := ''evil''\<rparr>"
  let ?d' = "empty_database\<lparr>tool_calls := [?x\<lparr>row_entry := ?e\<rparr>]\<rparr>"
  have r: "read_all_rows ?d' = Inr ([] @ ?x\<lparr>row_entry := ?e\<rparr> # [])"
    by (simp add: read_all_rows_def sql_def empty_database_def rows_by_id_def)
  have c: "toy_canon ?e = Some ''{evil''" "toy_canon (row_entry ?x) \<noteq> toy_canon ?e"
    by (simp_all add: toy_canon_def Let_def)
  from chain_edit_reported [of toy_mac toy_canon "toy_db [''a'']" toy_key 1 "[]" ?x "[]" ?e, OF _ _ c r]
  show ?thesis by (auto simp: Let_def)
qed

text \<open>
  What the chain alone cannot see: if rows are missing only at the end, the rest still
  verifies, with the smaller count.
\<close>

theorem chain_prefix_verifies:
  assumes "verify_chain_with_key mac canon d (Hmac k) = Inr (Inr n)"
    and "m \<le> n" and "rows_by_id d' = take m (rows_by_id d)" and "read_all_rows d' = Inr (rows_by_id d')"
  shows "verify_chain_with_key mac canon d' (Hmac k) = Inr (Inr m)"
  using assms chain.walk_take [of mac canon k genesis_cursor "rows_by_id d" m]
  by (auto simp: verify_chain_ok_iff)

theorem chain_prefix_verifies_witness:
  "verify_chain_with_key toy_mac toy_canon (toy_db [''a'']) (Hmac toy_key) = Inr (Inr 1)"
  using chain_prefix_verifies [of toy_mac toy_canon "toy_db [''a'', ''b'']" toy_key 2 1 "toy_db [''a'']"]
  by (simp add: Let_def)

end
