(* ===== verification/MetadataProps.thy ===== *)
theory MetadataProps
  imports Metadata Samples
begin

text \<open>What the MAC over \<open>chain_metadata\<close> promises, stated over the transaction that writes it.\<close>

text \<open>
  Genesis round trip: the configuration written at genesis reads back field by field, with
  the version this build supports, and its MAC verifies under the key that wrote it.
\<close>

theorem genesis_metadata_roundtrip:
  assumes "write_chain_metadata_genesis mac d now k u mn mx hb an = (Inr (), d')"
    and "mn < 2 ^ 64" and "mx < 2 ^ 64" and "\<forall>key. \<not> sql_fails d (''read chain_metadata.'' @ key) 0"
  shows "\<exists>m. read_chain_metadata d' = Inr (Some m) \<and> cm_db_uuid m = u \<and>
    is_supported_hmac_version (cm_hmac_version m) \<and>
    cm_cadence_min m = Some mn \<and> cm_cadence_max m = Some mx \<and> cm_created_at m = Some now \<and>
    cm_heartbeat_enabled m = Some hb \<and> cm_anchor_enabled m = Some an \<and>
    verify_chain_metadata_hmac mac d' k m = Inr True"
proof -
  have rows: "chain_metadata d' ''db_uuid'' = Some u" "chain_metadata d' ''hmac_version'' = Some ''2''"
    "chain_metadata d' ''heartbeat_cadence_min_secs'' = Some (show_nat mn)"
    "chain_metadata d' ''heartbeat_cadence_max_secs'' = Some (show_nat mx)"
    "chain_metadata d' ''heartbeat_enabled'' = Some (show_bool hb)"
    "chain_metadata d' ''anchor_enabled'' = Some (show_bool an)"
    "chain_metadata d' ''created_at'' = Some now"
    "chain_metadata d' ''metadata_hmac'' =
      Some (compute_metadata_hmac mac k u ''2'' (show_nat mn) (show_nat mx) (Some (show_bool hb, show_bool an)))"
    and fails: "sql_fails d' = sql_fails d"
    using genesis_metadata_result [OF assms(1)] by (auto simp: genesis_rows_def current_hmac_version_def)
  let ?m = "\<lparr>cm_db_uuid = u, cm_hmac_version = Some ''2'', cm_cadence_min = Some mn, cm_cadence_max = Some mx,
    cm_created_at = Some now, cm_heartbeat_enabled = Some hb, cm_anchor_enabled = Some an\<rparr>"
  have get: "chain_metadata_get d' key = Inr (chain_metadata d' key)" for key
    using assms(4) fails by simp
  have "read_chain_metadata d' = Inr (Some ?m)"
    using assms(2,3) by (simp add: read_chain_metadata_def get rows)
  moreover have "verify_chain_metadata_hmac mac d' k ?m = Inr True"
    by (simp add: verify_chain_metadata_hmac_def get rows)
  ultimately show ?thesis
    by (intro exI [of _ ?m])
       (simp add: is_supported_hmac_version_def supported_hmac_versions_def)
qed

theorem genesis_metadata_roundtrip_witness:
  "\<exists>d' m. write_chain_metadata_genesis toy_mac empty_database ''now'' toy_key ''u'' 45 75 True False = (Inr (), d')
     \<and> read_chain_metadata d' = Inr (Some m) \<and> cm_cadence_max m = Some 75
     \<and> verify_chain_metadata_hmac toy_mac d' toy_key m = Inr True"
proof -
  obtain d' where d': "write_chain_metadata_genesis toy_mac empty_database ''now'' toy_key ''u'' 45 75 True False = (Inr (), d')"
    by (simp add: write_chain_metadata_genesis_def genesis_rows_def sql_def empty_database_def)
  from genesis_metadata_roundtrip [OF d'] d' show ?thesis by (auto simp: empty_database_def)
qed

text \<open>The texts the covered rows of a table can give to the MAC, under either version.\<close>

definition metadata_texts :: "string \<Rightarrow> database \<Rightarrow> string set" where
  "metadata_texts u d = {metadata_text u v mn mx c | v mn mx c.
     chain_metadata d ''hmac_version'' = Some v \<and> chain_metadata d ''heartbeat_cadence_min_secs'' = Some mn \<and>
     chain_metadata d ''heartbeat_cadence_max_secs'' = Some mx \<and>
     (c = None \<or> c = Some (the (chain_metadata d ''heartbeat_enabled''), the (chain_metadata d ''anchor_enabled'')))}"

lemma metadata_textsI:
  "chain_metadata d ''hmac_version'' = Some v \<Longrightarrow> chain_metadata d ''heartbeat_cadence_min_secs'' = Some mn \<Longrightarrow>
   chain_metadata d ''heartbeat_cadence_max_secs'' = Some mx \<Longrightarrow>
   c = None \<or> c = Some (the (chain_metadata d ''heartbeat_enabled''), the (chain_metadata d ''anchor_enabled'')) \<Longrightarrow>
   metadata_text u v mn mx c \<in> metadata_texts u d"
  unfolding metadata_texts_def by blast

text \<open>
  C16. The covered configuration cannot be edited: if genesis wrote a database, and a later state
  of the table keeps the MAC value and the \<open>db_uuid\<close> and still verifies with a version this
  build supports, then the version, both cadence bounds and both check flags are the genesis
  ones, or two of the texts of the two tables collide under the MAC. Deleting or re-typing a row is covered, and so is
  claiming version 1, whose MAC has fewer fields.
\<close>

theorem metadata_edit_rejected:
  assumes "write_chain_metadata_genesis mac d now k u mn mx hb an = (Inr (), d')"
    and "chain_metadata e ''metadata_hmac'' = chain_metadata d' ''metadata_hmac''"
    and "read_chain_metadata e = Inr (Some m)" and "cm_db_uuid m = u"
    and "is_supported_hmac_version (cm_hmac_version m)"
    and "verify_chain_metadata_hmac mac e k m = Inr True"
  shows "(\<forall>key \<in> {''hmac_version'', ''heartbeat_cadence_min_secs'', ''heartbeat_cadence_max_secs'',
      ''heartbeat_enabled'', ''anchor_enabled''}. chain_metadata e key = chain_metadata d' key) \<or>
    mac_collision mac k (metadata_texts u d' \<union> metadata_texts u e)"
proof -
  have rows: "chain_metadata d' ''hmac_version'' = Some ''2''"
    "chain_metadata d' ''heartbeat_cadence_min_secs'' = Some (show_nat mn)"
    "chain_metadata d' ''heartbeat_cadence_max_secs'' = Some (show_nat mx)"
    "chain_metadata d' ''heartbeat_enabled'' = Some (show_bool hb)"
    "chain_metadata d' ''anchor_enabled'' = Some (show_bool an)"
    "chain_metadata d' ''metadata_hmac'' =
      Some (compute_metadata_hmac mac k u ''2'' (show_nat mn) (show_nat mx) (Some (show_bool hb, show_bool an)))"
    using genesis_metadata_result [OF assms(1)] by (auto simp: genesis_rows_def current_hmac_version_def)
  have ver: "cm_hmac_version m = chain_metadata e ''hmac_version''"
    using assms(3) by (auto simp: read_chain_metadata_def and_then_Inr split: option.splits)
  obtain v emn emx where e: "chain_metadata e ''hmac_version'' = Some v"
    "chain_metadata e ''heartbeat_cadence_min_secs'' = Some emn"
    "chain_metadata e ''heartbeat_cadence_max_secs'' = Some emx"
    using assms(6) by (auto simp: verify_chain_metadata_hmac_def and_then_Inr split: option.splits)
  have v: "v = ''1'' \<or> v = ''2''"
    using assms(5) e(1) ver by (auto simp: is_supported_hmac_version_def supported_hmac_versions_def)
  let ?texts = "metadata_texts u d' \<union> metadata_texts u e"
  have known: "metadata_text u ''2'' (show_nat mn) (show_nat mx) (Some (show_bool hb, show_bool an)) \<in> ?texts"
    using metadata_textsI [of d' "''2''" "show_nat mn" "show_nat mx" "Some (show_bool hb, show_bool an)" u] rows by simp
  let ?tag = "compute_metadata_hmac mac k u ''2'' (show_nat mn) (show_nat mx) (Some (show_bool hb, show_bool an))"
  show ?thesis
  proof (cases "v = ''2''")
    case True
    then obtain ehb ean where c: "chain_metadata e ''heartbeat_enabled'' = Some ehb"
      "chain_metadata e ''anchor_enabled'' = Some ean"
      "?tag = compute_metadata_hmac mac k u ''2'' emn emx (Some (ehb, ean))"
      using assms(2,4,6) e rows
      by (auto simp: verify_chain_metadata_hmac_def and_then_Inr split: option.splits)
    have "metadata_text u ''2'' emn emx (Some (ehb, ean)) \<in> ?texts"
      using metadata_textsI [of e v emn emx "Some (ehb, ean)" u] e c True by simp
    from metadata_message_inject [OF _ _ _ _ _ c(3) known this] e rows c True show ?thesis by auto
  next
    case False
    then have "?tag = compute_metadata_hmac mac k u v emn emx None"
      using assms(2,4,6) e rows
      by (auto simp: verify_chain_metadata_hmac_def and_then_Inr split: option.splits)
    moreover have "metadata_text u v emn emx None \<in> ?texts" using metadata_textsI [of e v emn emx None u] e by simp
    ultimately show ?thesis using metadata_message_version [of "''2''" v mac k u "show_nat mn" "show_nat mx"
          "Some (show_bool hb, show_bool an)" emn emx None ?texts] known v False by auto
  qed
qed

theorem metadata_edit_rejected_witness:
  "\<exists>d' e m. write_chain_metadata_genesis toy_mac empty_database ''now'' toy_key ''u'' 45 75 True True = (Inr (), d')
     \<and> e = d'\<lparr>chain_metadata := (chain_metadata d')(''heartbeat_cadence_max_secs'' \<mapsto> show_nat 9999)\<rparr>
     \<and> read_chain_metadata e = Inr (Some m) \<and> verify_chain_metadata_hmac toy_mac e toy_key m \<noteq> Inr True"
proof -
  obtain d' where d': "write_chain_metadata_genesis toy_mac empty_database ''now'' toy_key ''u'' 45 75 True True = (Inr (), d')"
    by (simp add: write_chain_metadata_genesis_def genesis_rows_def sql_def empty_database_def)
  define e where "e = d'\<lparr>chain_metadata := (chain_metadata d')(''heartbeat_cadence_max_secs'' \<mapsto> show_nat 9999)\<rparr>"
  define m where "m = \<lparr>cm_db_uuid = ''u'', cm_hmac_version = Some ''2'', cm_cadence_min = Some 45,
    cm_cadence_max = Some 9999, cm_created_at = Some ''now'', cm_heartbeat_enabled = Some True,
    cm_anchor_enabled = Some True\<rparr>"
  have rows: "chain_metadata d' = map_of (rev (genesis_rows toy_mac ''now'' toy_key ''u'' 45 75 True True))"
    "sql_fails d' = (\<lambda>_ _. False)"
    using genesis_metadata_result [OF d'] by (simp_all add: empty_database_def)
  have read: "read_chain_metadata e = Inr (Some m)"
    by (simp add: read_chain_metadata_def chain_metadata_get_def sql_def e_def m_def rows genesis_rows_def
        current_hmac_version_def)
  have "verify_chain_metadata_hmac toy_mac e toy_key m \<noteq> Inr True"
  proof
    assume v: "verify_chain_metadata_hmac toy_mac e toy_key m = Inr True"
    have "chain_metadata e ''heartbeat_cadence_max_secs'' = chain_metadata d' ''heartbeat_cadence_max_secs''"
      using metadata_edit_rejected [OF d' _ read _ _ v]
      by (simp add: e_def m_def is_supported_hmac_version_def supported_hmac_versions_def)
    then show False by (simp add: e_def rows genesis_rows_def)
  qed
  with d' read e_def show ?thesis by blast
qed

end
