(* ===== verification/RedactionIndex.thy ===== *)
theory RedactionIndex
  imports Store Truncate
begin

text \<open>
  \<open>src/db/redaction_repair.rs\<close>: the derived index \<open>redactions\<close>, its consistency check and its
  repair. \<open>parse_flags\<close> is the parameter for \<open>serde_json::from_str::<Vec<RedactionEntry>>\<close>: the
  triples of a \<open>redaction_flags\<close> column, or the text of the parse error.

  The lemmas show that a successful repair leaves the index of every call equal, as a multiset,
  to the hits of its flags, so that the check afterwards reports the unparseable rows only, and
  that nothing but the index is touched.
\<close>

type_synonym parse_flags = "string \<Rightarrow> string + redaction_triple list"

text \<open>\<open>INSERT INTO redactions\<close>, and the deletion of one row by its primary key.\<close>

definition insert_redaction :: "database \<Rightarrow> int \<Rightarrow> redaction_triple \<Rightarrow> database" where
  "insert_redaction d call t =
     d\<lparr>redactions := redactions d @ [\<lparr>rr_id = redactions_seq d + 1, rr_tool_call_id = call, rr_triple = t\<rparr>],
       redactions_seq := redactions_seq d + 1\<rparr>"

definition delete_one_redaction :: "database \<Rightarrow> int \<Rightarrow> redaction_triple \<Rightarrow> database" where
  "delete_one_redaction d call t =
     (case find (\<lambda>r. rr_tool_call_id r = call \<and> rr_triple r = t) (redactions_by_id d) of
        None \<Rightarrow> d
      | Some r \<Rightarrow> d\<lparr>redactions := filter (\<lambda>r'. rr_id r' \<noteq> rr_id r) (redactions d)\<rparr>)"

text \<open>The projection at insert time; \<open>last_insert_rowid\<close> is the id of the row just inserted.\<close>

fun insert_redaction_records :: "database \<Rightarrow> nat \<Rightarrow> int \<Rightarrow> redaction_triple list \<Rightarrow> string list \<times> database" where
  "insert_redaction_records d n call [] = ([], d)"
| "insert_redaction_records d n call (r # rs) =
     (case sql d ''insert redaction'' n () of
        Inl e \<Rightarrow> (let (ws, d') = insert_redaction_records d (Suc n) call rs
                  in ((''redactions index drift: failed to insert index row for tool_call '' @ show_int call) # ws, d'))
      | Inr _ \<Rightarrow> insert_redaction_records (insert_redaction d call r) (Suc n) call rs)"

definition insert_redaction_rows :: "parse_flags \<Rightarrow> database \<Rightarrow> int \<Rightarrow> string \<Rightarrow> string list \<times> database" where
  "insert_redaction_rows parse d last_insert_rowid flags_json =
     (case parse flags_json of
        Inl e \<Rightarrow> ([''redactions index drift: failed to parse redaction_flags for the indexed projection: '' @ e], d)
      | Inr records \<Rightarrow> insert_redaction_records d 0 last_insert_rowid records)"

section \<open>Loading both sides\<close>

record redaction_drift =
  drift_call :: int
  drift_detail :: string

record redaction_state =
  expected :: "(int \<times> redaction_triple list) list"
  actual :: "(int \<times> redaction_triple list) list"
  unparseable :: "redaction_drift list"

text \<open>\<open>HashMap::insert\<close>, \<open>entry(id).or_default().push\<close> and \<open>get(id).unwrap_or_default()\<close>.\<close>

fun put_at :: "int \<Rightarrow> 'a \<Rightarrow> (int \<times> 'a) list \<Rightarrow> (int \<times> 'a) list" where
  "put_at k v [] = [(k, v)]"
| "put_at k v ((k', v') # m) = (if k = k' then (k, v) # m else (k', v') # put_at k v m)"

definition get_or_default :: "(int \<times> 'a list) list \<Rightarrow> int \<Rightarrow> 'a list" where
  "get_or_default m k = (case map_of m k of Some v \<Rightarrow> v | None \<Rightarrow> [])"

definition push_at :: "int \<Rightarrow> 'a \<Rightarrow> (int \<times> 'a list) list \<Rightarrow> (int \<times> 'a list) list" where
  "push_at k x m = put_at k (get_or_default m k @ [x]) m"

fun load_expected ::
  "parse_flags \<Rightarrow> stored_row list \<Rightarrow> (int \<times> redaction_triple list) list \<Rightarrow> redaction_drift list \<Rightarrow>
   (int \<times> redaction_triple list) list \<times> redaction_drift list" where
  "load_expected parse [] ex un = (ex, un)"
| "load_expected parse (row # rows) ex un =
     (case e_redaction_flags (row_entry row) of
        None \<Rightarrow> load_expected parse rows ex un
      | Some raw \<Rightarrow>
          (case parse raw of
             Inr records \<Rightarrow> load_expected parse rows (put_at (row_id row) records ex) un
           | Inl e \<Rightarrow> load_expected parse rows ex
               (un @ [\<lparr>drift_call = row_id row,
                       drift_detail = ''redaction_flags is not parseable JSON ('' @ e @ ''); index cannot be verified''\<rparr>])))"

definition load_actual :: "redaction_row list \<Rightarrow> (int \<times> redaction_triple list) list" where
  "load_actual rows = foldl (\<lambda>m r. push_at (rr_tool_call_id r) (rr_triple r) m) [] rows"

definition load_redaction_state :: "parse_flags \<Rightarrow> database \<Rightarrow> redaction_state result" where
  "load_redaction_state parse d =
     and_then (sql d ''prepare redaction_flags scan'' 0 ()) (\<lambda>_.
     and_then (sql d ''scan redaction_flags'' 0 ()) (\<lambda>_.
     and_then (sql d ''read redaction_flags row'' 0 ()) (\<lambda>_.
     let (ex, un) = load_expected parse (rows_by_id d) [] [] in
     and_then (sql d ''prepare redactions scan'' 0 ()) (\<lambda>_.
     and_then (sql d ''scan redactions'' 0 ()) (\<lambda>_.
     and_then (sql d ''read redactions row'' 0 ()) (\<lambda>_.
       Inr \<lparr>expected = ex, actual = load_actual (redactions_by_id d), unparseable = un\<rparr>))))))"

definition all_ids :: "redaction_state \<Rightarrow> int list" where
  "all_ids st = remdups_adj (sort (map fst (expected st) @ map fst (actual st)))"

section \<open>Comparing\<close>

text \<open>The loop removes the first equal element of \<open>remaining\<close>, or records the one it misses.\<close>

fun diff_triples :: "'a list \<Rightarrow> 'a list \<Rightarrow> 'a list \<times> 'a list" where
  "diff_triples [] remaining = ([], remaining)"
| "diff_triples (e # es) remaining =
     (if e \<in> set remaining then diff_triples es (remove1 e remaining)
      else (let (missing, left) = diff_triples es remaining in (e # missing, left)))"

definition short_triple :: "redaction_triple \<Rightarrow> string" where
  "short_triple t =
     (let sha = snd (snd t) in fst t @ ''('' @ take (snap_boundary sha 12) sha @ [CHR 0xE2, CHR 0x80, CHR 0xA6] @ '')'')"

fun join_str :: "string \<Rightarrow> string list \<Rightarrow> string" where
  "join_str sep [] = []"
| "join_str sep [x] = x"
| "join_str sep (x # y # xs) = x @ sep @ join_str sep (y # xs)"

definition state_diff :: "redaction_state \<Rightarrow> int \<Rightarrow> redaction_triple list \<times> redaction_triple list" where
  "state_diff st i = diff_triples (get_or_default (expected st) i) (get_or_default (actual st) i)"

definition drift_text :: "redaction_triple list \<Rightarrow> redaction_triple list \<Rightarrow> string" where
  "drift_text missing extra = join_str ''; ''
     ((if missing \<noteq> [] then [''missing from index: '' @ join_str '', '' (map short_triple missing)] else []) @
      (if extra \<noteq> [] then [''in index but not in redaction_flags: '' @ join_str '', '' (map short_triple extra)] else []))"

definition check_redaction_consistency :: "parse_flags \<Rightarrow> database \<Rightarrow> redaction_drift list result" where
  "check_redaction_consistency parse d =
     and_then (load_redaction_state parse d) (\<lambda>st.
       Inr (sort_key drift_call (unparseable st @
         concat (map (\<lambda>i. let (missing, extra) = state_diff st i in
             if missing \<noteq> [] \<or> extra \<noteq> []
             then [\<lparr>drift_call = i, drift_detail = drift_text missing extra\<rparr>] else []) (all_ids st)))))"

section \<open>Repair\<close>

record repair_action =
  ra_call :: int
  ra_add :: "redaction_triple list"
  ra_remove :: "redaction_triple list"

record repair_plan =
  rp_actions :: "repair_action list"
  rp_unrepairable :: "redaction_drift list"

definition plan_redaction_repair :: "parse_flags \<Rightarrow> database \<Rightarrow> repair_plan result" where
  "plan_redaction_repair parse d =
     and_then (load_redaction_state parse d) (\<lambda>st.
       Inr \<lparr>rp_actions = concat (map (\<lambda>i. let (missing, extra) = state_diff st i in
             if missing \<noteq> [] \<or> extra \<noteq> []
             then [\<lparr>ra_call = i, ra_add = missing, ra_remove = extra\<rparr>] else []) (all_ids st)),
           rp_unrepairable = unparseable st\<rparr>)"

text \<open>
  The nested loops of \<open>apply_redaction_repair\<close> as the sequence of their statements; the n-th
  statement is the n-th one that can fail.
\<close>

datatype repair_stmt = DeleteOne int redaction_triple | InsertOne int redaction_triple

definition action_stmts :: "repair_action \<Rightarrow> repair_stmt list" where
  "action_stmts a = map (DeleteOne (ra_call a)) (ra_remove a) @ map (InsertOne (ra_call a)) (ra_add a)"

fun exec_stmt :: "database \<Rightarrow> repair_stmt \<Rightarrow> database" where
  "exec_stmt d (DeleteOne i t) = delete_one_redaction d i t"
| "exec_stmt d (InsertOne i t) = insert_redaction d i t"

fun exec_stmts :: "database \<Rightarrow> nat \<Rightarrow> repair_stmt list \<Rightarrow> database result" where
  "exec_stmts d n [] = Inr d"
| "exec_stmts d n (s # ss) = and_then (sql d ''repair statement'' n ()) (\<lambda>_. exec_stmts (exec_stmt d s) (Suc n) ss)"

definition apply_redaction_repair :: "parse_flags \<Rightarrow> database \<Rightarrow> repair_plan result \<times> database" where
  "apply_redaction_repair parse d =
     (case plan_redaction_repair parse d of
        Inl e \<Rightarrow> (Inl e, d)
      | Inr plan \<Rightarrow>
          if rp_actions plan = [] then (Inr plan, d)
          else (case and_then (sql d ''begin repair transaction'' 0 ()) (\<lambda>_.
                     and_then (exec_stmts d 0 (concat (map action_stmts (rp_actions plan)))) (\<lambda>d'.
                     sql d' ''commit repair transaction'' 0 d')) of
                  Inl e \<Rightarrow> (Inl e, d)
                | Inr d' \<Rightarrow> (Inr plan, d')))"

section \<open>Lemmas: the index as a multiset per call\<close>

definition index_of :: "database \<Rightarrow> int \<Rightarrow> redaction_triple multiset" where
  "index_of d i = image_mset rr_triple (filter_mset (\<lambda>r. rr_tool_call_id r = i) (mset (redactions d)))"

text \<open>The hits the flags of a row record, none if the column is NULL or does not parse.\<close>

definition hits :: "parse_flags \<Rightarrow> stored_row \<Rightarrow> redaction_triple list" where
  "hits parse row =
     (case e_redaction_flags (row_entry row) of
        None \<Rightarrow> [] | Some raw \<Rightarrow> (case parse raw of Inl e \<Rightarrow> [] | Inr records \<Rightarrow> records))"

definition flags_parse :: "parse_flags \<Rightarrow> stored_row \<Rightarrow> bool" where
  "flags_parse parse row \<longleftrightarrow>
     (case e_redaction_flags (row_entry row) of None \<Rightarrow> True | Some raw \<Rightarrow> is_ok (parse raw))"

text \<open>The primary key of the index.\<close>

definition index_keys_ok :: "database \<Rightarrow> bool" where
  "index_keys_ok d \<longleftrightarrow> distinct (map rr_id (redactions d)) \<and> (\<forall>r \<in> set (redactions d). rr_id r \<le> redactions_seq d)"

lemma map_of_put_at: "map_of (put_at k v m) = (map_of m)(k \<mapsto> v)"
  by (induction k v m rule: put_at.induct) auto

lemma set_put_at: "fst ` set (put_at k v m) = insert k (fst ` set m)"
  by (induction k v m rule: put_at.induct) auto

lemma get_put_at [simp]: "get_or_default (put_at k v m) j = (if j = k then v else get_or_default m j)"
  by (simp add: get_or_default_def map_of_put_at)

lemma get_Nil [simp]: "get_or_default [] j = []"
  by (simp add: get_or_default_def)

lemma get_push_at: "get_or_default (push_at k x m) j = (if j = k then get_or_default m k @ [x] else get_or_default m j)"
  by (simp add: push_at_def)

lemma get_or_default_Nil: "j \<notin> fst ` set m \<Longrightarrow> get_or_default m j = []"
  by (metis get_or_default_def map_of_eq_None_iff option.simps(4))

lemma load_actual_get:
  "get_or_default (load_actual rs) i = map rr_triple (filter (\<lambda>r. rr_tool_call_id r = i) rs)"
  unfolding load_actual_def
  by (induction rs rule: rev_induct) (auto simp: get_push_at)

lemma index_of_actual: "index_of d i = mset (get_or_default (load_actual (redactions_by_id d)) i)"
  by (simp add: index_of_def load_actual_get redactions_by_id_def mset_filter)

lemma load_expected_acc:
  assumes "distinct (map row_id rows)" and "\<forall>row \<in> set rows. row_id row \<notin> fst ` set ex"
    and "load_expected parse rows ex un = (ex', un')"
  shows "\<forall>i. get_or_default ex' i =
      (case find (\<lambda>r. row_id r = i) rows of Some r \<Rightarrow> hits parse r | None \<Rightarrow> get_or_default ex i)"
    and "map drift_call un' = map drift_call un @ map row_id (filter (\<lambda>r. \<not> flags_parse parse r) rows)"
  using assms
proof (induction rows arbitrary: ex un)
  case (Cons row rows)
  { case 1
    have h: "hits parse row = (case e_redaction_flags (row_entry row) of
        None \<Rightarrow> [] | Some raw \<Rightarrow> (case parse raw of Inl e \<Rightarrow> [] | Inr records \<Rightarrow> records))"
      by (fact hits_def)
    from 1 have none: "get_or_default ex (row_id row) = []" by (simp add: get_or_default_Nil)
    have fresh: "find (\<lambda>r. row_id r = row_id row) rows = None"
      using 1 by (simp add: find_None_iff) (metis image_eqI)
    show ?case
    proof (cases "e_redaction_flags (row_entry row)")
      case None
      with 1 Cons.IH(1) [of ex un] none fresh h show ?thesis by auto
    next
      case (Some raw)
      show ?thesis
      proof (cases "parse raw")
        case (Inl e)
        with 1 Some Cons.IH(1) [of ex] none fresh h show ?thesis by auto
      next
        case (Inr records)
        from 1 have "\<forall>r \<in> set rows. row_id r \<notin> fst ` set (put_at (row_id row) records ex)"
          by (simp add: set_put_at) (metis image_eqI)
        with 1 Some Inr Cons.IH(1) [of "put_at (row_id row) records ex"] fresh h show ?thesis
          by (auto split: option.split)
      qed
    qed
  next
    case 2
    show ?case
    proof (cases "e_redaction_flags (row_entry row)")
      case None
      with 2 Cons.IH(2) [of ex un] show ?thesis by (simp add: flags_parse_def)
    next
      case (Some raw)
      show ?thesis
      proof (cases "parse raw")
        case (Inl e)
        with 2 Some Cons.IH(2) [of ex] show ?thesis by (simp add: flags_parse_def)
      next
        case (Inr records)
        from 2 have "\<forall>r \<in> set rows. row_id r \<notin> fst ` set (put_at (row_id row) records ex)"
          by (simp add: set_put_at) (metis image_eqI)
        with 2 Some Inr Cons.IH(2) [of "put_at (row_id row) records ex" un] show ?thesis
          by (simp add: flags_parse_def)
      qed
    qed
  }
qed simp_all

lemma find_by_id: "distinct (map row_id rows) \<Longrightarrow> row \<in> set rows \<Longrightarrow> find (\<lambda>r. row_id r = row_id row) rows = Some row"
  by (induction rows) (auto simp: image_iff)

lemma diff_triples_mset:
  "mset (fst (diff_triples es rs)) = mset es - mset rs \<and> mset (snd (diff_triples es rs)) = mset rs - mset es"
proof (induction es rs rule: diff_triples.induct)
  case (2 e es rs)
  show ?case
  proof (cases "e \<in> set rs")
    case True
    then obtain R where "mset rs = add_mset e R" by (metis multi_member_split set_mset_mset)
    with 2 True show ?thesis by simp
  next
    case False
    with 2 show ?thesis by (auto simp: Let_def split: prod.splits)
  qed
qed simp

lemma diff_triples_empty: "diff_triples es rs = ([], []) \<longleftrightarrow> mset es = mset rs"
proof -
  have "mset es = mset rs \<longleftrightarrow> mset es - mset rs = {#} \<and> mset rs - mset es = {#}"
    by (metis Diff_eq_empty_iff_mset subset_mset.antisym subset_mset.order_refl)
  then show ?thesis
    using diff_triples_mset [of es rs] by (metis fst_conv mset_zero_iff prod.collapse snd_conv)
qed

lemma distinct_remdups_adj_sorted: "sorted xs \<Longrightarrow> distinct (remdups_adj xs)" for xs :: "int list"
  by (induction xs rule: remdups_adj.induct) auto

lemma all_ids_props: "distinct (all_ids st)" "set (all_ids st) = fst ` set (expected st) \<union> fst ` set (actual st)"
proof -
  have "distinct (remdups_adj (sort xs))" for xs :: "int list"
    by (rule distinct_remdups_adj_sorted) simp
  then show "distinct (all_ids st)" by (simp add: all_ids_def)
  show "set (all_ids st) = fst ` set (expected st) \<union> fst ` set (actual st)" by (simp add: all_ids_def)
qed

lemma state_diff_outside: "i \<notin> set (all_ids st) \<Longrightarrow> state_diff st i = ([], [])"
  by (simp add: state_diff_def all_ids_props get_or_default_Nil)

section \<open>Lemmas: what a statement does to the index\<close>

fun stmt_effect :: "int \<Rightarrow> redaction_triple multiset \<Rightarrow> repair_stmt \<Rightarrow> redaction_triple multiset" where
  "stmt_effect j M (DeleteOne i t) = (if i = j then M - {#t#} else M)"
| "stmt_effect j M (InsertOne i t) = (if i = j then add_mset t M else M)"

lemma insert_redaction_index:
  "index_of (insert_redaction d i t) j = (if i = j then add_mset t (index_of d j) else index_of d j)"
  by (auto simp: index_of_def insert_redaction_def)

lemma insert_redaction_keys: "index_keys_ok d \<Longrightarrow> index_keys_ok (insert_redaction d i t)"
  by (force simp: index_keys_ok_def insert_redaction_def)

lemma delete_by_key:
  assumes "distinct (map rr_id rs)" and "r \<in> set rs"
  shows "mset (filter (\<lambda>r'. rr_id r' \<noteq> rr_id r) rs) = mset rs - {#r#}"
  using assms
proof (induction rs)
  case (Cons a rs)
  show ?case
  proof (cases "r = a")
    case True
    then have "filter (\<lambda>r'. rr_id r' \<noteq> rr_id r) rs = rs"
      using Cons.prems by (auto simp: filter_id_conv image_iff)
    with True show ?thesis by simp
  next
    case False
    with Cons.prems have "rr_id a \<noteq> rr_id r" by (auto simp: image_iff)
    with False Cons show ?thesis by simp
  qed
qed simp

lemma delete_one_index:
  assumes "index_keys_ok d"
  shows "index_of (delete_one_redaction d i t) j = (if i = j then index_of d j - {#t#} else index_of d j)"
proof (cases "find (\<lambda>r. rr_tool_call_id r = i \<and> rr_triple r = t) (redactions_by_id d)")
  case None
  then have "t \<notin># index_of d i"
    by (auto simp: find_None_iff index_of_def redactions_by_id_def)
  with None show ?thesis by (auto simp: delete_one_redaction_def diff_single_trivial)
next
  case (Some r)
  then have r: "r \<in> set (redactions d)" "rr_tool_call_id r = i" "rr_triple r = t"
    using find_SomeD [OF Some] by (auto simp: redactions_by_id_def)
  then have "mset (redactions (delete_one_redaction d i t)) = mset (redactions d) - {#r#}"
    using Some assms by (simp add: delete_one_redaction_def delete_by_key index_keys_ok_def del: mset_filter)
  moreover obtain R where "mset (redactions d) = add_mset r R"
    using r(1) by (metis multi_member_split set_mset_mset)
  ultimately show ?thesis
    using r by (simp add: index_of_def)
qed

lemma delete_one_keys: "index_keys_ok d \<Longrightarrow> index_keys_ok (delete_one_redaction d i t)"
  by (auto simp: index_keys_ok_def delete_one_redaction_def distinct_map_filter split: option.split)

lemma exec_stmt_effect:
  "index_keys_ok d \<Longrightarrow> index_of (exec_stmt d s) j = stmt_effect j (index_of d j) s \<and> index_keys_ok (exec_stmt d s)"
  by (cases s) (simp_all add: insert_redaction_index delete_one_index insert_redaction_keys delete_one_keys)

text \<open>Nothing but the index and its counter differs.\<close>

definition only_index_changed :: "database \<Rightarrow> database \<Rightarrow> bool" where
  "only_index_changed d d' \<longleftrightarrow> d' = d\<lparr>redactions := redactions d', redactions_seq := redactions_seq d'\<rparr>"

lemma exec_stmt_only_index: "only_index_changed d (exec_stmt d s)"
  by (cases s) (auto simp: only_index_changed_def insert_redaction_def delete_one_redaction_def split: option.split)

lemma only_index_changed_trans:
  "only_index_changed a b \<Longrightarrow> only_index_changed b c \<Longrightarrow> only_index_changed a c"
  by (cases a; cases b; cases c) (simp add: only_index_changed_def)

lemma exec_stmts_effect:
  "exec_stmts d n ss = Inr d' \<Longrightarrow> index_keys_ok d \<Longrightarrow>
     index_of d' j = foldl (stmt_effect j) (index_of d j) ss \<and> index_keys_ok d' \<and> only_index_changed d d'"
proof (induction d n ss rule: exec_stmts.induct)
  case (1 d n)
  then show ?case by (simp add: only_index_changed_def)
next
  case (2 d n s ss)
  from 2(2) have "\<not> sql_fails d ''repair statement'' n" "exec_stmts (exec_stmt d s) (Suc n) ss = Inr d'"
    by (auto simp: and_then_Inr)
  with 2 exec_stmt_effect [OF 2(3), of s j] show ?case
    by (auto intro: only_index_changed_trans [OF exec_stmt_only_index])
qed

lemma foldl_deletes: "foldl (stmt_effect j) M (map (DeleteOne i) ts) = (if i = j then M - mset ts else M)"
  by (induction ts arbitrary: M) auto

lemma foldl_inserts: "foldl (stmt_effect j) M (map (InsertOne i) ts) = (if i = j then M + mset ts else M)"
  by (induction ts arbitrary: M) auto

lemma actions_effect:
  assumes "distinct ids" and calls: "\<And>i a. a \<in> set (act i) \<Longrightarrow> ra_call a = i"
  shows "foldl (stmt_effect j) M (concat (map (\<lambda>i. concat (map action_stmts (act i))) ids)) =
    (if j \<in> set ids then foldl (stmt_effect j) M (concat (map action_stmts (act j))) else M)"
proof -
  have other: "foldl (stmt_effect j) M (concat (map action_stmts as)) = M"
    if "\<forall>a \<in> set as. ra_call a \<noteq> j" for as M
    using that by (induction as arbitrary: M) (auto simp: action_stmts_def foldl_deletes foldl_inserts)
  show ?thesis
    using assms(1)
  proof (induction ids arbitrary: M)
    case (Cons i ids)
    then show ?case
      using other [of "act i"] calls by (cases "i = j") auto
  qed simp
qed

section \<open>Properties\<close>

definition call_keys_ok :: "database \<Rightarrow> bool" where
  "call_keys_ok d \<longleftrightarrow> distinct (map row_id (tool_calls d))"

lemma load_redaction_state_result:
  assumes "load_redaction_state parse d = Inr st" and "call_keys_ok d"
  shows "get_or_default (expected st) i =
      (case find (\<lambda>r. row_id r = i) (rows_by_id d) of Some r \<Rightarrow> hits parse r | None \<Rightarrow> [])"
    and "mset (get_or_default (actual st) i) = index_of d i"
    and "map drift_call (unparseable st) = map row_id (filter (\<lambda>r. \<not> flags_parse parse r) (rows_by_id d))"
    and "load_redaction_state parse d = Inr (st\<lparr>actual := load_actual (redactions_by_id d)\<rparr>)"
proof -
  have "distinct (map row_id (rows_by_id d))"
    using assms(2) by (simp add: call_keys_ok_def rows_by_id_def distinct_map)
  moreover obtain ex un where "load_expected parse (rows_by_id d) [] [] = (ex, un)" by fastforce
  moreover from this assms(1) have "st = \<lparr>expected = ex, actual = load_actual (redactions_by_id d), unparseable = un\<rparr>"
    by (auto simp: load_redaction_state_def and_then_Inr)
  ultimately show "get_or_default (expected st) i =
      (case find (\<lambda>r. row_id r = i) (rows_by_id d) of Some r \<Rightarrow> hits parse r | None \<Rightarrow> [])"
    "mset (get_or_default (actual st) i) = index_of d i"
    "map drift_call (unparseable st) = map row_id (filter (\<lambda>r. \<not> flags_parse parse r) (rows_by_id d))"
    "load_redaction_state parse d = Inr (st\<lparr>actual := load_actual (redactions_by_id d)\<rparr>)"
    using load_expected_acc [of "rows_by_id d" "[]" parse "[]" ex un] assms(1)
    by (auto simp: index_of_actual cong: option.case_cong)
qed

text \<open>What the index should hold for a call id.\<close>

definition recorded_hits :: "parse_flags \<Rightarrow> database \<Rightarrow> int \<Rightarrow> redaction_triple multiset" where
  "recorded_hits parse d i =
     (case find (\<lambda>r. row_id r = i) (rows_by_id d) of Some r \<Rightarrow> mset (hits parse r) | None \<Rightarrow> {#})"

lemma state_diff_empty_iff:
  assumes "load_redaction_state parse d = Inr st" and "call_keys_ok d"
  shows "state_diff st i = ([], []) \<longleftrightarrow> index_of d i = recorded_hits parse d i"
  using load_redaction_state_result(1,2) [OF assms, of i]
  by (auto simp: state_diff_def diff_triples_empty recorded_hits_def split: option.splits)

lemma sort_key_Nil_iff: "sort_key f xs = [] \<longleftrightarrow> xs = []"
  by (metis length_0_conv length_sort)

lemma redaction_check_iff_aux:
  assumes "load_redaction_state parse d = Inr st" and "call_keys_ok d"
  shows "check_redaction_consistency parse d = Inr [] \<longleftrightarrow>
    (\<forall>row \<in> set (tool_calls d). flags_parse parse row) \<and> (\<forall>i. index_of d i = recorded_hits parse d i)"
proof -
  have un: "unparseable st = [] \<longleftrightarrow> (\<forall>row \<in> set (tool_calls d). flags_parse parse row)"
    using load_redaction_state_result(3) [OF assms]
    by (metis (no_types, lifting) filter_empty_conv map_is_Nil_conv set_rows_by_id)
  have "(\<forall>i \<in> set (all_ids st). state_diff st i = ([], [])) \<longleftrightarrow> (\<forall>i. state_diff st i = ([], []))"
    using state_diff_outside by blast
  moreover have "concat (map (\<lambda>i. let (missing, extra) = state_diff st i in
      if missing \<noteq> [] \<or> extra \<noteq> [] then [\<lparr>drift_call = i, drift_detail = drift_text missing extra\<rparr>] else [])
      (all_ids st)) = [] \<longleftrightarrow> (\<forall>i \<in> set (all_ids st). state_diff st i = ([], []))"
    by (auto simp: Let_def split: prod.splits if_splits) (metis surj_pair)
  ultimately show ?thesis
    using un state_diff_empty_iff [OF assms]
    by (simp add: check_redaction_consistency_def assms(1) sort_key_Nil_iff del: concat_eq_Nil_conv)
qed

lemmas redaction_check_sound = redaction_check_iff_aux [THEN iffD1, THEN conjunct2]

text \<open>
  The consistency check is sound and complete: it reports nothing exactly if every row's
  flags parse and, for every call id, the index holds the recorded hits with their multiplicity.
\<close>

theorem redaction_check_iff:
  assumes "load_redaction_state parse d = Inr st" and "call_keys_ok d"
  shows "check_redaction_consistency parse d = Inr [] \<longleftrightarrow>
    (\<forall>row \<in> set (tool_calls d). flags_parse parse row) \<and> (\<forall>i. index_of d i = recorded_hits parse d i)"
  using redaction_check_iff_aux [OF assms] .

lemma plan_effect:
  assumes "plan_redaction_repair parse d = Inr plan" and "load_redaction_state parse d = Inr st"
    and "call_keys_ok d"
  shows "foldl (stmt_effect j) (index_of d j) (concat (map action_stmts (rp_actions plan))) = recorded_hits parse d j"
proof -
  define act where "act i = (let (missing, extra) = state_diff st i in
      if missing \<noteq> [] \<or> extra \<noteq> [] then [\<lparr>ra_call = i, ra_add = missing, ra_remove = extra\<rparr>] else [])" for i
  have "concat (map action_stmts (rp_actions plan)) = concat (map (\<lambda>i. concat (map action_stmts (act i))) (all_ids st))"
    using assms(1,2) by (auto simp: plan_redaction_repair_def concat_map_concat_map [symmetric] act_def)
  moreover have "ra_call a = i" if "a \<in> set (act i)" for i a
    using that by (auto simp: act_def Let_def split: prod.splits if_splits)
  ultimately have eff: "foldl (stmt_effect j) (index_of d j) (concat (map action_stmts (rp_actions plan))) =
      (if j \<in> set (all_ids st) then foldl (stmt_effect j) (index_of d j) (concat (map action_stmts (act j)))
       else index_of d j)"
    using actions_effect [OF all_ids_props(1), of act] by simp
  have recorded: "mset (get_or_default (expected st) j) = recorded_hits parse d j"
    using load_redaction_state_result(1) [OF assms(2,3), of j]
    by (simp add: recorded_hits_def split: option.splits)
  show ?thesis
  proof (cases "state_diff st j = ([], [])")
    case True
    then have "act j = []" by (simp add: act_def)
    with eff show ?thesis using state_diff_empty_iff [OF assms(2,3), of j] True by simp
  next
    case False
    then have j: "j \<in> set (all_ids st)" using state_diff_outside by blast
    obtain m e where me: "state_diff st j = (m, e)" by fastforce
    let ?E = "mset (get_or_default (expected st) j)" and ?A = "index_of d j"
    have "mset m = ?E - ?A" "mset e = ?A - ?E"
      using diff_triples_mset [of "get_or_default (expected st) j" "get_or_default (actual st) j"] me
        load_redaction_state_result(2) [OF assms(2,3), of j]
      by (simp_all add: state_diff_def)
    moreover have "?A - (?A - ?E) + (?E - ?A) = ?E"
      by (rule multiset_eqI) simp
    moreover have "act j = [\<lparr>ra_call = j, ra_add = m, ra_remove = e\<rparr>]"
      using me False by (auto simp: act_def)
    ultimately show ?thesis
      using eff j recorded by (simp add: action_stmts_def foldl_deletes foldl_inserts)
  qed
qed


text \<open>Concrete flags for the witnesses: one text that parses to one hit, every other text does not.\<close>

definition sample_hit :: redaction_triple where
  "sample_hit = (''aws_key'', ''critical'', ''abc'')"

definition sample_parse :: parse_flags where
  "sample_parse raw = (if raw = ''one'' then Inr [sample_hit] else Inl ''bad'')"

definition sample_row :: "int \<Rightarrow> string option \<Rightarrow> stored_row" where
  "sample_row i flags = \<lparr>row_id = i,
     row_entry = \<lparr>e_timestamp = ''t'', e_session_id = ''s'', e_agent_id = None, e_tool_name = ''echo'',
       e_server_name = None, e_args_json = None, e_result_json = None, e_status = ''success'',
       e_error_message = None, e_duration_ms = None, e_bytes_in = None, e_bytes_out = None,
       e_source = None, e_destination = None, e_redaction_flags = flags, e_redaction_count = 0,
       e_anomaly_score = None, e_anomaly_reasons = None\<rparr>,
     row_hash = ''h'', row_prev_hash = None\<rparr>"

definition drifted_db :: database where
  "drifted_db = empty_database\<lparr>tool_calls := [sample_row 1 (Some ''one''), sample_row 2 None], calls_seq := 2,
     redactions := [\<lparr>rr_id = 1, rr_tool_call_id = 2, rr_triple = sample_hit\<rparr>], redactions_seq := 1\<rparr>"

lemma drifted_db_ok: "index_keys_ok drifted_db" "call_keys_ok drifted_db"
  by (simp_all add: index_keys_ok_def call_keys_ok_def drifted_db_def empty_database_def sample_row_def)

lemma drifted_db_state:
  "load_redaction_state sample_parse drifted_db =
     Inr \<lparr>expected = [(1, [sample_hit])], actual = [(2, [sample_hit])], unparseable = []\<rparr>"
  by (simp add: load_redaction_state_def drifted_db_def empty_database_def sql_def rows_by_id_def
      sample_row_def sample_parse_def load_actual_def redactions_by_id_def push_at_def)

lemma drifted_db_plan:
  "plan_redaction_repair sample_parse drifted_db =
     Inr \<lparr>rp_actions = [\<lparr>ra_call = 1, ra_add = [sample_hit], ra_remove = []\<rparr>,
           \<lparr>ra_call = 2, ra_add = [], ra_remove = [sample_hit]\<rparr>], rp_unrepairable = []\<rparr>"
  by (simp add: plan_redaction_repair_def drifted_db_state all_ids_def state_diff_def get_or_default_def)

theorem redaction_check_iff_witness:
  "check_redaction_consistency sample_parse drifted_db \<noteq> Inr []"
  using redaction_check_iff [OF drifted_db_state drifted_db_ok(2)]
  by (auto simp: recorded_hits_def rows_by_id_def index_of_def drifted_db_def sample_row_def hits_def
      intro!: exI [of _ 2])


text \<open>
  A failed repair leaves the database as it was: there is no partial repair.
\<close>

theorem repair_all_or_nothing:
  "is_ok (fst (apply_redaction_repair parse d)) \<or> snd (apply_redaction_repair parse d) = d"
  by (auto simp: apply_redaction_repair_def split: sum.splits if_splits)

text \<open>
  A row whose flags do not parse counts as having no hits, so that the repair deletes its index
  rows, although the comment of \<open>RepairPlan\<close> says they are left untouched.
\<close>

definition unparseable_db :: database where
  "unparseable_db = empty_database\<lparr>tool_calls := [sample_row 1 (Some ''broken'')], calls_seq := 1,
     redactions := [\<lparr>rr_id = 1, rr_tool_call_id = 1, rr_triple = sample_hit\<rparr>], redactions_seq := 1\<rparr>"

theorem repair_empties_unparseable_rows:
  "index_of unparseable_db 1 = {#sample_hit#} \<and>
   index_of (snd (apply_redaction_repair sample_parse unparseable_db)) 1 = {#}"
proof -
  have st: "load_redaction_state sample_parse unparseable_db = Inr \<lparr>expected = [], actual = [(1, [sample_hit])],
      unparseable = [\<lparr>drift_call = 1, drift_detail = ''redaction_flags is not parseable JSON (bad); index cannot be verified''\<rparr>]\<rparr>"
    by (simp add: load_redaction_state_def unparseable_db_def empty_database_def sql_def rows_by_id_def
        sample_row_def sample_parse_def load_actual_def redactions_by_id_def push_at_def)
  show ?thesis
    by (simp add: apply_redaction_repair_def plan_redaction_repair_def st all_ids_def state_diff_def
        get_or_default_def action_stmts_def sql_def)
       (simp add: unparseable_db_def empty_database_def delete_one_redaction_def redactions_by_id_def index_of_def)
qed

end
