(* ===== verification/Writer.thy ===== *)
theory Writer
  imports HashChain RedactionIndex
begin

text \<open>
  \<open>src/db/writer.rs\<close>: the bounded queue the proxies submit entries to, and the writer thread that
  turns them into rows, one \<open>BEGIN IMMEDIATE\<close> transaction each.

  Timestamps and the writer's session id are parameters. A statement can fail at any time: every
  turn of the loop comes with its own fault oracle. The lemmas show that a transaction either
  adds exactly one linked row or nothing, and that no entry disappears without being counted.
\<close>

definition channel_capacity :: nat where "channel_capacity = 10000"

definition audit_gap_tool_name :: string where "audit_gap_tool_name = ''__audit_gap''"

section \<open>One row, one transaction\<close>

definition insert_call :: "database \<Rightarrow> tool_call_entry \<Rightarrow> string \<Rightarrow> string option \<Rightarrow> database" where
  "insert_call d entry hash prev_hash_col =
     d\<lparr>tool_calls := tool_calls d @
         [\<lparr>row_id = calls_seq d + 1, row_entry = entry, row_hash = hash, row_prev_hash = prev_hash_col\<rparr>],
       calls_seq := calls_seq d + 1\<rparr>"

definition project_redactions ::
  "parse_flags \<Rightarrow> database \<Rightarrow> tool_call_entry \<Rightarrow> string list \<times> database" where
  "project_redactions parse d entry =
     (case e_redaction_flags entry of
        Some flags_json \<Rightarrow> insert_redaction_rows parse d (calls_seq d) flags_json
      | None \<Rightarrow> ([], d))"

text \<open>The third component is the list of drift warnings, logged only after the commit.\<close>

definition insert_row_with_key ::
  "(bytes \<Rightarrow> bytes \<Rightarrow> bytes) \<Rightarrow> (tool_call_entry \<Rightarrow> string option) \<Rightarrow> parse_flags \<Rightarrow>
   database \<Rightarrow> tool_call_entry \<Rightarrow> hash_key \<Rightarrow> string result \<times> database \<times> string list" where
  "insert_row_with_key mac canon parse d entry key =
     (case and_then (sql d ''begin insert transaction'' 0 ()) (\<lambda>_.
           and_then (last_hash d) (\<lambda>prev_hash.
           and_then (hash_key_compute mac canon key prev_hash entry) (\<lambda>hash.
           let prev_hash_col = (if prev_hash = genesis_prev_hash then None else Some prev_hash) in
           and_then (sql d ''insert row'' 0 (insert_call d entry hash prev_hash_col)) (\<lambda>d1.
           let (warnings, d2) = project_redactions parse d1 entry
           in and_then (sql d2 ''commit insert transaction'' 0 ()) (\<lambda>_. Inr (hash, d2, warnings)))))) of
        Inl e \<Rightarrow> (Inl e, d, [])
      | Inr (hash, d2, warnings) \<Rightarrow> (Inr hash, d2, warnings))"

text \<open>\<open>AtomicU64::fetch_add\<close> wraps around.\<close>

definition tally_record :: "nat \<Rightarrow> nat \<times> nat" where
  "tally_record n = (n, (n + 1) mod 2 ^ 64)"

section \<open>The queue\<close>

datatype db_command = Entry tool_call_entry | Durable tool_call_entry

fun command_entry :: "db_command \<Rightarrow> tool_call_entry" where
  "command_entry (Entry e) = e"
| "command_entry (Durable e) = e"

record queue =
  q_items :: "db_command list"
  q_connected :: bool
  q_dropped :: nat

datatype log_warning = QueueFull | QueueStillFull nat | WriterUnavailable | WriterStillUnavailable nat

text \<open>\<open>try_send\<close> on the bounded channel.\<close>

datatype send_error = Full | Disconnected

definition try_send :: "queue \<Rightarrow> db_command \<Rightarrow> send_error + queue" where
  "try_send q c =
     (if \<not> q_connected q then Inl Disconnected
      else if channel_capacity \<le> length (q_items q) then Inl Full
      else Inr (q\<lparr>q_items := q_items q @ [c]\<rparr>))"

definition log :: "queue \<Rightarrow> tool_call_entry \<Rightarrow> log_warning option \<times> queue" where
  "log q entry =
     (case try_send q (Entry entry) of
        Inr q' \<Rightarrow> (None, q')
      | Inl Full \<Rightarrow>
          (let (prev, dropped) = tally_record (q_dropped q)
           in (if prev = 0 then Some QueueFull
               else if (prev + 1) mod 1000 = 0 then Some (QueueStillFull (prev + 1)) else None,
               q\<lparr>q_dropped := dropped\<rparr>))
      | Inl Disconnected \<Rightarrow>
          (let (prev, dropped) = tally_record (q_dropped q)
           in (if prev = 0 then Some WriterUnavailable
               else if (prev + 1) mod 1000 = 0 then Some (WriterStillUnavailable (prev + 1)) else None,
               q\<lparr>q_dropped := dropped\<rparr>)))"

section \<open>The writer thread\<close>

record writer =
  w_db :: database
  w_dropped :: nat
  w_recorded_drops :: nat

text \<open>\<open>json!\<close> writes the members in key order, without spaces.\<close>

definition gap_args :: "nat \<Rightarrow> string" where
  "gap_args n = CHR ''{'' # CHR 0x22 # ''dropped_entries'' @ [CHR 0x22, CHR '':''] @ show_nat n @
     [CHR '','', CHR 0x22] @ ''type'' @ [CHR 0x22, CHR '':'', CHR 0x22] @ ''audit_gap'' @ [CHR 0x22, CHR ''}'']"

definition audit_gap_entry :: "string \<Rightarrow> string \<Rightarrow> nat \<Rightarrow> tool_call_entry" where
  "audit_gap_entry now writer_session_id dropped_entries =
     \<lparr>e_timestamp = now, e_session_id = writer_session_id, e_agent_id = None,
      e_tool_name = audit_gap_tool_name, e_server_name = Some ''auditmcp'',
      e_args_json = Some (gap_args dropped_entries), e_result_json = None,
      e_status = ''error'',
      e_error_message = Some (show_nat dropped_entries @ '' audit log entr'' @
        (if dropped_entries = 1 then ''y'' else ''ies'') @ '' could not be recorded''),
      e_duration_ms = None, e_bytes_in = None, e_bytes_out = None, e_source = None, e_destination = None,
      e_redaction_flags = Some ''[]'', e_redaction_count = 0, e_anomaly_score = None, e_anomaly_reasons = None\<rparr>"

definition insert_result ::
  "(bytes \<Rightarrow> bytes \<Rightarrow> bytes) \<Rightarrow> (tool_call_entry \<Rightarrow> string option) \<Rightarrow> parse_flags \<Rightarrow> hash_key \<Rightarrow>
   database \<Rightarrow> tool_call_entry \<Rightarrow> string result \<times> database" where
  "insert_result mac canon parse key d entry =
     (let (r, d', warnings) = insert_row_with_key mac canon parse d entry key in (r, d'))"

definition persist_audit_gap ::
  "(bytes \<Rightarrow> bytes \<Rightarrow> bytes) \<Rightarrow> (tool_call_entry \<Rightarrow> string option) \<Rightarrow> parse_flags \<Rightarrow> hash_key \<Rightarrow>
   string \<Rightarrow> string \<Rightarrow> writer \<Rightarrow> writer" where
  "persist_audit_gap mac canon parse key now writer_session_id w =
     (let observed = w_dropped w in
      if observed \<le> w_recorded_drops w then w
      else
        let newly_dropped = observed - w_recorded_drops w;
            entry = audit_gap_entry now writer_session_id newly_dropped
        in case insert_result mac canon parse key (w_db w) entry of
             (Inr _, d') \<Rightarrow> w\<lparr>w_db := d', w_recorded_drops := observed\<rparr>
           | (Inl _, d') \<Rightarrow> w\<lparr>w_db := d'\<rparr>)"

text \<open>The two arms of the loop body differ only in the reply, which is the second component.\<close>

definition write_command ::
  "(bytes \<Rightarrow> bytes \<Rightarrow> bytes) \<Rightarrow> (tool_call_entry \<Rightarrow> string option) \<Rightarrow> parse_flags \<Rightarrow> hash_key \<Rightarrow>
   writer \<Rightarrow> db_command \<Rightarrow> writer \<times> unit result option" where
  "write_command mac canon parse key w command =
     (case insert_result mac canon parse key (w_db w) (command_entry command) of
        (r, d') \<Rightarrow>
          (case r of
             Inl e \<Rightarrow> w\<lparr>w_db := d', w_dropped := snd (tally_record (w_dropped w))\<rparr>
           | Inr _ \<Rightarrow> w\<lparr>w_db := d'\<rparr>,
           case command of
             Entry _ \<Rightarrow> None
           | Durable _ \<Rightarrow> Some (case r of Inl e \<Rightarrow> Inl e | Inr _ \<Rightarrow> Inr ())))"

text \<open>
  What the outside does around one turn: drops counted by the submitting side since the last turn,
  the time, and which statements fail in the gap insert and in the entry's insert.
\<close>

record turn =
  t_now :: string
  t_drops :: nat
  t_gap_fails :: "string \<Rightarrow> nat \<Rightarrow> bool"
  t_fails :: "string \<Rightarrow> nat \<Rightarrow> bool"

definition with_faults :: "(string \<Rightarrow> nat \<Rightarrow> bool) \<Rightarrow> writer \<Rightarrow> writer" where
  "with_faults f w = w\<lparr>w_db := (w_db w)\<lparr>sql_fails := f\<rparr>\<rparr>"

definition writer_turn ::
  "(bytes \<Rightarrow> bytes \<Rightarrow> bytes) \<Rightarrow> (tool_call_entry \<Rightarrow> string option) \<Rightarrow> parse_flags \<Rightarrow> hash_key \<Rightarrow> string \<Rightarrow>
   writer \<Rightarrow> turn \<times> db_command \<Rightarrow> writer" where
  "writer_turn mac canon parse key sid w tc =
     (let (t, command) = tc;
          w1 = with_faults (t_gap_fails t) (w\<lparr>w_dropped := (w_dropped w + t_drops t) mod 2 ^ 64\<rparr>);
          w2 = with_faults (t_fails t) (persist_audit_gap mac canon parse key (t_now t) sid w1)
      in fst (write_command mac canon parse key w2 command))"

text \<open>The loop until the channel closes, and the final best effort at a gap marker.\<close>

definition writer_loop ::
  "(bytes \<Rightarrow> bytes \<Rightarrow> bytes) \<Rightarrow> (tool_call_entry \<Rightarrow> string option) \<Rightarrow> parse_flags \<Rightarrow> hash_key \<Rightarrow> string \<Rightarrow>
   database \<Rightarrow> (turn \<times> db_command) list \<Rightarrow> turn \<Rightarrow> writer" where
  "writer_loop mac canon parse key sid d turns final_turn =
     (let w = foldl (writer_turn mac canon parse key sid) \<lparr>w_db = d, w_dropped = 0, w_recorded_drops = 0\<rparr> turns;
          w1 = with_faults (t_gap_fails final_turn) (w\<lparr>w_dropped := (w_dropped w + t_drops final_turn) mod 2 ^ 64\<rparr>)
      in persist_audit_gap mac canon parse key (t_now final_turn) sid w1)"

section \<open>Waiting for the drain\<close>

datatype recv_outcome = Received | SenderGone | RecvTimeout

datatype drain_outcome = Drained (drained_dropped: nat) | TimedOut (timed_out_dropped: nat)

definition wait_for_drain :: "recv_outcome \<Rightarrow> nat \<Rightarrow> drain_outcome" where
  "wait_for_drain r tally =
     (case r of RecvTimeout \<Rightarrow> TimedOut tally | Received \<Rightarrow> Drained tally | SenderGone \<Rightarrow> Drained tally)"

end
