(* ===== verification/WriterProps.thy ===== *)
theory WriterProps
  imports Writer Samples
begin

text \<open>
  What the writer promises: it only ever extends the chain by one well-linked row or leaves the
  database alone, and it accounts for every entry submitted.
\<close>

section \<open>One insert\<close>

text \<open>Rows in id order, the counter at the last id (or anywhere for an empty table).\<close>

definition ids_ok :: "database \<Rightarrow> bool" where
  "ids_ok d \<longleftrightarrow> sorted_wrt (<) (map row_id (tool_calls d)) \<and>
     (tool_calls d = [] \<or> row_id (last (tool_calls d)) = calls_seq d)"

definition chain_ok ::
  "(bytes \<Rightarrow> bytes \<Rightarrow> bytes) \<Rightarrow> (tool_call_entry \<Rightarrow> string option) \<Rightarrow> bytes \<Rightarrow> database \<Rightarrow> bool" where
  "chain_ok mac canon k d \<longleftrightarrow> ids_ok d \<and> chain_accepts mac canon k genesis_cursor (tool_calls d)"

lemma ids_ok_rows [simp]: "ids_ok d \<Longrightarrow> rows_by_id d = tool_calls d"
  by (auto simp: ids_ok_def intro!: rows_by_id_sorted strict_sorted_imp_sorted)

lemma ids_ok_le:
  assumes "ids_ok d"
  shows "\<forall>r \<in> set (tool_calls d). row_id r \<le> calls_seq d"
proof (cases "tool_calls d" rule: rev_cases)
  case (snoc rs r)
  with assms show ?thesis by (auto simp: ids_ok_def sorted_wrt_append)
qed simp

lemma insert_redaction_records_only_index:
  "only_index_changed d (snd (insert_redaction_records d n call rs))"
proof (induction d n call rs rule: insert_redaction_records.induct)
  case (2 d n call r rs)
  then show ?case
    using exec_stmt_only_index [of d "InsertOne call r"]
    by (auto simp: Let_def split: sum.split prod.split intro: only_index_changed_trans)
qed (simp add: only_index_changed_def)

lemma insert_redaction_rows_only_index: "only_index_changed d (snd (insert_redaction_rows parse d i flags))"
  using insert_redaction_records_only_index
  by (auto simp: insert_redaction_rows_def only_index_changed_def split: sum.split)

lemma only_index_changed_fields:
  assumes "only_index_changed d d'"
  shows "tool_calls d' = tool_calls d" "calls_seq d' = calls_seq d" "sql_fails d' = sql_fails d"
    "chain_metadata d' = chain_metadata d"
  using assms unfolding only_index_changed_def by (metis database.select_convs database.surjective database.update_convs)+

text \<open>The row a successful insert adds.\<close>

lemma project_redactions_only_index: "only_index_changed d (snd (project_redactions parse d entry))"
  using insert_redaction_rows_only_index
  by (simp add: project_redactions_def only_index_changed_def split: option.split)

lemma insert_row_result:
  assumes "insert_row_with_key mac canon parse d entry (Hmac k) = (Inr h, d', ws)"
  obtains t p d1 where "last_hash d = Inr p" and "canon entry = Some t" and "h = hex_encode (mac k (p @ t))"
    and "d1 = insert_call d entry h (if p = genesis_prev_hash then None else Some p)"
    and "project_redactions parse d1 entry = (ws, d')"
    and "only_index_changed d1 d'"
proof -
  obtain p t where r: "last_hash d = Inr p" "canon entry = Some t"
    using assms
    by (cases "last_hash d"; cases "canon entry")
       (auto simp: insert_row_with_key_def and_then_Inr compute_hash_hmac_def split: sum.splits)
  let ?h = "hex_encode (mac k (p @ t))"
  let ?d1 = "insert_call d entry ?h (if p = genesis_prev_hash then None else Some p)"
  have "h = ?h" "project_redactions parse ?d1 entry = (ws, d')"
    using assms r
    by (auto simp: insert_row_with_key_def and_then_Inr compute_hash_hmac_def Let_def case_prod_beta
        split: sum.splits intro: prod_eqI)
  then show ?thesis
    using that r project_redactions_only_index [of ?d1 parse entry] by simp
qed

lemma insert_row_fails:
  "insert_row_with_key mac canon parse d entry key = (Inl e, d', ws) \<Longrightarrow> d' = d \<and> ws = []"
  by (auto simp: insert_row_with_key_def split: sum.splits prod.splits)

lemma insert_row_extends:
  assumes "insert_row_with_key mac canon parse d entry (Hmac k) = (Inr h, d', ws)" and "ids_ok d"
  shows "\<exists>row. tool_calls d' = tool_calls d @ [row] \<and> row_entry row = entry \<and> row_hash row = h \<and>
    row_id row = calls_seq d + 1 \<and> stored_prev row = head_of row_hash genesis_prev_hash (tool_calls d) \<and>
    chain_digest mac k (stored_prev row) (canon entry) = h \<and> canon entry \<noteq> None \<and>
    calls_seq d' = calls_seq d + 1 \<and> sql_fails d' = sql_fails d \<and> ids_ok d'"
proof -
  from insert_row_result [OF assms(1)] obtain t p d1 where
    r: "last_hash d = Inr p" "canon entry = Some t" "h = hex_encode (mac k (p @ t))"
    "d1 = insert_call d entry h (if p = genesis_prev_hash then None else Some p)" "only_index_changed d1 d'"
    by metis
  note same = only_index_changed_fields [OF r(5)]
  have head: "head_of row_hash genesis_prev_hash (tool_calls d) = p"
    using last_hash_head [OF r(1)] assms(2) by simp
  note ids = ids_ok_le [OF assms(2)]
  let ?row = "\<lparr>row_id = calls_seq d + 1, row_entry = entry, row_hash = h,
    row_prev_hash = (if p = genesis_prev_hash then None else Some p)\<rparr>"
  have "tool_calls d' = tool_calls d @ [?row]" "calls_seq d' = calls_seq d + 1" "sql_fails d' = sql_fails d"
    using same r(4) by (simp_all add: insert_call_def)
  moreover from this have "ids_ok d'"
    using assms(2) ids by (fastforce simp: ids_ok_def sorted_wrt_append)
  ultimately show ?thesis
    using head r(2,3) by (intro exI [of _ ?row]) (auto simp: stored_prev_def chain_digest_def)
qed

lemma insert_row_chain_ok:
  assumes "insert_row_with_key mac canon parse d entry (Hmac k) = (r, d', ws)" and "chain_ok mac canon k d"
  shows "chain_ok mac canon k d'"
proof (cases r)
  case (Inl e)
  with insert_row_fails assms show ?thesis by metis
next
  case (Inr h)
  with insert_row_extends [of mac canon parse d entry k h d' ws] assms obtain row where
    row: "tool_calls d' = tool_calls d @ [row]" "row_entry row = entry" "row_hash row = h"
      "row_id row = calls_seq d + 1" "stored_prev row = head_of row_hash genesis_prev_hash (tool_calls d)"
      "chain_digest mac k (stored_prev row) (canon entry) = h" "canon entry \<noteq> None" "ids_ok d'"
    by (auto simp: chain_ok_def)
  have "row_follows canon (if tool_calls d = [] then genesis_cursor else row_cursor (last (tool_calls d))) row"
    using assms(2) row by (auto simp: row_follows_def id_gap_def genesis_cursor_def row_cursor_def chain_ok_def ids_ok_def)
  with assms(2) row show ?thesis
    by (simp add: chain_ok_def chain.walk_snoc) (simp add: genesis_cursor_def)
qed

text \<open>A fault-free reading of a database.\<close>

definition healthy :: "database \<Rightarrow> database" where
  "healthy d = d\<lparr>sql_fails := (\<lambda>_ _. False)\<rparr>"

lemma healthy_fields [simp]: "tool_calls (healthy d) = tool_calls d" "calls_seq (healthy d) = calls_seq d"
  "redactions (healthy d) = redactions d" "rows_by_id (healthy d) = rows_by_id d"
  "ids_ok (healthy d) = ids_ok d" "chain_ok mac canon k (healthy d) = chain_ok mac canon k d"
  by (simp_all add: healthy_def rows_by_id_def ids_ok_def chain_ok_def)

lemma verify_healthy:
  assumes "ids_ok d"
  shows "verify_chain_with_key mac canon (healthy d) (Hmac k) = Inr (Inr n) \<longleftrightarrow>
    chain_ok mac canon k d \<and> n = length (tool_calls d)"
  using assms
  by (auto simp: verify_chain_ok_iff chain_ok_def read_all_rows_def sql_def) (simp_all add: healthy_def)

text \<open>
  Appending keeps the chain: if a database verifies, then after a successful insert it
  verifies with one row more, the new row holds the entry under a fresh id, and the hash the
  insert returned is the new head.
\<close>

theorem insert_row_keeps_chain:
  assumes "verify_chain_with_key mac canon (healthy d) (Hmac k) = Inr (Inr n)" and "ids_ok d"
    and "insert_row_with_key mac canon parse d entry (Hmac k) = (Inr h, d', ws)"
  shows "verify_chain_with_key mac canon (healthy d') (Hmac k) = Inr (Inr (n + 1)) \<and>
    last_hash (healthy d') = Inr h \<and> ids_ok d' \<and>
    (\<exists>row. rows_by_id d' = rows_by_id d @ [row] \<and> row_entry row = entry \<and> row_id row = calls_seq d + 1)"
proof -
  obtain row where row: "tool_calls d' = tool_calls d @ [row]" "row_entry row = entry" "row_hash row = h"
    "row_id row = calls_seq d + 1" "ids_ok d'"
    using insert_row_extends [OF assms(3,2)] by blast
  have "chain_ok mac canon k d'"
    using insert_row_chain_ok [OF assms(3)] verify_healthy assms(1,2) by blast
  moreover have "last_hash (healthy d') = Inr h"
    using row by (simp add: last_hash_def sql_def) (simp add: healthy_def)
  ultimately show ?thesis
    using row assms(1,2) verify_healthy [OF row(5)] verify_healthy [OF assms(2)] by simp
qed

theorem insert_row_keeps_chain_witness:
  "\<exists>h d'. insert_row_with_key toy_mac toy_canon sample_parse (toy_db [''a'', ''b'']) sample_entry (Hmac toy_key) = (Inr h, d', [])
     \<and> verify_chain_with_key toy_mac toy_canon (healthy d') (Hmac toy_key) = Inr (Inr 3)"
proof -
  let ?d = "toy_db [''a'', ''b'']"
  have fine: "\<not> sql_fails ?d l i" for l i by (simp add: toy_db_def empty_database_def)
  obtain h d' where ins: "insert_row_with_key toy_mac toy_canon sample_parse ?d sample_entry (Hmac toy_key) = (Inr h, d', [])"
    using fine
    by (simp add: insert_row_with_key_def last_hash_def sql_def compute_hash_hmac_def toy_canon_def Let_def
        project_redactions_def sample_entry_def insert_call_def)
  have "ids_ok ?d"
    by (simp add: ids_ok_def) (simp add: toy_db_def empty_database_def Let_def)
  moreover have "verify_chain_with_key toy_mac toy_canon (healthy ?d) (Hmac toy_key) = Inr (Inr 2)"
    by (simp add: healthy_def toy_db_def empty_database_def) 
       (simp add: toy_db_verifies [of "[''a'', ''b'']", unfolded toy_db_def empty_database_def, simplified])
  ultimately show ?thesis using insert_row_keeps_chain [OF _ _ ins, of 2] ins by auto
qed

text \<open>
  A failed insert leaves the whole database as it was, whichever statement failed: no row, no
  index entry, no id used up, so the next entry chains to the same head.
\<close>

theorem insert_row_atomic:
  "is_ok (fst (insert_row_with_key mac canon parse d entry key)) \<or>
   snd (insert_row_with_key mac canon parse d entry key) = (d, [])"
  by (cases "insert_row_with_key mac canon parse d entry key"; cases "fst (insert_row_with_key mac canon parse d entry key)")
     (auto dest: insert_row_fails)

text \<open>
  Deleting the newest rows burns their ids: the chain alone cannot see the deletion, but the
  first row written afterwards leaves an id gap that is reported with its exact bounds.
\<close>

theorem truncation_leaves_id_gap:
  assumes "chain_ok mac canon k d" and "0 < m" and "m < length (tool_calls d)"
    and "insert_row_with_key mac canon parse (d\<lparr>tool_calls := take m (tool_calls d)\<rparr>) entry (Hmac k) = (Inr h, d', ws)"
  shows "verify_chain_with_key mac canon (healthy d') (Hmac k) =
    Inr (Inl (RowMissing (row_id (tool_calls d ! (m - 1))) (row_id (tool_calls d ! (m - 1)) + 1) (calls_seq d + 1)))"
proof -
  let ?xs = "take m (tool_calls d)" and ?dt = "d\<lparr>tool_calls := take m (tool_calls d)\<rparr>"
  from insert_row_result [OF assms(4)] obtain p d1 where
    d1: "d1 = insert_call ?dt entry h (if p = genesis_prev_hash then None else Some p)" and "only_index_changed d1 d'"
    by metis
  then obtain row where row: "tool_calls d' = ?xs @ [row]" "row_id row = calls_seq d + 1"
    by (auto simp: insert_call_def dest!: only_index_changed_fields(1))
  have ids: "sorted_wrt (<) (map row_id (tool_calls d))" and last: "row_id (last (tool_calls d)) = calls_seq d"
    and some: "tool_calls d \<noteq> []"
    using assms(1,3) by (auto simp: chain_ok_def ids_ok_def)
  have lt: "row_id (tool_calls d ! (m - 1)) < calls_seq d"
    using ids last some assms(2,3) sorted_wrt_nth_less [OF ids, of "m - 1" "length (tool_calls d) - 1"]
    by (simp add: last_conv_nth)
  have "\<forall>r \<in> set ?xs. row_id r < calls_seq d + 1"
    using assms(1) ids_ok_le by (fastforce simp: chain_ok_def dest: in_set_takeD)
  moreover have "sorted (map row_id ?xs)"
    using strict_sorted_imp_sorted [OF sorted_wrt_take [OF ids, of m]] by (simp add: take_map)
  ultimately have "sorted (map row_id (tool_calls d'))"
    using row by (auto simp: sorted_append)
  then have rows: "rows_by_id (healthy d') = ?xs @ [row]"
    using row by (simp add: rows_by_id_sorted)
  have pre: "chain_accepts mac canon k genesis_cursor ?xs"
    using assms(1) by (simp add: chain_ok_def chain.walk_take)
  have ne: "?xs \<noteq> []" using assms(2,3) by auto
  then have lst: "last ?xs = tool_calls d ! (m - 1)"
    using assms(2,3) by (simp add: last_conv_nth)
  have "id_gap (Some (row_id (last ?xs))) row =
      Some (RowMissing (row_id (last ?xs)) (row_id (last ?xs) + 1) (calls_seq d + 1))"
    using row(2) lt lst by (simp add: id_gap_def)
  moreover have "read_all_rows (healthy d') = Inr (?xs @ [row])"
    using rows by (simp add: read_all_rows_def sql_def) (simp add: healthy_def)
  ultimately show ?thesis
    using verify_rows_append [OF pre ne, of "[row]"] lst
    by (simp add: verify_chain_with_key_def genesis_cursor_def)
qed

lemma insert_redaction_records_index:
  "insert_redaction_records d n call rs = ([], d') \<Longrightarrow>
     index_of d' j = (if j = call then index_of d j + mset rs else index_of d j)"
proof (induction d n call rs rule: insert_redaction_records.induct)
  case (2 d n call r rs)
  then show ?case
    by (auto simp: Let_def insert_redaction_index split: sum.splits prod.splits)
qed simp

text \<open>
  When an insert succeeds without a drift warning and the index agreed with the flags of every
  call before, it still does: a row is committed with its complete projection.
\<close>

theorem insert_row_keeps_index:
  assumes "insert_row_with_key mac canon parse d entry (Hmac k) = (Inr h, d', [])" and "ids_ok d"
    and "\<forall>i. index_of d i = recorded_hits parse d i"
  shows "\<forall>i. index_of d' i = recorded_hits parse d' i"
proof -
  obtain row where row: "tool_calls d' = tool_calls d @ [row]" "row_entry row = entry"
    "row_id row = calls_seq d + 1" "ids_ok d'"
    using insert_row_extends [OF assms(1,2)] by blast
  from insert_row_result [OF assms(1)] obtain p d1 where
    d1: "d1 = insert_call d entry h (if p = genesis_prev_hash then None else Some p)"
    "project_redactions parse d1 entry = ([], d')"
    by metis
  have "sorted_wrt (<) (map row_id (tool_calls d @ [row]))"
    by (metis ids_ok_def row(1) row(4))
  then have fresh: "\<forall>r \<in> set (tool_calls d). row_id r \<noteq> calls_seq d + 1"
    using row(3) by (auto simp: sorted_wrt_append)
  have idx: "index_of d' j = (if j = calls_seq d + 1 then index_of d j + mset (hits parse row) else index_of d j)" for j
  proof (cases "e_redaction_flags entry")
    case None
    with d1 have "d' = d1" by (simp add: project_redactions_def)
    then have "redactions d' = redactions d" using d1(1) by (simp add: insert_call_def)
    with None row(2) show ?thesis by (simp add: hits_def index_of_def)
  next
    case (Some flags)
    then obtain recs where recs: "parse flags = Inr recs" "insert_redaction_records d1 0 (calls_seq d + 1) recs = ([], d')"
      using d1 by (cases "parse flags") (auto simp: project_redactions_def insert_redaction_rows_def insert_call_def)
    have "index_of d1 x = index_of d x" for x using d1 by (simp add: index_of_def insert_call_def)
    with insert_redaction_records_index [OF recs(2)] recs(1) Some row(2) show ?thesis
      by (simp add: hits_def)
  qed
  have "find (\<lambda>r. row_id r = i) (tool_calls d') =
      (if i = calls_seq d + 1 then Some row else find (\<lambda>r. row_id r = i) (tool_calls d))" for i
  proof (cases "i = calls_seq d + 1")
    case True
    then have "find (\<lambda>r. row_id r = i) (tool_calls d) = None" using fresh by (simp add: find_None_iff)
    with True row show ?thesis by (simp add: find_append)
  next
    case False
    with row show ?thesis by (simp add: find_append split: option.split)
  qed
  then have "recorded_hits parse d' i =
      (if i = calls_seq d + 1 then mset (hits parse row) else recorded_hits parse d i)" for i
    using row(4) assms(2) by (simp add: recorded_hits_def)
  moreover have "recorded_hits parse d (calls_seq d + 1) = {#}"
  proof -
    have "find (\<lambda>r. row_id r = calls_seq d + 1) (tool_calls d) = None"
      using fresh by (simp add: find_None_iff)
    with assms(2) show ?thesis by (simp add: recorded_hits_def)
  qed
  ultimately show ?thesis using idx assms(3) by simp
qed

theorem truncation_leaves_id_gap_witness:
  "\<exists>h d'. insert_row_with_key toy_mac toy_canon sample_parse
       ((toy_db [''a'', ''b'', ''c''])\<lparr>tool_calls := take 1 (tool_calls (toy_db [''a'', ''b'', ''c'']))\<rparr>)
       sample_entry (Hmac toy_key) = (Inr h, d', [])
     \<and> verify_chain_with_key toy_mac toy_canon (healthy d') (Hmac toy_key) = Inr (Inl (RowMissing 1 2 4))"
proof -
  let ?d = "toy_db [''a'', ''b'', ''c'']"
  let ?t = "?d\<lparr>tool_calls := take 1 (tool_calls ?d)\<rparr>"
  have fine: "\<not> sql_fails ?d l i" for l i by (simp add: toy_db_def empty_database_def)
  obtain h d' where ins: "insert_row_with_key toy_mac toy_canon sample_parse ?t sample_entry (Hmac toy_key) = (Inr h, d', [])"
    using fine
    by (simp add: insert_row_with_key_def last_hash_def sql_def compute_hash_hmac_def toy_canon_def Let_def
        project_redactions_def sample_entry_def insert_call_def)
  have "ids_ok ?d"
    by (simp add: ids_ok_def) (simp add: toy_db_def empty_database_def Let_def)
  moreover have "chain_accepts toy_mac toy_canon toy_key genesis_cursor (tool_calls ?d)"
    using toy_rows_accepted [of 1 genesis_cursor "[''a'', ''b'', ''c'']"]
    by (simp add: toy_db_def genesis_cursor_def)
  ultimately have ok: "chain_ok toy_mac toy_canon toy_key ?d" by (simp add: chain_ok_def)
  have "row_id (tool_calls ?d ! 0) = 1" "calls_seq ?d = 3" "length (tool_calls ?d) = 3"
    by (simp_all add: toy_db_def Let_def)
  with truncation_leaves_id_gap [OF ok, of 1, OF _ _ ins] ins show ?thesis by auto
qed

theorem insert_row_keeps_index_witness:
  "\<exists>h d'. insert_row_with_key toy_mac toy_canon sample_parse (toy_db [])
       (sample_entry\<lparr>e_redaction_flags := Some ''one''\<rparr>) (Hmac toy_key) = (Inr h, d', [])
     \<and> (\<forall>i. index_of d' i = recorded_hits sample_parse d' i)"
proof -
  have fine: "\<not> sql_fails (toy_db []) l i" for l i by (simp add: toy_db_def empty_database_def)
  obtain h d' where ins: "insert_row_with_key toy_mac toy_canon sample_parse (toy_db [])
       (sample_entry\<lparr>e_redaction_flags := Some ''one''\<rparr>) (Hmac toy_key) = (Inr h, d', [])"
    using fine
    by (simp add: insert_row_with_key_def last_hash_def sql_def compute_hash_hmac_def toy_canon_def Let_def
        project_redactions_def sample_entry_def insert_call_def insert_redaction_rows_def sample_parse_def
        insert_redaction_def)
  have "ids_ok (toy_db [])" "\<forall>i. index_of (toy_db []) i = recorded_hits sample_parse (toy_db []) i"
    by (simp_all add: ids_ok_def index_of_def recorded_hits_def rows_by_id_def toy_db_def empty_database_def)
  with insert_row_keeps_index [OF ins] ins show ?thesis by blast
qed

section \<open>The whole writer thread\<close>

text \<open>What the thread wrote: entries that were submitted, and gap markers for a number of drops.\<close>

datatype written = Call tool_call_entry | Gap string nat

fun written_entry :: "string \<Rightarrow> written \<Rightarrow> tool_call_entry" where
  "written_entry sid (Call e) = e"
| "written_entry sid (Gap now n) = audit_gap_entry now sid n"

fun calls_of :: "written list \<Rightarrow> tool_call_entry list" where
  "calls_of [] = []"
| "calls_of (Call e # ws) = e # calls_of ws"
| "calls_of (Gap now n # ws) = calls_of ws"

fun gap_total :: "written list \<Rightarrow> nat" where
  "gap_total [] = 0"
| "gap_total (Call e # ws) = gap_total ws"
| "gap_total (Gap now n # ws) = n + gap_total ws"

lemma calls_of_append [simp]: "calls_of (xs @ ys) = calls_of xs @ calls_of ys"
  by (induction xs rule: calls_of.induct) auto

lemma gap_total_append [simp]: "gap_total (xs @ ys) = gap_total xs + gap_total ys"
  by (induction xs rule: gap_total.induct) auto

text \<open>
  The books: the rows added are the written ones, the calls among them come from the commands in
  order, the markers add up to the drops already recorded, and submitted entries plus outside
  drops equal stored calls plus counted drops.
\<close>

definition books ::
  "string \<Rightarrow> tool_call_entry list \<Rightarrow> tool_call_entry list \<Rightarrow> nat \<Rightarrow> writer \<Rightarrow> written list \<Rightarrow> bool" where
  "books sid old cmds outside w ws \<longleftrightarrow>
     map row_entry (tool_calls (w_db w)) = old @ map (written_entry sid) ws \<and>
     subseq (calls_of ws) cmds \<and> gap_total ws = w_recorded_drops w \<and> w_recorded_drops w \<le> w_dropped w \<and>
     length cmds + outside = length (calls_of ws) + w_dropped w"

lemma books_with_faults [conserve]: "books sid old cmds outside (with_faults f w) ws = books sid old cmds outside w ws"
  by (simp add: books_def with_faults_def)

lemma insert_result_rows:
  assumes "insert_result mac canon parse (Hmac k) d entry = (r, d')"
  shows "map row_entry (tool_calls d') = map row_entry (tool_calls d) @ (if is_ok r then [entry] else [])"
proof (cases r)
  case (Inl e)
  with assms insert_row_fails [of mac canon parse d entry "Hmac k" e d'] show ?thesis
    by (auto simp: insert_result_def split: prod.splits)
next
  case (Inr h)
  then obtain ws where "insert_row_with_key mac canon parse d entry (Hmac k) = (Inr h, d', ws)"
    using assms by (auto simp: insert_result_def split: prod.splits)
  from insert_row_result [OF this] obtain p d1 where
    "d1 = insert_call d entry h (if p = genesis_prev_hash then None else Some p)" "only_index_changed d1 d'"
    by metis
  with Inr show ?thesis by (auto simp: insert_call_def dest!: only_index_changed_fields(1))
qed

lemma persist_audit_gap_books:
  assumes "books sid old cmds outside w ws"
  shows "\<exists>ws'. books sid old cmds outside (persist_audit_gap mac canon parse (Hmac k) now sid w) ws'"
proof (cases "w_dropped w \<le> w_recorded_drops w")
  case True
  with assms show ?thesis by (auto simp: persist_audit_gap_def)
next
  case False
  let ?n = "w_dropped w - w_recorded_drops w"
  obtain r d' where ins: "insert_result mac canon parse (Hmac k) (w_db w) (audit_gap_entry now sid ?n) = (r, d')"
    by fastforce
  note rows = insert_result_rows [OF ins]
  show ?thesis
  proof (cases r)
    case (Inl e)
    with False ins rows assms show ?thesis
      by (intro exI [of _ ws]) (simp add: persist_audit_gap_def books_def Let_def)
  next
    case (Inr h)
    with False ins rows assms show ?thesis
      by (intro exI [of _ "ws @ [Gap now ?n]"]) (simp add: persist_audit_gap_def books_def Let_def)
  qed
qed

lemma write_command_books:
  assumes "books sid old cmds outside w ws" and "length cmds + outside < 2 ^ 64 - 1"
  shows "\<exists>ws'. books sid old (cmds @ [command_entry c]) outside (fst (write_command mac canon parse (Hmac k) w c)) ws'"
proof -
  obtain r d' where ins: "insert_result mac canon parse (Hmac k) (w_db w) (command_entry c) = (r, d')"
    by fastforce
  note rows = insert_result_rows [OF ins]
  have room: "w_dropped w + 1 < 2 ^ 64" using assms by (auto simp: books_def)
  show ?thesis
  proof (cases r)
    case (Inl e)
    with ins rows assms room show ?thesis
      by (intro exI [of _ ws]) (auto simp: write_command_def books_def tally_record_def intro: list_emb_append2)
  next
    case (Inr h)
    with ins rows assms show ?thesis
      by (intro exI [of _ "ws @ [Call (command_entry c)]"])
         (auto simp: write_command_def books_def intro: list_emb_append_mono)
  qed
qed

lemma books_outside:
  assumes "books sid old cmds outside w ws" and "length cmds + outside + n < 2 ^ 64"
  shows "books sid old cmds (outside + n) (w\<lparr>w_dropped := (w_dropped w + n) mod 2 ^ 64\<rparr>) ws"
proof -
  have "w_dropped w + n < 2 ^ 64" using assms by (auto simp: books_def)
  with assms(1) show ?thesis by (auto simp: books_def)
qed

lemma writer_turn_books:
  assumes "books sid old cmds outside w ws" and "length cmds + outside + t_drops t < 2 ^ 64 - 1"
  shows "\<exists>ws'. books sid old (cmds @ [command_entry c]) (outside + t_drops t)
    (writer_turn mac canon parse (Hmac k) sid w (t, c)) ws'"
proof -
  let ?w = "w\<lparr>w_dropped := (w_dropped w + t_drops t) mod 2 ^ 64\<rparr>"
  have "books sid old cmds (outside + t_drops t) (with_faults (t_gap_fails t) ?w) ws"
    using books_outside [OF assms(1)] assms(2) by (simp add: conserve)
  from persist_audit_gap_books [OF this] obtain ws' where
    "books sid old cmds (outside + t_drops t)
      (with_faults (t_fails t) (persist_audit_gap mac canon parse (Hmac k) (t_now t) sid (with_faults (t_gap_fails t) ?w))) ws'"
    unfolding books_with_faults by blast
  from write_command_books [OF this] show ?thesis
    using assms(2) by (simp add: writer_turn_def Let_def)
qed

lemma writer_turns_books:
  assumes "books sid old cmds outside w ws"
    and "length cmds + outside + (\<Sum>(t, c) \<leftarrow> turns. t_drops t) + length turns < 2 ^ 64"
  shows "\<exists>ws'. books sid old (cmds @ map (command_entry \<circ> snd) turns) (outside + (\<Sum>(t, c) \<leftarrow> turns. t_drops t))
    (foldl (writer_turn mac canon parse (Hmac k) sid) w turns) ws'"
  using assms
proof (induction turns arbitrary: cmds outside w ws)
  case (Cons tc turns)
  obtain t c where tc: "tc = (t, c)" by (cases tc)
  have "length cmds + outside + t_drops t < 2 ^ 64 - 1" using Cons.prems(2) by (simp add: tc)
  from writer_turn_books [OF Cons.prems(1) this] obtain ws' where
    "books sid old (cmds @ [command_entry c]) (outside + t_drops t) (writer_turn mac canon parse (Hmac k) sid w (t, c)) ws'"
    by blast
  from Cons.IH [OF this] Cons.prems(2) show ?case by (simp add: tc algebra_simps)
qed auto

text \<open>
  C4. No silent loss: whatever fails and whenever, the rows the writer thread adds are submitted
  entries, in the order submitted, and gap markers; every submitted entry is a stored row or in
  the drop count, and the markers add up to the drops already recorded, which is all of them if
  the last marker could be written.
\<close>

theorem writer_loop_conserves:
  assumes "length turns + (\<Sum>(t, c) \<leftarrow> turns. t_drops t) + t_drops fin < 2 ^ 64"
    and "w = writer_loop mac canon parse (Hmac k) sid d turns fin"
  shows "\<exists>ws. map row_entry (tool_calls (w_db w)) = map row_entry (tool_calls d) @ map (written_entry sid) ws \<and>
    subseq (calls_of ws) (map (command_entry \<circ> snd) turns) \<and>
    length turns + (\<Sum>(t, c) \<leftarrow> turns. t_drops t) + t_drops fin = length (calls_of ws) + w_dropped w \<and>
    gap_total ws = w_recorded_drops w \<and> w_recorded_drops w \<le> w_dropped w"
proof -
  let ?w0 = "\<lparr>w_db = d, w_dropped = 0, w_recorded_drops = 0\<rparr>"
  let ?old = "map row_entry (tool_calls d)"
  let ?cmds = "map (command_entry \<circ> snd) turns"
  let ?out = "\<Sum>(t, c) \<leftarrow> turns. t_drops t"
  have "books sid ?old [] 0 ?w0 []" by (simp add: books_def)
  from writer_turns_books [OF this, where turns = turns and mac = mac and canon = canon and parse = parse and k = k]
  obtain ws where "books sid ?old ?cmds ?out (foldl (writer_turn mac canon parse (Hmac k) sid) ?w0 turns) ws"
    using assms(1) by auto
  from books_outside [OF this, of "t_drops fin"] assms(1)
  have "books sid ?old ?cmds (?out + t_drops fin)
      (with_faults (t_gap_fails fin)
        ((foldl (writer_turn mac canon parse (Hmac k) sid) ?w0 turns)
           \<lparr>w_dropped := (w_dropped (foldl (writer_turn mac canon parse (Hmac k) sid) ?w0 turns) + t_drops fin) mod 2 ^ 64\<rparr>)) ws"
    by (simp add: conserve)
  from persist_audit_gap_books [OF this, where now = "t_now fin" and mac = mac and canon = canon and parse = parse and k = k]
  obtain ws' where "books sid ?old ?cmds (?out + t_drops fin) w ws'"
    using assms(2) by (auto simp: writer_loop_def Let_def)
  then show ?thesis by (intro exI [of _ ws']) (simp add: books_def)
qed

text \<open>The faults of the sample run: the first turn loses its entry, everything else works.\<close>

definition sample_turns :: "(turn \<times> db_command) list" where
  "sample_turns =
     [(\<lparr>t_now = ''t1'', t_drops = 0, t_gap_fails = (\<lambda>_ _. False), t_fails = (\<lambda>l _. l = ''insert row'')\<rparr>, Entry sample_entry),
      (\<lparr>t_now = ''t2'', t_drops = 2, t_gap_fails = (\<lambda>_ _. False), t_fails = (\<lambda>_ _. False)\<rparr>, Durable sample_entry)]"

definition sample_final :: turn where
  "sample_final = \<lparr>t_now = ''t3'', t_drops = 0, t_gap_fails = (\<lambda>_ _. False), t_fails = (\<lambda>_ _. False)\<rparr>"

theorem writer_loop_conserves_witness:
  "\<exists>ws. length (calls_of ws) + w_dropped (writer_loop toy_mac toy_canon sample_parse (Hmac toy_key) ''writer:1''
     (toy_db []) sample_turns sample_final) = 4"
proof -
  have "length sample_turns = 2" "(\<Sum>(t, c) \<leftarrow> sample_turns. t_drops t) = 2" "t_drops sample_final = 0"
    by (simp_all add: sample_turns_def sample_final_def)
  then show ?thesis
    using writer_loop_conserves [OF _ refl, where turns = sample_turns and fin = sample_final and d = "toy_db []"
      and mac = toy_mac and canon = toy_canon and parse = sample_parse and k = toy_key and sid = "''writer:1''"]
    by force
qed

lemma insert_result_chain_ok:
  "insert_result mac canon parse (Hmac k) d entry = (r, d') \<Longrightarrow> chain_ok mac canon k d \<Longrightarrow> chain_ok mac canon k d'"
  using insert_row_chain_ok by (fastforce simp: insert_result_def split: prod.splits)

lemma chain_ok_faults: "chain_ok mac canon k (d\<lparr>sql_fails := f\<rparr>) = chain_ok mac canon k d"
  by (simp add: chain_ok_def ids_ok_def)

lemma persist_audit_gap_chain_ok:
  "chain_ok mac canon k (w_db w) \<Longrightarrow> chain_ok mac canon k (w_db (persist_audit_gap mac canon parse (Hmac k) now sid w))"
  using insert_result_chain_ok
  by (fastforce simp: persist_audit_gap_def Let_def split: prod.splits sum.splits)

lemma writer_turn_chain_ok:
  assumes "chain_ok mac canon k (w_db w)"
  shows "chain_ok mac canon k (w_db (writer_turn mac canon parse (Hmac k) sid w tc))"
proof -
  obtain t c where tc: "tc = (t, c)" by (cases tc)
  have wr: "chain_ok mac canon k (w_db v) \<Longrightarrow> chain_ok mac canon k (w_db (fst (write_command mac canon parse (Hmac k) v c)))" for v
    using insert_result_chain_ok by (fastforce simp: write_command_def split: prod.splits sum.splits)
  show ?thesis
    using assms by (simp add: tc writer_turn_def Let_def with_faults_def chain_ok_faults wr persist_audit_gap_chain_ok)
qed

text \<open>
  Whatever fails while the writer runs, the chain it leaves behind verifies, rows before the
  run included: faults can cost rows, never the chain.
\<close>

theorem writer_loop_keeps_chain:
  assumes "verify_chain_with_key mac canon (healthy d) (Hmac k) = Inr (Inr n)" and "ids_ok d"
  shows "\<exists>m \<ge> n. verify_chain_with_key mac canon
    (healthy (w_db (writer_loop mac canon parse (Hmac k) sid d turns fin))) (Hmac k) = Inr (Inr m)"
proof -
  let ?w = "writer_loop mac canon parse (Hmac k) sid d turns fin"
  have "chain_ok mac canon k d" "n = length (tool_calls d)" using verify_healthy assms by blast+
  have "chain_ok mac canon k (w_db w) \<Longrightarrow> chain_ok mac canon k (w_db (foldl (writer_turn mac canon parse (Hmac k) sid) w turns))" for w
    by (induction turns arbitrary: w) (simp_all add: writer_turn_chain_ok)
  then have ok: "chain_ok mac canon k (w_db ?w)"
    using \<open>chain_ok mac canon k d\<close>
    by (simp add: writer_loop_def Let_def with_faults_def chain_ok_faults persist_audit_gap_chain_ok)
  have grow: "length (tool_calls d) \<le> length (tool_calls d')"
    if "insert_result mac canon parse (Hmac k) d entry = (r, d')" for d entry r d'
    using insert_result_rows [OF that] by (metis length_append length_map le_add1)
  have gap: "length (tool_calls (w_db w)) \<le> length (tool_calls (w_db (persist_audit_gap mac canon parse (Hmac k) now sid w)))" for now w
    using grow by (fastforce simp: persist_audit_gap_def Let_def split: prod.splits sum.splits)
  have one_turn: "length (tool_calls (w_db w)) \<le> length (tool_calls (w_db (writer_turn mac canon parse (Hmac k) sid w tc)))" for w tc
  proof -
    obtain t c where tc: "tc = (t, c)" by (cases tc)
    have wr: "length (tool_calls (w_db v)) \<le> length (tool_calls (w_db (fst (write_command mac canon parse (Hmac k) v c))))" for v
      using grow by (fastforce simp: write_command_def split: prod.splits sum.splits)
    have same: "tool_calls (w_db (with_faults f v)) = tool_calls (w_db v)" for f v by (simp add: with_faults_def)
    let ?w = "with_faults (t_gap_fails t) (w\<lparr>w_dropped := (w_dropped w + t_drops t) mod 2 ^ 64\<rparr>)"
    let ?v = "with_faults (t_fails t) (persist_audit_gap mac canon parse (Hmac k) (t_now t) sid ?w)"
    show ?thesis
      using order_trans [OF gap [of ?w "t_now t"] wr [of ?v, unfolded same]] by (simp add: tc writer_turn_def Let_def same)
  qed
  have many: "length (tool_calls (w_db w)) \<le> length (tool_calls (w_db (foldl (writer_turn mac canon parse (Hmac k) sid) w turns)))" for w
    by (induction turns arbitrary: w) (auto intro: order_trans [OF one_turn])
  let ?w1 = "foldl (writer_turn mac canon parse (Hmac k) sid) \<lparr>w_db = d, w_dropped = 0, w_recorded_drops = 0\<rparr> turns"
  let ?w2 = "with_faults (t_gap_fails fin) (?w1\<lparr>w_dropped := (w_dropped ?w1 + t_drops fin) mod 2 ^ 64\<rparr>)"
  have "tool_calls (w_db ?w2) = tool_calls (w_db ?w1)" by (simp add: with_faults_def)
  then have "n \<le> length (tool_calls (w_db ?w))"
    using gap [of ?w2 "t_now fin"] many [of "\<lparr>w_db = d, w_dropped = 0, w_recorded_drops = 0\<rparr>"] \<open>n = length (tool_calls d)\<close>
    by (simp add: writer_loop_def Let_def)
  moreover have "ids_ok (w_db ?w)" using ok by (simp add: chain_ok_def)
  ultimately show ?thesis using ok verify_healthy by blast
qed

theorem writer_loop_keeps_chain_witness:
  "\<exists>m \<ge> 1. verify_chain_with_key toy_mac toy_canon
    (healthy (w_db (writer_loop toy_mac toy_canon sample_parse (Hmac toy_key) ''writer:1'' (toy_db [''a'']) sample_turns sample_final)))
    (Hmac toy_key) = Inr (Inr m)"
proof (rule writer_loop_keeps_chain)
  show "ids_ok (toy_db [''a''])"
    by (simp add: ids_ok_def) (simp add: toy_db_def empty_database_def Let_def)
  then show "verify_chain_with_key toy_mac toy_canon (healthy (toy_db [''a''])) (Hmac toy_key) = Inr (Inr 1)"
    using toy_rows_accepted [of 1 genesis_cursor "[''a'']"]
    by (simp add: verify_healthy chain_ok_def) (simp add: toy_db_def genesis_cursor_def)
qed

end
