(* ===== verification/Utf8.thy ===== *)
theory Utf8
  imports Prelude
begin

text \<open>
  \<open>String::from_utf8_lossy\<close> and the validity check behind \<open>read_to_string\<close> and
  \<open>str::from_utf8\<close>, as the standard library documents them: a maximal invalid prefix of a
  character becomes one replacement character.
\<close>

definition in_range :: "nat \<Rightarrow> nat \<Rightarrow> char \<Rightarrow> bool" where
  "in_range a b c \<longleftrightarrow> a \<le> of_char c \<and> (of_char c :: nat) \<le> b"

definition is_cont :: "char \<Rightarrow> bool" where
  "is_cont c \<longleftrightarrow> in_range 128 191 c"

text \<open>Whether the second byte fits the first one of a character of three or four bytes.\<close>

definition second_of_3 :: "char \<Rightarrow> char \<Rightarrow> bool" where
  "second_of_3 b c \<longleftrightarrow>
     (if in_range 224 224 b then in_range 160 191 c
      else if in_range 237 237 b then in_range 128 159 c
      else is_cont c)"

definition second_of_4 :: "char \<Rightarrow> char \<Rightarrow> bool" where
  "second_of_4 b c \<longleftrightarrow>
     (if in_range 240 240 b then in_range 144 191 c
      else if in_range 244 244 b then in_range 128 143 c
      else is_cont c)"

text \<open>How many of the first bytes satisfy a list of tests, one byte per test.\<close>

fun matching :: "(char \<Rightarrow> bool) list \<Rightarrow> string \<Rightarrow> nat" where
  "matching (t # ts) (c # s) = (if t c then Suc (matching ts s) else 0)"
| "matching _ _ = 0"

text \<open>The first character: whether it is valid, and how many bytes it or its invalid prefix has.\<close>

fun utf8_step :: "string \<Rightarrow> bool \<times> nat" where
  "utf8_step [] = (True, 0)"
| "utf8_step (b # s) =
     (let tests =
        (if in_range 0 127 b then Some []
         else if in_range 194 223 b then Some [is_cont]
         else if in_range 224 239 b then Some [second_of_3 b, is_cont]
         else if in_range 240 244 b then Some [second_of_4 b, is_cont, is_cont]
         else None)
      in case tests of
           None \<Rightarrow> (False, 1)
         | Some ts \<Rightarrow> (matching ts s = length ts, Suc (matching ts s)))"

lemma utf8_step_pos: "s \<noteq> [] \<Longrightarrow> 0 < snd (utf8_step s)"
  by (cases s) (auto simp: Let_def split: option.split)

definition replacement_char :: string where
  "replacement_char = [CHR 0xEF, CHR 0xBF, CHR 0xBD]"

function utf8_lossy :: "string \<Rightarrow> string" where
  "utf8_lossy s =
     (if s = [] then []
      else (if fst (utf8_step s) then take (snd (utf8_step s)) s else replacement_char)
        @ utf8_lossy (drop (snd (utf8_step s)) s))"
  by auto
termination
  by (relation "measure length") (auto simp: utf8_step_pos)

function utf8_valid :: "string \<Rightarrow> bool" where
  "utf8_valid s = (if s = [] then True else fst (utf8_step s) \<and> utf8_valid (drop (snd (utf8_step s)) s))"
  by auto
termination
  by (relation "measure length") (auto simp: utf8_step_pos)

declare utf8_lossy.simps [simp del] utf8_valid.simps [simp del]

definition ascii :: "string \<Rightarrow> bool" where
  "ascii s \<longleftrightarrow> list_all (in_range 0 127) s"

lemma ascii_simps [simp]: "ascii []" "ascii (c # s) \<longleftrightarrow> in_range 0 127 c \<and> ascii s"
  "ascii (s @ t) \<longleftrightarrow> ascii s \<and> ascii t"
  by (simp_all add: ascii_def)

lemma utf8_lossy_valid: "utf8_valid s \<Longrightarrow> utf8_lossy s = s"
proof (induction s rule: utf8_lossy.induct)
  case (1 s)
  then show ?case
    by (cases "s = []") (subst utf8_lossy.simps, subst (asm) (2) utf8_valid.simps, simp)+
qed

lemma utf8_valid_ascii: "ascii s \<Longrightarrow> utf8_valid s"
  by (induction s) (subst utf8_valid.simps, simp)+

lemma ascii_drop [simp]: "ascii s \<Longrightarrow> ascii (drop n s)"
  by (metis append_take_drop_id ascii_simps(3))

lemma utf8_lossy_ascii [simp]: "ascii s \<Longrightarrow> utf8_lossy s = s"
  by (simp add: utf8_lossy_valid utf8_valid_ascii)

section \<open>Characters\<close>

text \<open>\<open>str::chars\<close>, each character as its bytes.\<close>

function chars :: "string \<Rightarrow> string list" where
  "chars [] = []"
| "chars (c # s) = (c # takeWhile is_cont s) # chars (dropWhile is_cont s)"
  by pat_completeness auto
termination
  by (relation "measure length") (auto simp: length_dropWhile_le less_Suc_eq_le)

text \<open>\<open>char::is_whitespace\<close>, all of Unicode.\<close>

definition char_is_whitespace :: "string \<Rightarrow> bool" where
  "char_is_whitespace c \<longleftrightarrow>
     (case c of [b] \<Rightarrow> is_space b | _ \<Rightarrow> False) \<or>
     c \<in> set [[CHR 0xC2, CHR 0x85], [CHR 0xC2, CHR 0xA0], [CHR 0xE1, CHR 0x9A, CHR 0x80],
       [CHR 0xE2, CHR 0x80, CHR 0xA8], [CHR 0xE2, CHR 0x80, CHR 0xA9], [CHR 0xE2, CHR 0x80, CHR 0xAF],
       [CHR 0xE2, CHR 0x81, CHR 0x9F], [CHR 0xE3, CHR 0x80, CHR 0x80]] \<or>
     c \<in> set (map (\<lambda>n. [CHR 0xE2, CHR 0x80, char_of (128 + n)]) [0..<11])"

text \<open>\<open>trim().is_empty()\<close>.\<close>

definition blank_text :: "string \<Rightarrow> bool" where
  "blank_text s \<longleftrightarrow> list_all char_is_whitespace (chars s)"

text \<open>\<open>str::trim\<close>.\<close>

definition str_trim :: "string \<Rightarrow> string" where
  "str_trim s = concat (rev (dropWhile char_is_whitespace (rev (dropWhile char_is_whitespace (chars s)))))"

end
