(* ===== verification/Keys.thy ===== *)
theory Keys
  imports Hex
begin

text \<open>
  \<open>src/keys.rs\<close>: the root key file. Parameters: \<open>hkdf salt key info\<close> (HKDF-SHA256 expanded to 32
  bytes), \<open>sha256\<close>, the JSON text of a key file (\<open>render\<close>, \<open>parse\<close>), the random root key and the
  clock. A path holds \<open>Some\<close> bytes or nothing; \<open>kio\<close> says which file operations fail. Directory
  creation and permissions have no effect on the contents and are steps that can fail.
\<close>

record key_file =
  kf_version :: nat
  kf_created :: string
  kf_root_key_hex :: string
  kf_db_uuid :: string

definition key_file_version :: nat where "key_file_version = 1"
definition chain_info :: bytes where "chain_info = ''auditmcp-chain-v1''"
definition anchor_info :: bytes where "anchor_info = ''auditmcp-anchor-v1''"

definition generate :: "string \<Rightarrow> bytes \<Rightarrow> string \<Rightarrow> key_file" where
  "generate now root_key db_uuid =
     \<lparr>kf_version = key_file_version, kf_created = now, kf_root_key_hex = hex_encode root_key, kf_db_uuid = db_uuid\<rparr>"

definition root_key_bytes :: "key_file \<Rightarrow> bytes result" where
  "root_key_bytes key =
     (case hex_decode (kf_root_key_hex key) of
        Inl e \<Rightarrow> Inl (KeyFailed ''malformed root_key_hex'')
      | Inr bs \<Rightarrow> if length bs = 32 then Inr bs else Inl (KeyFailed ''root key must be 32 bytes''))"

type_synonym hkdf = "string \<Rightarrow> bytes \<Rightarrow> bytes \<Rightarrow> bytes"

definition derive_subkeys :: "hkdf \<Rightarrow> key_file \<Rightarrow> string \<Rightarrow> (bytes \<times> bytes) result" where
  "derive_subkeys hkdf key db_uuid_salt =
     and_then (root_key_bytes key) (\<lambda>root_key.
       Inr (hkdf db_uuid_salt root_key chain_info, hkdf db_uuid_salt root_key anchor_info))"

definition fingerprint :: "(bytes \<Rightarrow> bytes) \<Rightarrow> key_file \<Rightarrow> string result" where
  "fingerprint sha256 key =
     and_then (root_key_bytes key) (\<lambda>root_key. Inr (take 16 (hex_encode (sha256 root_key))))"

type_synonym key_io = "string \<Rightarrow> bool"

definition load_key :: "(string \<Rightarrow> key_file option) \<Rightarrow> key_io \<Rightarrow> bytes option \<Rightarrow> key_file option result" where
  "load_key parse kio file =
     (case file of
        None \<Rightarrow> Inr None
      | Some raw \<Rightarrow>
          if kio ''read key file'' then Inl (KeyFailed ''read key file'')
          else (case parse raw of None \<Rightarrow> Inl (KeyFailed ''key file is not valid'') | Some key \<Rightarrow> Inr (Some key)))"

text \<open>
  \<open>create_new\<close>: \<open>appeared\<close> is what another process has put at the path since it was looked at. The
  result says whether the file was ours to create.
\<close>

definition save_new ::
  "(key_file \<Rightarrow> string) \<Rightarrow> key_io \<Rightarrow> bytes option \<Rightarrow> key_file \<Rightarrow> bool result \<times> bytes option" where
  "save_new render kio appeared key =
     (if kio ''create key directory'' then (Inl (KeyFailed ''create key directory''), appeared)
      else case appeared of
        Some raw \<Rightarrow> (Inr False, appeared)
      | None \<Rightarrow>
          if kio ''create key file'' then (Inl (KeyFailed ''create key file''), None)
          else if kio ''write key file'' then (Inl (KeyFailed ''write key file''), Some [])
          else (Inr True, Some (render key)))"

definition load_or_generate ::
  "(key_file \<Rightarrow> string) \<Rightarrow> (string \<Rightarrow> key_file option) \<Rightarrow> key_io \<Rightarrow> string \<Rightarrow> bytes \<Rightarrow>
   bytes option \<Rightarrow> bytes option \<Rightarrow> string \<Rightarrow> key_file result \<times> bytes option" where
  "load_or_generate render parse kio now root_key file appeared db_uuid =
     (case load_key parse kio file of
        Inl e \<Rightarrow> (Inl e, file)
      | Inr (Some key) \<Rightarrow> (Inr key, file)
      | Inr None \<Rightarrow>
          (let key = generate now root_key db_uuid in
           case save_new render kio appeared key of
             (Inl e, file') \<Rightarrow> (Inl e, file')
           | (Inr True, file') \<Rightarrow> (Inr key, file')
           | (Inr False, file') \<Rightarrow>
               (case load_key parse kio file' of
                  Inl e \<Rightarrow> (Inl e, file')
                | Inr (Some key') \<Rightarrow> (Inr key', file')
                | Inr None \<Rightarrow> (Inl (KeyFailed ''key file appeared but could not be read back''), file'))))"

definition backup ::
  "(key_file \<Rightarrow> string) \<Rightarrow> key_io \<Rightarrow> key_file \<Rightarrow> bytes option \<Rightarrow> bool \<Rightarrow> unit result \<times> bytes option" where
  "backup render kio key dest force =
     (if dest \<noteq> None \<and> \<not> force then (Inl (Refused ''refusing to overwrite existing file''), dest)
      else if kio ''create backup directory'' then (Inl (KeyFailed ''create backup directory''), dest)
      else if kio ''write key file'' then (Inl (KeyFailed ''write key file''), dest)
      else if kio ''move backup into place'' then (Inl (KeyFailed ''move backup into place''), dest)
      else (Inr (), Some (render key)))"

text \<open>\<open>Path::join\<close> on a path with forward slashes: an absolute second part replaces the first.\<close>

definition path_join :: "string \<Rightarrow> string \<Rightarrow> string" where
  "path_join base rest =
     (if starts_with rest ''/'' then rest
      else if base = [] \<or> ends_with base ''/'' then base @ rest else base @ ''/'' @ rest)"

definition expand_tilde :: "string option \<Rightarrow> string \<Rightarrow> string result" where
  "expand_tilde home path =
     (case (case strip_prefix path ''~/'' of Some rest \<Rightarrow> Some rest
            | None \<Rightarrow> strip_prefix path [CHR ''~'', CHR 0x5C]) of
        Some rest \<Rightarrow>
          (case home of None \<Rightarrow> Inl (Invalid ''could not determine home directory'') | Some h \<Rightarrow> Inr (path_join h rest))
      | None \<Rightarrow>
          if path = ''~''
          then (case home of None \<Rightarrow> Inl (Invalid ''could not determine home directory'') | Some h \<Rightarrow> Inr h)
          else Inr path)"

lemma root_key_generate [simp]: "length rk = 32 \<Longrightarrow> root_key_bytes (generate now rk u) = Inr rk"
  by (simp add: root_key_bytes_def generate_def hex_decode_encode)

lemma load_key_None: "load_key parse kio file = Inr None \<longleftrightarrow> file = None"
  by (auto simp: load_key_def split: option.splits)

lemma load_key_Some: "load_key parse kio file = Inr (Some key) \<Longrightarrow> \<exists>raw. file = Some raw \<and> parse raw = Some key"
  by (auto simp: load_key_def split: option.splits if_splits)

lemma load_or_generate_on_disk_aux:
  assumes "load_or_generate render parse kio now rk file appeared u = (Inr key, file')"
    and "parse (render (generate now rk u)) = Some (generate now rk u)"
  shows "(\<exists>raw. file' = Some raw \<and> parse raw = Some key) \<and>
    file' = (if file \<noteq> None then file else if appeared \<noteq> None then appeared else Some (render key))"
proof (cases "load_key parse kio file")
  case (Inl e)
  with assms(1) show ?thesis by (simp add: load_or_generate_def)
next
  case (Inr k)
  show ?thesis
  proof (cases k)
    case (Some x)
    with Inr assms(1) show ?thesis by (auto simp: load_or_generate_def dest!: load_key_Some)
  next
    case None
    with Inr have "file = None" by (simp add: load_key_None)
    show ?thesis
    proof (cases appeared)
      case None
      with assms \<open>file = None\<close> Inr \<open>k = None\<close> show ?thesis
        by (auto simp: load_or_generate_def save_new_def Let_def split: if_splits)
    next
      case (Some raw)
      with assms \<open>file = None\<close> Inr \<open>k = None\<close> show ?thesis
        by (auto simp: load_or_generate_def save_new_def Let_def dest: load_key_Some split: if_splits sum.splits option.splits)
    qed
  qed
qed

text \<open>
  The key in use is always the key on disk, and an existing key file is never overwritten,
  also when another process wins the race to create it.
\<close>

theorem load_or_generate_on_disk:
  assumes "load_or_generate render parse kio now rk file appeared u = (Inr key, file')"
    and "parse (render (generate now rk u)) = Some (generate now rk u)"
  shows "(\<exists>raw. file' = Some raw \<and> parse raw = Some key) \<and>
    file' = (if file \<noteq> None then file else if appeared \<noteq> None then appeared else Some (render key))"
  using load_or_generate_on_disk_aux [OF assms] .

definition sample_key_parse :: "string \<Rightarrow> key_file option" where
  "sample_key_parse raw = (if raw = ''K'' then Some (generate ''now'' (replicate 32 CHR ''r'') ''u'')
     else if raw = ''W'' then Some (generate ''then'' (replicate 32 CHR ''w'') ''u'') else None)"

definition sample_key_render :: "key_file \<Rightarrow> string" where
  "sample_key_render k = (if kf_created k = ''now'' then ''K'' else ''W'')"

lemma sample_key_roundtrip [simp]:
  "sample_key_parse (sample_key_render (generate ''now'' (replicate 32 CHR ''r'') ''u'')) =
     Some (generate ''now'' (replicate 32 CHR ''r'') ''u'')"
  by (simp add: sample_key_parse_def sample_key_render_def generate_def)

theorem load_or_generate_on_disk_witness:
  "\<exists>key file'. load_or_generate sample_key_render sample_key_parse (\<lambda>_. False) ''now'' (replicate 32 CHR ''r'')
     None (Some ''W'') ''u'' = (Inr key, file') \<and> file' = Some ''W'' \<and> kf_created key = ''then''"
proof -
  obtain key file' where *: "load_or_generate sample_key_render sample_key_parse (\<lambda>_. False) ''now''
      (replicate 32 CHR ''r'') None (Some ''W'') ''u'' = (Inr key, file')"
    by (simp add: load_or_generate_def load_key_def save_new_def sample_key_parse_def Let_def)
  from load_or_generate_on_disk [OF * sample_key_roundtrip] * show ?thesis
    by (auto simp: sample_key_parse_def generate_def)
qed

end
