(* ===== verification/Anchor.thy ===== *)
theory Anchor
  imports HashChain Utf8 Keys
begin

text \<open>
  \<open>src/anchor.rs\<close>: the external witness, an append-only file of JSON lines that is a MAC chain of
  its own. The file is its bytes, or \<open>None\<close> if it does not exist. Parameters: \<open>mac\<close>, the text of
  an entry (\<open>render\<close>, \<open>parse\<close>: \<open>serde_json\<close>) and the clock. Which file operations fail is the
  oracle \<open>io\<close>, as \<open>sql_fails\<close> is for the database; a failing write may leave any part of its
  line behind.
\<close>

definition genesis_prev_anchor_hmac :: string where
  "genesis_prev_anchor_hmac = replicate 64 CHR ''0''"

record anchor_entry =
  an_timestamp :: string
  an_last_id :: int
  an_last_hash :: string
  an_prev :: string
  an_hmac :: string

definition canonical_bytes :: "string \<Rightarrow> int \<Rightarrow> string \<Rightarrow> string \<Rightarrow> bytes" where
  "canonical_bytes timestamp chain_last_id chain_last_hash prev_anchor_hmac =
     join CHR 0x00 [timestamp, show_int chain_last_id, chain_last_hash, prev_anchor_hmac]"

definition compute_anchor_hmac ::
  "(bytes \<Rightarrow> bytes \<Rightarrow> bytes) \<Rightarrow> bytes \<Rightarrow> string \<Rightarrow> int \<Rightarrow> string \<Rightarrow> string \<Rightarrow> string" where
  "compute_anchor_hmac mac anchor_key timestamp chain_last_id chain_last_hash prev_anchor_hmac =
     hex_encode (mac anchor_key (canonical_bytes timestamp chain_last_id chain_last_hash prev_anchor_hmac))"

text \<open>The path \<open>Config::load\<close> has finalised; an empty one means it has not.\<close>

definition resolve_anchor_path :: "string option \<Rightarrow> string \<Rightarrow> string result" where
  "resolve_anchor_path home configured_path =
     (if configured_path = [] then Inl (Invalid ''anchor path was not resolved while loading configuration'')
      else expand_tilde home configured_path)"

section \<open>The file\<close>

type_synonym io = "string \<Rightarrow> bool"

definition io_step :: "io \<Rightarrow> string \<Rightarrow> 'a \<Rightarrow> 'a result" where
  "io_step io label x = (if io label then Inl (IoFailed label) else Inr x)"

definition tail_window_bytes :: nat where "tail_window_bytes = 64 * 1024"

text \<open>\<open>rfind\<close> of a line feed.\<close>

fun rfind_lf :: "string \<Rightarrow> nat option" where
  "rfind_lf [] = None"
| "rfind_lf (c # s) =
     (case rfind_lf s of Some i \<Rightarrow> Some (Suc i) | None \<Rightarrow> if c = CHR 0x0A then Some 0 else None)"

definition blank :: "string \<Rightarrow> bool" where
  "blank s \<longleftrightarrow> trim s = []"

definition tail_start :: "bytes \<Rightarrow> nat" where
  "tail_start f = length f - tail_window_bytes"

definition read_tail_lossy :: "bytes \<Rightarrow> string" where
  "read_tail_lossy f = utf8_lossy (drop (tail_start f) f)"

definition last_anchor_hmac :: "(string \<Rightarrow> anchor_entry option) \<Rightarrow> io \<Rightarrow> bytes option \<Rightarrow> string option result" where
  "last_anchor_hmac parse io file =
     (case file of
        None \<Rightarrow> Inr None
      | Some f \<Rightarrow>
          and_then (io_step io ''open anchor'' ()) (\<lambda>_.
          and_then (io_step io ''read anchor'' ()) (\<lambda>_.
          let tail = read_tail_lossy f;
              complete = (case rfind_lf tail of Some pos \<Rightarrow> take pos tail | None \<Rightarrow> [])
          in case find (\<lambda>l. \<not> blank l) (rev (lines complete)) of
               None \<Rightarrow> Inr None
             | Some line \<Rightarrow>
                 (case parse line of
                    None \<Rightarrow> Inl (Invalid ''last line of anchor file is not valid JSON'')
                  | Some entry \<Rightarrow> Inr (Some (an_hmac entry))))))"

text \<open>\<open>set_len\<close> truncates, or extends with zero bytes.\<close>

definition set_len :: "nat \<Rightarrow> bytes \<Rightarrow> bytes" where
  "set_len n f = take n f @ replicate (n - length f) CHR 0x00"

definition repair_torn_tail :: "io \<Rightarrow> bytes option \<Rightarrow> unit result \<times> bytes option" where
  "repair_torn_tail io file =
     (case file of
        None \<Rightarrow> (Inr (), file)
      | Some f \<Rightarrow>
          (case io_step io ''open anchor for repair'' () of
             Inl e \<Rightarrow> (Inl e, file)
           | Inr _ \<Rightarrow>
               if f = [] then (Inr (), file)
               else if io ''read anchor for repair'' then (Inl (IoFailed ''read anchor for repair''), file)
               else if last f = CHR 0x0A then (Inr (), file)
               else (case rfind_lf (read_tail_lossy f) of
                       Some pos \<Rightarrow>
                         (case io_step io ''truncate anchor'' () of
                            Inl e \<Rightarrow> (Inl e, file)
                          | Inr _ \<Rightarrow> (Inr (), Some (set_len (tail_start f + pos + 1) f)))
                     | None \<Rightarrow> (Inr (), file))))"

text \<open>What a write of a line leaves in the file when it is interrupted after \<open>n\<close> bytes.\<close>

datatype write_outcome = Written | Torn nat

definition append_line :: "write_outcome \<Rightarrow> bytes option \<Rightarrow> string \<Rightarrow> unit result \<times> bytes option" where
  "append_line outcome file line =
     (let f = (case file of Some f \<Rightarrow> f | None \<Rightarrow> []) in
      case outcome of
        Written \<Rightarrow> (Inr (), Some (f @ line @ [CHR 0x0A]))
      | Torn n \<Rightarrow> (Inl (IoFailed ''append to anchor''), Some (f @ take n (line @ [CHR 0x0A]))))"

definition append_entry ::
  "(bytes \<Rightarrow> bytes \<Rightarrow> bytes) \<Rightarrow> (anchor_entry \<Rightarrow> string) \<Rightarrow> (string \<Rightarrow> anchor_entry option) \<Rightarrow> io \<Rightarrow>
   write_outcome \<Rightarrow> unit result \<Rightarrow> string \<Rightarrow> bytes option \<Rightarrow> bytes \<Rightarrow> int \<Rightarrow> string \<Rightarrow> unit result \<times> bytes option" where
  "append_entry mac render parse io outcome lock timestamp file anchor_key chain_last_id chain_last_hash =
     (case and_then (io_step io ''create anchor directory'' ()) (\<lambda>_. lock) of
        Inl e \<Rightarrow> (Inl e, file)
      | Inr _ \<Rightarrow>
          (case repair_torn_tail io file of
             (Inl e, file1) \<Rightarrow> (Inl e, file1)
           | (Inr _, file1) \<Rightarrow>
               (case last_anchor_hmac parse io file1 of
                  Inl e \<Rightarrow> (Inl e, file1)
                | Inr prev \<Rightarrow>
                    (let prev_anchor_hmac = (case prev of Some h \<Rightarrow> h | None \<Rightarrow> genesis_prev_anchor_hmac);
                         entry = \<lparr>an_timestamp = timestamp, an_last_id = chain_last_id,
                           an_last_hash = chain_last_hash, an_prev = prev_anchor_hmac,
                           an_hmac = compute_anchor_hmac mac anchor_key timestamp chain_last_id
                             chain_last_hash prev_anchor_hmac\<rparr>
                     in case io_step io ''open anchor for append'' () of
                          Inl e \<Rightarrow> (Inl e, file1)
                        | Inr _ \<Rightarrow> append_line outcome file1 (render entry)))))"

text \<open>The loop of \<open>read_entries\<close>: \<open>i\<close> counts lines from 0, \<open>n\<close> is how many there are.\<close>

fun read_lines ::
  "(string \<Rightarrow> anchor_entry option) \<Rightarrow> bool \<Rightarrow> nat \<Rightarrow> nat \<Rightarrow> string list \<Rightarrow> anchor_entry list result" where
  "read_lines parse ends_clean n i [] = Inr []"
| "read_lines parse ends_clean n i (line # ls) =
     (if blank line then read_lines parse ends_clean n (Suc i) ls
      else (case parse line of
              Some e \<Rightarrow> and_then (read_lines parse ends_clean n (Suc i) ls) (\<lambda>es. Inr (e # es))
            | None \<Rightarrow>
                if Suc i = n \<and> \<not> ends_clean then Inr []
                else Inl (Invalid (''anchor file line '' @ show_nat (Suc i) @ '': not valid JSON''))))"

definition read_entries :: "(string \<Rightarrow> anchor_entry option) \<Rightarrow> io \<Rightarrow> bytes option \<Rightarrow> anchor_entry list result" where
  "read_entries parse io file =
     (case file of
        None \<Rightarrow> Inr []
      | Some f \<Rightarrow>
          if io ''read anchor file'' \<or> \<not> utf8_valid f then Inl (IoFailed ''read anchor file'')
          else read_lines parse (f \<noteq> [] \<and> last f = CHR 0x0A) (length (lines f)) 0 (lines f))"

section \<open>The lock file\<close>

text \<open>
  The lock file holds the token of its owner; \<open>None\<close> is no lock file. One pass of the loop in
  \<open>acquire\<close> sees the file as other processes have left it: what it sees is part of the input.
\<close>

record lock_view =
  lv_file :: "string option"
  lv_create_fails :: bool
  lv_stale :: bool
  lv_rename_ok :: bool
  lv_deadline_passed :: bool

datatype acquire_step = Acquired "string option" | Retry "string option" | GiveUp error

text \<open>The token is written best-effort: a lock may end up with an empty file.\<close>

definition acquire_once :: "string \<Rightarrow> bool \<Rightarrow> lock_view \<Rightarrow> acquire_step" where
  "acquire_once token token_written v =
     (if lv_create_fails v then GiveUp (IoFailed ''create anchor lock'')
      else case lv_file v of
        None \<Rightarrow> Acquired (Some (if token_written then token else []))
      | Some _ \<Rightarrow>
          if lv_stale v then Retry (if lv_rename_ok v then None else lv_file v)
          else if lv_deadline_passed v then GiveUp (Refused ''anchor lock busy'')
          else Retry (lv_file v))"

fun acquire :: "string \<Rightarrow> bool \<Rightarrow> lock_view list \<Rightarrow> (string option) result option" where
  "acquire token token_written [] = None"
| "acquire token token_written (v # vs) =
     (case acquire_once token token_written v of
        Acquired f \<Rightarrow> Some (Inr f)
      | GiveUp e \<Rightarrow> Some (Inl e)
      | Retry f \<Rightarrow> acquire token token_written vs)"

definition release :: "string \<Rightarrow> string option \<Rightarrow> string option" where
  "release token lock_file =
     (case lock_file of
        Some on_disk \<Rightarrow> if trim on_disk = token then None else lock_file
      | None \<Rightarrow> None)"

section \<open>Verification\<close>

record anchor_issue =
  ai_line :: nat
  ai_detail :: string

fun verify_anchor_from ::
  "(bytes \<Rightarrow> bytes \<Rightarrow> bytes) \<Rightarrow> bytes \<Rightarrow> nat \<Rightarrow> string \<Rightarrow> anchor_entry list \<Rightarrow> anchor_issue option" where
  "verify_anchor_from mac anchor_key i expected_prev [] = None"
| "verify_anchor_from mac anchor_key i expected_prev (entry # es) =
     (if an_prev entry \<noteq> expected_prev
      then Some \<lparr>ai_line = i + 1, ai_detail =
        ''prev_anchor_hmac mismatch: expected '' @ expected_prev @ '', found '' @ an_prev entry\<rparr>
      else
        let recomputed = compute_anchor_hmac mac anchor_key (an_timestamp entry) (an_last_id entry)
              (an_last_hash entry) (an_prev entry)
        in if recomputed \<noteq> an_hmac entry
           then Some \<lparr>ai_line = i + 1, ai_detail =
             ''anchor_hmac mismatch: expected '' @ recomputed @ '', stored '' @ an_hmac entry\<rparr>
           else verify_anchor_from mac anchor_key (i + 1) (an_hmac entry) es)"

definition verify_anchor_chain ::
  "(bytes \<Rightarrow> bytes \<Rightarrow> bytes) \<Rightarrow> anchor_entry list \<Rightarrow> bytes \<Rightarrow> anchor_issue option" where
  "verify_anchor_chain mac entries anchor_key =
     verify_anchor_from mac anchor_key 0 genesis_prev_anchor_hmac entries"

definition anchor_entry_issues :: "stored_row list \<Rightarrow> anchor_entry \<Rightarrow> string list" where
  "anchor_entry_issues chain_rows entry =
     (case find (\<lambda>r. row_id r = an_last_id entry) chain_rows of
        None \<Rightarrow> [''anchor entry at '' @ an_timestamp entry @ '' references chain row id ''
          @ show_int (an_last_id entry) @ '', which no longer exists'']
      | Some row \<Rightarrow>
          if row_hash row \<noteq> an_last_hash entry
          then [''anchor entry at '' @ an_timestamp entry @ '' references chain row id ''
            @ show_int (an_last_id entry) @ '' with hash '' @ an_last_hash entry
            @ '', but the row''@ [CHR 0x27] @ ''s current hash is '' @ row_hash row]
          else [])"

definition verify_anchor_against_chain :: "anchor_entry list \<Rightarrow> stored_row list \<Rightarrow> string list" where
  "verify_anchor_against_chain entries chain_rows = concat (map (anchor_entry_issues chain_rows) entries)"

definition last_chain_row :: "database \<Rightarrow> (int \<times> string) option result" where
  "last_chain_row d = sql d ''read chain tail'' 0
     (if tool_calls d = [] then None
      else Some (row_id (last (rows_by_id d)), row_hash (last (rows_by_id d))))"

text \<open>One tick of \<open>run\<close>: nothing is anchored for an empty or unreadable chain, and no failure stops it.\<close>

definition anchor_tick ::
  "(bytes \<Rightarrow> bytes \<Rightarrow> bytes) \<Rightarrow> (anchor_entry \<Rightarrow> string) \<Rightarrow> (string \<Rightarrow> anchor_entry option) \<Rightarrow> io \<Rightarrow>
   write_outcome \<Rightarrow> unit result \<Rightarrow> string \<Rightarrow> database \<Rightarrow> bytes option \<Rightarrow> bytes \<Rightarrow> bytes option" where
  "anchor_tick mac render parse io outcome lock now d file anchor_key =
     (case and_then (sql d ''open readonly'' 0 ()) (\<lambda>_. last_chain_row d) of
        Inl e \<Rightarrow> file
      | Inr None \<Rightarrow> file
      | Inr (Some (i, h)) \<Rightarrow> snd (append_entry mac render parse io outcome lock now file anchor_key i h))"

section \<open>The anchor as a hash-linked log\<close>

definition anchor_accepts :: "(bytes \<Rightarrow> bytes \<Rightarrow> bytes) \<Rightarrow> bytes \<Rightarrow> string \<Rightarrow> anchor_entry list \<Rightarrow> bool" where
  "anchor_accepts mac k p es \<longleftrightarrow> verify_anchor_from mac k 0 p es = None"

type_synonym anchor_content = "string \<times> int \<times> string"

definition anchor_content_of :: "anchor_entry \<Rightarrow> anchor_content" where
  "anchor_content_of e = (an_timestamp e, an_last_id e, an_last_hash e)"

definition anchor_digest :: "(bytes \<Rightarrow> bytes \<Rightarrow> bytes) \<Rightarrow> bytes \<Rightarrow> string \<Rightarrow> anchor_content \<Rightarrow> string" where
  "anchor_digest mac k p c = compute_anchor_hmac mac k (fst c) (fst (snd c)) (snd (snd c)) p"

definition anchor_text :: "string \<Rightarrow> anchor_content \<Rightarrow> bytes" where
  "anchor_text p c = canonical_bytes (fst c) (fst (snd c)) (snd (snd c)) p"

definition anchor_wf :: "bytes set \<Rightarrow> string \<Rightarrow> anchor_content \<Rightarrow> bool" where
  "anchor_wf texts p c \<longleftrightarrow> CHR 0x00 \<notin> set p \<and> CHR 0x00 \<notin> set (fst c) \<and> CHR 0x00 \<notin> set (snd (snd c)) \<and>
     anchor_text p c \<in> texts"

lemma verify_anchor_from_index: "verify_anchor_from mac k i p es = None \<longleftrightarrow> verify_anchor_from mac k j p es = None"
  by (induction es arbitrary: i j p) (auto simp: Let_def)

lemma anchor_digest_inject:
  assumes "anchor_wf texts p c" and "anchor_digest mac k p c = anchor_digest mac k p' c'" and "anchor_wf texts p' c'"
  shows "(p = p' \<and> c = c') \<or> mac_collision mac k texts"
proof -
  obtain t i h t' i' h' where c: "c = (t, i, h)" "c' = (t', i', h')" by (cases c; cases c')
  have "canonical_bytes t i h p = canonical_bytes t' i' h' p' \<or> mac_collision mac k texts"
    using assms by (intro mac_collisionI) (simp_all add: anchor_digest_def compute_anchor_hmac_def anchor_wf_def anchor_text_def c hex_encode_inject)
  moreover have "canonical_bytes t i h p = canonical_bytes t' i' h' p' \<Longrightarrow>
      [t, show_int i, h, p] = [t', show_int i', h', p']"
    unfolding canonical_bytes_def
    by (rule join_inject [where c = "CHR 0x00"]) (use assms(1) c in \<open>auto simp: anchor_wf_def\<close>)
  ultimately show ?thesis using c by auto
qed

interpretation anchor: linked_log "\<lambda>p. p" "\<lambda>_ _. True" an_hmac an_prev an_hmac anchor_content_of
    "anchor_digest mac k" "anchor_wf texts" "anchor_accepts mac k" "mac_collision mac k texts"
  for mac k texts
proof
  fix s r rs
  show "anchor_accepts mac k s (r # rs) \<longleftrightarrow>
      True \<and> an_prev r = s \<and> anchor_digest mac k (an_prev r) (anchor_content_of r) = an_hmac r \<and>
      anchor_accepts mac k (an_hmac r) rs"
    using verify_anchor_from_index [of mac k 1 "an_hmac r" rs 0]
    by (auto simp: anchor_accepts_def anchor_digest_def anchor_content_of_def Let_def)
next
  show "(p = p' \<and> c = c') \<or> mac_collision mac k texts"
    if "anchor_wf texts p c" and "anchor_digest mac k p c = anchor_digest mac k p' c'" and "anchor_wf texts p' c'"
    for p c p' c'
    using that anchor_digest_inject by blast
qed (simp_all add: anchor_accepts_def)

lemma verify_anchor_chain_iff: "verify_anchor_chain mac es k = None \<longleftrightarrow> anchor_accepts mac k genesis_prev_anchor_hmac es"
  by (simp add: verify_anchor_chain_def anchor_accepts_def)

end
