(* ===== verification/AnchorProps.thy ===== *)
theory AnchorProps
  imports Anchor Samples
begin

text \<open>
  What the second witness promises: what an anchor entry has seen of the chain cannot be rewritten
  or removed, and a crash in the middle of a write costs no entry (with the one exception proved
  at the end).
\<close>

section \<open>Lines\<close>

lemma split_lf_append: "split_lf acc (a @ CHR 0x0A # b) = split_lf acc (a @ [CHR 0x0A]) @ split_lf [] b"
  by (induction acc a rule: split_lf.induct) (auto split: list.split)

lemma split_lf_no_lf: "CHR 0x0A \<notin> set s \<Longrightarrow> split_lf acc s = (if acc = [] \<and> s = [] then [] else [rev acc @ s])"
  by (induction acc s rule: split_lf.induct) auto

text \<open>A line that \<open>lines\<close> gives back unchanged.\<close>

definition whole_line :: "string \<Rightarrow> bool" where
  "whole_line l \<longleftrightarrow> CHR 0x0A \<notin> set l \<and> CHR 0x0D \<notin> set l \<and> \<not> blank l"

lemma whole_line_nonempty: "whole_line l \<Longrightarrow> l \<noteq> []"
  by (auto simp: whole_line_def blank_def trim_def)

lemma split_lf_line:
  "CHR 0x0A \<notin> set l \<Longrightarrow> CHR 0x0D \<notin> set l \<Longrightarrow> CHR 0x0D \<notin> set acc \<Longrightarrow>
     split_lf acc (l @ CHR 0x0A # s) = (rev acc @ l) # split_lf [] s"
  by (induction acc "l @ CHR 0x0A # s" arbitrary: l rule: split_lf.induct)
     (auto simp: Cons_eq_append_conv split: list.splits)

definition line_block :: "string list \<Rightarrow> string" where
  "line_block ls = concat (map (\<lambda>l. l @ [CHR 0x0A]) ls)"

lemma line_block_simps [simp]: "line_block [] = []" "line_block (l # ls) = l @ CHR 0x0A # line_block ls"
  "line_block (xs @ ys) = line_block xs @ line_block ys"
  by (simp_all add: line_block_def)

lemma lines_block:
  "\<forall>l \<in> set ls. whole_line l \<Longrightarrow> CHR 0x0A \<notin> set frag \<Longrightarrow>
     lines (line_block ls @ frag) = ls @ (if frag = [] then [] else [frag])"
  by (induction ls) (auto simp: lines_def split_lf_no_lf split_lf_line whole_line_def)

lemma rfind_lf_None: "CHR 0x0A \<notin> set s \<Longrightarrow> rfind_lf s = None"
  by (induction s) auto

lemma rfind_lf_last: "CHR 0x0A \<notin> set b \<Longrightarrow> rfind_lf (a @ CHR 0x0A # b) = Some (length a)"
  by (induction a) (auto simp: rfind_lf_None)

section \<open>Appending to a file, torn or not\<close>

text \<open>What \<open>serde_json\<close> documents of an entry written on one line, for the entries at hand.\<close>

definition json_line :: "(anchor_entry \<Rightarrow> string) \<Rightarrow> (string \<Rightarrow> anchor_entry option) \<Rightarrow> anchor_entry \<Rightarrow> bool" where
  "json_line render parse e \<longleftrightarrow> parse (render e) = Some e \<and> whole_line (render e) \<and> ascii (render e)"

text \<open>A file of complete entries and a fragment of an interrupted write, small against the tail window.\<close>

definition anchor_file :: "(anchor_entry \<Rightarrow> string) \<Rightarrow> anchor_entry list \<Rightarrow> string \<Rightarrow> bytes" where
  "anchor_file render es frag = line_block (map render es) @ frag"

lemma ascii_line_block: "\<forall>l \<in> set ls. ascii l \<Longrightarrow> ascii (line_block ls)"
  by (induction ls) (auto simp: in_range_def)

lemma read_lines_all:
  "\<forall>e \<in> set es. json_line render parse e \<Longrightarrow>
     read_lines parse clean n i (map render es @ ls) =
       and_then (read_lines parse clean n (i + length es) ls) (\<lambda>rest. Inr (es @ rest))"
proof (induction es arbitrary: i)
  case Nil
  then show ?case by (cases "read_lines parse clean n i ls") auto
next
  case (Cons e es)
  then show ?case
    by (cases "read_lines parse clean n (Suc (i + length es)) ls") (auto simp: json_line_def whole_line_def)
qed

lemma read_anchor_file:
  assumes "\<forall>e \<in> set es. json_line render parse e"
  shows "read_entries parse (\<lambda>_. False) (Some (anchor_file render es [])) = Inr es"
proof -
  have "lines (anchor_file render es []) = map render es"
    using lines_block [of "map render es" "[]"] assms by (auto simp: anchor_file_def json_line_def)
  moreover have "utf8_valid (anchor_file render es [])"
    using assms by (auto simp: anchor_file_def json_line_def intro!: utf8_valid_ascii ascii_line_block)
  moreover have "read_lines parse clean n i (map render es) = Inr es" for clean n i
    using read_lines_all [OF assms, of clean n i "[]"] by simp
  ultimately show ?thesis by (simp add: read_entries_def)
qed

lemma tail_of_file:
  assumes "ascii f" and "f = a @ b" and "length b \<le> tail_window_bytes"
  shows "\<exists>a'. read_tail_lossy f = a' @ b \<and> length a' + tail_start f = length a \<and> (length f \<le> tail_window_bytes \<longrightarrow> a' = a)"
proof -
  have "tail_start f \<le> length a" using assms(2,3) by (simp add: tail_start_def)
  then have "drop (tail_start f) f = drop (tail_start f) a @ b" using assms(2) by simp
  moreover have "utf8_lossy (drop (tail_start f) f) = drop (tail_start f) f" using assms(1) by simp
  ultimately show ?thesis
    using \<open>tail_start f \<le> length a\<close> by (intro exI [of _ "drop (tail_start f) a"]) (simp add: read_tail_lossy_def tail_start_def)
qed

lemma set_len_append: "set_len (length x) (x @ y) = x"
  by (simp add: set_len_def)

lemma repair_file:
  assumes "\<forall>e \<in> set es. json_line render parse e" and "ascii frag" and "CHR 0x0A \<notin> set frag"
    and "es = [] \<Longrightarrow> frag = []" and "length frag < tail_window_bytes"
  shows "repair_torn_tail (\<lambda>_. False) (Some (anchor_file render es frag)) = (Inr (), Some (anchor_file render es []))"
proof (cases "frag = []")
  case True
  then show ?thesis
    by (cases es rule: rev_cases) (auto simp: repair_torn_tail_def io_step_def anchor_file_def)
next
  case False
  then obtain es' e where es: "es = es' @ [e]" using assms(4) by (metis rev_exhaust)
  let ?f = "anchor_file render es frag"
  let ?a = "line_block (map render es') @ render e"
  have f: "?f = ?a @ CHR 0x0A # frag" by (simp add: anchor_file_def es)
  have "ascii ?f" using assms(1,2) by (auto simp: anchor_file_def json_line_def intro!: ascii_line_block)
  then obtain a' where a': "read_tail_lossy ?f = a' @ CHR 0x0A # frag" "length a' + tail_start ?f = length ?a"
    using tail_of_file [OF _ f] assms(5) by auto
  have last: "last ?f \<noteq> CHR 0x0A"
    using False assms(3) f by (metis append_is_Nil_conv last_appendR last_ConsR last_in_set list.distinct(1))
  have pos: "tail_start ?f + length a' + 1 = length (?a @ [CHR 0x0A])" using a'(2) by simp
  have "set_len (tail_start ?f + length a' + 1) ?f = ?a @ [CHR 0x0A]"
    using set_len_append [of "?a @ [CHR 0x0A]" frag] unfolding pos [symmetric] f by simp
  then show ?thesis
    using last a' rfind_lf_last [OF assms(3)] f
    by (simp add: repair_torn_tail_def io_step_def) (simp add: anchor_file_def es)
qed

lemma last_hmac_file:
  assumes "\<forall>e \<in> set es. json_line render parse e" and "es \<noteq> [] \<Longrightarrow> length (render (last es)) + 2 \<le> tail_window_bytes"
  shows "last_anchor_hmac parse (\<lambda>_. False) (Some (anchor_file render es [])) =
    Inr (if es = [] then None else Some (an_hmac (last es)))"
proof (cases es rule: rev_cases)
  case Nil
  have "read_tail_lossy [] = []" by (simp add: read_tail_lossy_def)
  with Nil show ?thesis by (simp add: last_anchor_hmac_def anchor_file_def io_step_def lines_def)
next
  case (snoc es' e)
  let ?f = "anchor_file render es []"
  let ?c = "line_block (map render es')"
  have f: "?f = ?c @ render e @ [CHR 0x0A]" by (simp add: anchor_file_def snoc)
  have asc: "ascii ?f" using assms(1) by (auto simp: anchor_file_def json_line_def intro!: ascii_line_block)
  have e: "parse (render e) = Some e" "whole_line (render e)" using assms(1) snoc by (auto simp: json_line_def)
  have "\<exists>t. read_tail_lossy ?f = t @ [CHR 0x0A] \<and> find (\<lambda>l. \<not> blank l) (rev (lines t)) = Some (render e)"
  proof (cases es' rule: rev_cases)
    case Nil
    then have f': "?f = [] @ render e @ [CHR 0x0A]" using f by simp
    from tail_of_file [OF asc f'] assms(2) snoc have "read_tail_lossy ?f = render e @ [CHR 0x0A]" by auto
    moreover have "lines (render e) = [render e]"
      using lines_block [of "[]" "render e"] e(2) whole_line_nonempty by (auto simp: whole_line_def)
    ultimately show ?thesis using e(2) by (intro exI [of _ "render e"]) (simp add: whole_line_def)
  next
    case (snoc es'' e')
    let ?d = "line_block (map render es'') @ render e'"
    have f': "?f = ?d @ CHR 0x0A # render e @ [CHR 0x0A]" using f snoc by simp
    from tail_of_file [OF asc f'] assms(2) \<open>es = es' @ [e]\<close> obtain d' where
      d': "read_tail_lossy ?f = d' @ CHR 0x0A # render e @ [CHR 0x0A]" by auto
    have "lines (d' @ CHR 0x0A # render e) = lines (d' @ [CHR 0x0A]) @ [render e]"
      using split_lf_append [of "[]" d' "render e"] split_lf_no_lf [of "render e" "[]"] e(2) whole_line_nonempty
      by (auto simp: lines_def whole_line_def)
    with d' e(2) show ?thesis by (intro exI [of _ "d' @ CHR 0x0A # render e"]) (simp add: whole_line_def)
  qed
  then obtain t where t: "read_tail_lossy ?f = t @ [CHR 0x0A]" "find (\<lambda>l. \<not> blank l) (rev (lines t)) = Some (render e)"
    by blast
  with e(1) rfind_lf_last [of "[]" t] show ?thesis
    by (simp add: last_anchor_hmac_def io_step_def Let_def snoc)
qed


text \<open>
  The exception: a torn write that left the file without any complete line is not repaired.
  The next append reports success, but its entry is glued to the fragment, and from then on the
  file cannot be read at all.
\<close>

theorem torn_first_line_poisons:
  assumes "frag \<noteq> []" and "ascii frag" and "CHR 0x0A \<notin> set frag"
    and "e = \<lparr>an_timestamp = now, an_last_id = i, an_last_hash = h, an_prev = genesis_prev_anchor_hmac,
      an_hmac = compute_anchor_hmac mac k now i h genesis_prev_anchor_hmac\<rparr>"
    and "json_line render parse e" and "parse (frag @ render e) = None" and "\<not> blank (frag @ render e)"
  shows "\<exists>file' err. append_entry mac render parse (\<lambda>_. False) Written (Inr ()) now (Some frag) k i h = (Inr (), Some file') \<and>
    read_entries parse (\<lambda>_. False) (Some file') = Inl err"
proof -
  have tail: "CHR 0x0A \<notin> set (read_tail_lossy frag)"
    using assms(2,3) by (auto simp: read_tail_lossy_def dest: in_set_dropD)
  have "last frag \<noteq> CHR 0x0A" using assms(1,3) last_in_set by metis
  then have "append_entry mac render parse (\<lambda>_. False) Written (Inr ()) now (Some frag) k i h =
      (Inr (), Some (frag @ render e @ [CHR 0x0A]))"
    using assms(1,4) rfind_lf_None [OF tail]
    by (simp add: append_entry_def io_step_def append_line_def repair_torn_tail_def last_anchor_hmac_def lines_def Let_def)
  moreover have "lines (frag @ render e @ [CHR 0x0A]) = [rev (case rev (frag @ render e) of a # as \<Rightarrow> if a = CHR 0x0D then as else a # as | [] \<Rightarrow> [])]"
  proof -
    have lf: "CHR 0x0A \<notin> set s \<Longrightarrow> split_lf acc (s @ [CHR 0x0A]) =
        [rev (case rev s @ acc of a # as \<Rightarrow> if a = CHR 0x0D then as else a # as | [] \<Rightarrow> [])]" for s acc
      by (induction s arbitrary: acc) (auto split: list.split)
    show ?thesis
      using lf [of "frag @ render e" "[]"] assms(3,5) by (simp add: lines_def json_line_def whole_line_def)
  qed
  moreover have "last (frag @ render e) \<noteq> CHR 0x0D"
  proof -
    have "render e \<noteq> []" and "CHR 0x0D \<notin> set (render e)"
      using assms(5) whole_line_nonempty by (auto simp: json_line_def whole_line_def)
    then show ?thesis by (metis last_appendR last_in_set)
  qed
  ultimately have one: "append_entry mac render parse (\<lambda>_. False) Written (Inr ()) now (Some frag) k i h =
      (Inr (), Some (frag @ render e @ [CHR 0x0A]))" "lines (frag @ render e @ [CHR 0x0A]) = [frag @ render e]"
    by (cases "frag @ render e" rule: rev_cases; simp)+
  have "ascii (frag @ render e @ [CHR 0x0A])" using assms(2,5) by (simp add: json_line_def in_range_def)
  with one(2) assms(6,7) have "read_entries parse (\<lambda>_. False) (Some (frag @ render e @ [CHR 0x0A])) =
      Inl (Invalid (''anchor file line '' @ show_nat (Suc 0) @ '': not valid JSON''))"
    by (simp add: read_entries_def utf8_valid_ascii)
  with one(1) show ?thesis by blast
qed

text \<open>A toy encoding of two entries, the second chained to the first.\<close>

definition entry_a :: anchor_entry where
  "entry_a = \<lparr>an_timestamp = ''t1'', an_last_id = 1, an_last_hash = ''h1'', an_prev = genesis_prev_anchor_hmac,
     an_hmac = compute_anchor_hmac toy_mac toy_key ''t1'' 1 ''h1'' genesis_prev_anchor_hmac\<rparr>"

definition entry_b :: anchor_entry where
  "entry_b = \<lparr>an_timestamp = ''t2'', an_last_id = 2, an_last_hash = ''h2'', an_prev = an_hmac entry_a,
     an_hmac = compute_anchor_hmac toy_mac toy_key ''t2'' 2 ''h2'' (an_hmac entry_a)\<rparr>"

definition toy_render :: "anchor_entry \<Rightarrow> string" where
  "toy_render e = (if an_timestamp e = ''t1'' then ''AA'' else ''BB'')"

definition toy_parse :: "string \<Rightarrow> anchor_entry option" where
  "toy_parse l = (if l = ''AA'' then Some entry_a else if l = ''BB'' then Some entry_b else None)"

lemma toy_timestamps [simp]: "an_timestamp entry_a = ''t1''" "an_timestamp entry_b = ''t2''"
  by (simp_all add: entry_a_def entry_b_def)

lemma toy_lines: "json_line toy_render toy_parse entry_a" "json_line toy_render toy_parse entry_b"
  by (simp_all add: json_line_def toy_render_def toy_parse_def whole_line_def blank_def trim_def is_space_def in_range_def)


theorem torn_first_line_poisons_witness:
  "\<exists>file' err. append_entry toy_mac toy_render toy_parse (\<lambda>_. False) Written (Inr ()) ''t1'' (Some ''{torn'') toy_key 1 ''h1''
      = (Inr (), Some file') \<and> read_entries toy_parse (\<lambda>_. False) (Some file') = Inl err"
proof (rule torn_first_line_poisons [where e = entry_a])
  show "entry_a = \<lparr>an_timestamp = ''t1'', an_last_id = 1, an_last_hash = ''h1'', an_prev = genesis_prev_anchor_hmac,
      an_hmac = compute_anchor_hmac toy_mac toy_key ''t1'' 1 ''h1'' genesis_prev_anchor_hmac\<rparr>"
    by (fact entry_a_def)
  show "json_line toy_render toy_parse entry_a" by (fact toy_lines(1))
qed (simp_all add: in_range_def toy_parse_def toy_render_def toy_timestamps blank_def trim_def is_space_def)

section \<open>The anchor and the chain\<close>

lemma anchored_row:
  assumes "verify_anchor_against_chain entries rows = []" and "e \<in> set entries"
  obtains r where "find (\<lambda>r. row_id r = an_last_id e) rows = Some r" and "row_hash r = an_last_hash e"
  using assms by (auto simp: verify_anchor_against_chain_def anchor_entry_issues_def split: option.splits if_splits)

text \<open>
  The anchored past is fixed: if an entry recorded the tail of a chain that verified, and a
  later database verifies under the same key and agrees with the anchor, then its first rows are
  the anchored ones, entry by entry and hash by hash, or two of the texts of the two databases collide under the MAC. Rewriting
  the whole chain with the key in hand does not get past an anchor entry.
\<close>

theorem anchored_prefix_fixed:
  assumes "verify_chain_with_key mac canon d (Hmac k) = Inr (Inr n)"
    and "last_chain_row d = Inr (Some (an_last_id e, an_last_hash e))"
    and "verify_chain_with_key mac canon d' (Hmac k) = Inr (Inr n')"
    and "e \<in> set entries" and "verify_anchor_against_chain entries (rows_by_id d') = []"
    and "json_objects canon (tool_calls d @ tool_calls d')"
    and "inj_on canon (row_entry ` set (tool_calls d @ tool_calls d'))"
  shows "(n \<le> n' \<and> map row_entry (rows_by_id d) = map row_entry (take n (rows_by_id d')) \<and>
      map row_hash (rows_by_id d) = map row_hash (take n (rows_by_id d'))) \<or>
    mac_collision mac k (maced_texts canon (tool_calls d @ tool_calls d'))"
proof -
  let ?xs = "rows_by_id d" and ?ys = "rows_by_id d'" and ?texts = "maced_texts canon (tool_calls d @ tool_calls d')"
  let ?f = "\<lambda>r. (stored_prev r, canon (row_entry r), row_hash r)"
  have acc: "chain_accepts mac canon k genesis_cursor ?xs" "chain_accepts mac canon k genesis_cursor ?ys" "n = length ?xs" "n' = length ?ys"
    using assms(1,3) by (auto simp: verify_chain_ok_iff)
  obtain r where r: "find (\<lambda>r. row_id r = an_last_id e) ?ys = Some r" "row_hash r = an_last_hash e"
    using anchored_row [OF assms(5,4)] by blast
  then obtain ys' zs where ys: "?ys = (ys' @ [r]) @ zs"
    using find_SomeD [OF r(1)] by (metis append.assoc append_Cons append_Nil split_list)
  then have pre: "chain_accepts mac canon k genesis_cursor (ys' @ [r])"
    using acc(2) chain.walk_prefix by metis
  have tail: "head_of row_hash genesis_prev_hash ?xs = an_last_hash e"
    using assms(2) by (cases ?xs rule: rev_cases)
      (auto simp: last_chain_row_def split: if_splits dest: arg_cong [of _ _ set])
  have wf: "\<forall>r \<in> set ?xs \<union> set (ys' @ [r]). chain_wf ?texts (stored_prev r) (canon (row_entry r))"
  proof -
    have "set (ys' @ [r]) \<subseteq> set ?ys" unfolding ys by auto
    then show ?thesis using both_wf [OF acc(1,2) assms(6)] by blast
  qed
  have "map ?f ?xs = map ?f (ys' @ [r]) \<or> mac_collision mac k ?texts"
    using chain.head_determines_log [OF acc(1) pre _ _ _ wf] tail r(2) by (simp add: genesis_cursor_def)
  then show ?thesis
  proof
    assume eq: "map ?f ?xs = map ?f (ys' @ [r])"
    then have len: "length ?xs = length (ys' @ [r])" by (rule map_eq_imp_length_eq)
    have tk: "take n ?ys = ys' @ [r]" using len acc(3) by (simp add: ys)
    have "map canon (map row_entry ?xs) = map canon (map row_entry (ys' @ [r]))"
      and hash: "map row_hash ?xs = map row_hash (ys' @ [r])"
      using arg_cong [OF eq, of "map (fst \<circ> snd)"] arg_cong [OF eq, of "map (snd \<circ> snd)"]
      by (simp_all add: comp_def)
    moreover have "set (ys' @ [r]) \<subseteq> set (tool_calls d')"
      using ys set_rows_by_id [of d'] by auto
    then have "inj_on canon (set (map row_entry ?xs) \<union> set (map row_entry (ys' @ [r])))"
      by (intro inj_on_subset [OF assms(7)]) auto
    ultimately have "map row_entry ?xs = map row_entry (ys' @ [r])" by (simp only: inj_on_map_eq_map)
    with hash tk len acc(3,4) ys show ?thesis by simp
  qed simp
qed

text \<open>
  C17. The anchor closes the chain's blind spot: rows removed from the end still verify as a chain,
  but if an anchor entry has seen the old tail, the cross-check names it, with no cryptographic
  assumption.
\<close>

theorem anchored_truncation_reported:
  assumes "verify_chain_with_key mac canon d (Hmac k) = Inr (Inr n)"
    and "last_chain_row d = Inr (Some (an_last_id e, an_last_hash e))"
    and "e \<in> set entries" and "rows_by_id d' = take m (rows_by_id d)" and "m < n"
  shows "(''anchor entry at '' @ an_timestamp e @ '' references chain row id '' @ show_int (an_last_id e)
      @ '', which no longer exists'') \<in> set (verify_anchor_against_chain entries (rows_by_id d'))"
proof -
  let ?xs = "rows_by_id d"
  have acc: "chain_accepts mac canon k genesis_cursor ?xs" and n: "n = length ?xs"
    using assms(1) by (auto simp: verify_chain_ok_iff)
  have last: "row_id (last ?xs) = an_last_id e" using assms(2) by (auto simp: last_chain_row_def split: if_splits)
  have "row_id (?xs ! i) \<noteq> an_last_id e" if "i < m" for i
  proof -
    have "row_id (?xs ! i) = row_id (hd ?xs) + int i"
      "row_id (?xs ! (n - 1)) = row_id (hd ?xs) + int (n - 1)"
      using accepted_ids_from_first [OF acc] that assms(5) n by auto
    moreover have "?xs \<noteq> []" using assms(5) n by auto
    ultimately show ?thesis using last that assms(5) n by (simp add: last_conv_nth)
  qed
  then have "find (\<lambda>r. row_id r = an_last_id e) (rows_by_id d') = None"
    by (auto simp: find_None_iff assms(4) in_set_conv_nth)
  with assms(3) show ?thesis
    by (auto simp: verify_anchor_against_chain_def anchor_entry_issues_def intro!: bexI [of _ e])
qed

definition toy_anchor_entry :: "string list \<Rightarrow> anchor_entry" where
  "toy_anchor_entry ts = \<lparr>an_timestamp = ''t'', an_last_id = int (length ts),
     an_last_hash = row_hash (last (toy_rows genesis_prev_hash 1 ts)), an_prev = genesis_prev_anchor_hmac,
     an_hmac = []\<rparr>"

lemma toy_tail: "ts \<noteq> [] \<Longrightarrow>
    last_chain_row (toy_db ts) = Inr (Some (an_last_id (toy_anchor_entry ts), an_last_hash (toy_anchor_entry ts)))"
proof -
  assume ne: "ts \<noteq> []"
  obtain m where m: "length ts = Suc m" using ne by (cases ts) auto
  then have "toy_rows genesis_prev_hash 1 ts \<noteq> []" by (metis length_toy_rows list.size(3) nat.distinct(1))
  then have "row_id (last (toy_rows genesis_prev_hash 1 ts)) = last (map row_id (toy_rows genesis_prev_hash 1 ts))"
    by (simp add: last_map)
  then have "row_id (last (toy_rows genesis_prev_hash 1 ts)) = int (length ts)"
    by (simp add: toy_rows_ids m)
  moreover have "tool_calls (toy_db ts) \<noteq> []" using ne by (cases ts) (simp_all add: toy_db_def Let_def)
  ultimately show ?thesis
    by (simp add: last_chain_row_def sql_def toy_anchor_entry_def) (simp add: toy_db_def empty_database_def)
qed

theorem anchored_prefix_fixed_witness:
  "map row_entry (rows_by_id (toy_db [''a''])) = map row_entry (take 1 (rows_by_id (toy_db [''a'', ''b''])))"
proof -
  let ?d = "toy_db [''a'']" and ?d' = "toy_db [''a'', ''b'']" and ?e = "toy_anchor_entry [''a'']"
  have inj: "inj_on toy_canon (row_entry ` set (tool_calls ?d @ tool_calls ?d'))"
    by (simp add: inj_on_def toy_canon_def toy_db_def Let_def sample_entry_def)
  have ok: "verify_anchor_against_chain [?e] (rows_by_id ?d') = []"
    by (simp add: verify_anchor_against_chain_def anchor_entry_issues_def toy_anchor_entry_def Let_def)
  from anchored_prefix_fixed [OF _ toy_tail _ _ ok _ inj, of toy_mac toy_key 1 2] show ?thesis by simp
qed

theorem anchored_truncation_reported_witness:
  "verify_anchor_against_chain [toy_anchor_entry [''a'', ''b'']] (rows_by_id (toy_db [''a''])) \<noteq> []"
proof -
  have "rows_by_id (toy_db [''a'']) = take 1 (rows_by_id (toy_db [''a'', ''b'']))" by (simp add: Let_def)
  from anchored_truncation_reported [OF toy_db_verifies toy_tail _ this, of "[toy_anchor_entry [''a'', ''b'']]"]
  show ?thesis by (auto dest: arg_cong [of _ _ set])
qed

end
