(* ===== verification/Heartbeat.thy ===== *)
theory Heartbeat
  imports Store "HOL-Library.List_Lexorder"
begin

text \<open>
  \<open>src/heartbeat.rs\<close>: the synthetic rows a session writes about itself, and the check for gaps
  between its heartbeats. \<open>parse_time\<close> is the parameter for \<open>chrono\<close>'s RFC 3339 parser, in
  nanoseconds; the JSON text of the argument structs is the parameter \<open>args\<close>. The float
  arithmetic \<open>(max as f64 * 1.5) as i64\<close> is exact below \<open>2 ^ 51\<close>, and written as integer
  arithmetic with the saturation of the final cast.
\<close>

definition heartbeat_tool_name :: string where "heartbeat_tool_name = ''__heartbeat''"
definition session_start_tool_name :: string where "session_start_tool_name = ''__session_start''"
definition session_end_tool_name :: string where "session_end_tool_name = ''__session_end''"
definition session_abandoned_tool_name :: string where "session_abandoned_tool_name = ''__session_abandoned''"

definition base_entry :: "string \<Rightarrow> string \<Rightarrow> string \<Rightarrow> string \<Rightarrow> string \<Rightarrow> tool_call_entry" where
  "base_entry now session_id server_name tool_name args_json =
     \<lparr>e_timestamp = now, e_session_id = session_id, e_agent_id = None, e_tool_name = tool_name,
      e_server_name = Some server_name, e_args_json = Some args_json, e_result_json = None,
      e_status = ''success'', e_error_message = None, e_duration_ms = None, e_bytes_in = None,
      e_bytes_out = None, e_source = None, e_destination = None, e_redaction_flags = Some ''[]'',
      e_redaction_count = 0, e_anomaly_score = None, e_anomaly_reasons = None\<rparr>"

text \<open>The argument structs, whose JSON text \<open>args\<close> gives (or \<open>{}\<close> if it fails).\<close>

datatype synthetic_args =
    HeartbeatArgs nat string
  | SessionStartArgs string string nat nat "string option"
  | SessionAbandonedArgs string string string string string
  | SessionEndArgs string string

definition args_text :: "(synthetic_args \<Rightarrow> string option) \<Rightarrow> synthetic_args \<Rightarrow> string" where
  "args_text args a = (case args a of Some t \<Rightarrow> t | None \<Rightarrow> ''{}'')"

definition heartbeat_entry ::
  "(synthetic_args \<Rightarrow> string option) \<Rightarrow> string \<Rightarrow> string \<Rightarrow> string \<Rightarrow> nat \<Rightarrow> string \<Rightarrow> tool_call_entry" where
  "heartbeat_entry args now session_id server_name counter expected_next_before =
     base_entry now session_id server_name heartbeat_tool_name
       (args_text args (HeartbeatArgs counter expected_next_before))"

definition session_start_entry ::
  "(synthetic_args \<Rightarrow> string option) \<Rightarrow> string \<Rightarrow> string \<Rightarrow> string \<Rightarrow> nat \<Rightarrow> nat \<Rightarrow> string option \<Rightarrow> tool_call_entry"
  where
  "session_start_entry args now session_id server_name cadence_min cadence_max lease_id =
     base_entry now session_id server_name session_start_tool_name
       (args_text args (SessionStartArgs session_id now cadence_min cadence_max lease_id))"

definition session_abandoned_entry ::
  "(synthetic_args \<Rightarrow> string option) \<Rightarrow> string \<Rightarrow> string \<Rightarrow> string option \<Rightarrow> string \<Rightarrow> string \<Rightarrow> string \<Rightarrow> string \<Rightarrow>
   tool_call_entry" where
  "session_abandoned_entry args now session_id server_name started_at last_known_alive_at detected_at lease_id =
     (base_entry now session_id (case server_name of Some s \<Rightarrow> s | None \<Rightarrow> []) session_abandoned_tool_name
       (args_text args (SessionAbandonedArgs session_id started_at last_known_alive_at detected_at lease_id)))
     \<lparr>e_server_name := server_name, e_timestamp := detected_at, e_status := ''recovered''\<rparr>"

definition session_end_entry :: "(synthetic_args \<Rightarrow> string option) \<Rightarrow> string \<Rightarrow> string \<Rightarrow> string \<Rightarrow> tool_call_entry" where
  "session_end_entry args now session_id server_name =
     base_entry now session_id server_name session_end_tool_name
       (args_text args (SessionEndArgs session_id now))"

section \<open>Gaps\<close>

record heartbeat_gap =
  hg_session :: string
  hg_after :: string
  hg_before :: string
  hg_secs :: int

text \<open>\<open>TimeDelta::num_seconds\<close> rounds towards zero.\<close>

definition num_seconds :: "int \<Rightarrow> int" where
  "num_seconds nanos = (if nanos < 0 then - (- nanos div 10 ^ 9) else nanos div 10 ^ 9)"

definition max_allowed_secs :: "nat \<Rightarrow> int" where
  "max_allowed_secs cadence_max_secs = min (int (3 * cadence_max_secs div 2)) (2 ^ 63 - 1)"

fun pair_gap :: "(string \<Rightarrow> int option) \<Rightarrow> int \<Rightarrow> stored_row \<Rightarrow> stored_row \<Rightarrow> heartbeat_gap list" where
  "pair_gap parse_time max_allowed a b =
     (case (parse_time (e_timestamp (row_entry a)), parse_time (e_timestamp (row_entry b))) of
        (Some ta, Some tb) \<Rightarrow>
          if max_allowed < num_seconds (tb - ta)
          then [\<lparr>hg_session = e_session_id (row_entry a), hg_after = e_timestamp (row_entry a),
                 hg_before = e_timestamp (row_entry b), hg_secs = num_seconds (tb - ta)\<rparr>]
          else []
      | _ \<Rightarrow> [])"

text \<open>\<open>windows(2)\<close>.\<close>

fun windows2 :: "'a list \<Rightarrow> ('a \<times> 'a) list" where
  "windows2 (a # b # xs) = (a, b) # windows2 (b # xs)"
| "windows2 _ = []"

definition session_heartbeats :: "stored_row list \<Rightarrow> string \<Rightarrow> stored_row list" where
  "session_heartbeats rows sid = sort_key row_id
     (filter (\<lambda>r. e_tool_name (row_entry r) = heartbeat_tool_name \<and> e_session_id (row_entry r) = sid) rows)"

definition heartbeat_sessions :: "stored_row list \<Rightarrow> string list" where
  "heartbeat_sessions rows =
     remdups (map (\<lambda>r. e_session_id (row_entry r)) (filter (\<lambda>r. e_tool_name (row_entry r) = heartbeat_tool_name) rows))"

text \<open>\<open>String::cmp\<close> compares bytes: \<open>str_key\<close> maps a string to a list ordered that way.\<close>

definition str_key :: "string \<Rightarrow> nat list" where
  "str_key s = map of_char s"

definition find_heartbeat_gaps :: "(string \<Rightarrow> int option) \<Rightarrow> stored_row list \<Rightarrow> nat \<Rightarrow> heartbeat_gap list" where
  "find_heartbeat_gaps parse_time rows cadence_max_secs =
     sort_key (\<lambda>g. str_key (hg_after g))
       (concat (map (\<lambda>sid. concat (map (\<lambda>(a, b). pair_gap parse_time (max_allowed_secs cadence_max_secs) a b)
          (windows2 (session_heartbeats rows sid)))) (heartbeat_sessions rows)))"

lemma ex_nat_split: "(\<exists>i. P i) \<longleftrightarrow> P 0 \<or> (\<exists>i. P (Suc i))"
  by (metis not0_implies_Suc)

lemma set_windows2: "(a, b) \<in> set (windows2 xs) \<longleftrightarrow> (\<exists>i. Suc i < length xs \<and> a = xs ! i \<and> b = xs ! Suc i)"
proof (induction xs rule: windows2.induct)
  case (1 x y xs)
  have "(\<exists>i. Suc i < length (x # y # xs) \<and> a = (x # y # xs) ! i \<and> b = (x # y # xs) ! Suc i) \<longleftrightarrow>
      (a = x \<and> b = y) \<or> (\<exists>i. Suc i < length (y # xs) \<and> a = (y # xs) ! i \<and> b = (y # xs) ! Suc i)"
    by (subst ex_nat_split) auto
  with 1 show ?case by auto
qed auto

lemma pair_gap_iff:
  "g \<in> set (pair_gap parse_time m a b) \<longleftrightarrow>
    (\<exists>ta tb. parse_time (e_timestamp (row_entry a)) = Some ta \<and> parse_time (e_timestamp (row_entry b)) = Some tb \<and>
       m < num_seconds (tb - ta) \<and> hg_session g = e_session_id (row_entry a) \<and>
       hg_after g = e_timestamp (row_entry a) \<and> hg_before g = e_timestamp (row_entry b) \<and>
       hg_secs g = num_seconds (tb - ta))"
  by (cases g; cases "parse_time (e_timestamp (row_entry a))"; cases "parse_time (e_timestamp (row_entry b))") auto

lemma set_session_heartbeats:
  "h \<in> set (session_heartbeats rows sid) \<longleftrightarrow>
     h \<in> set rows \<and> e_tool_name (row_entry h) = heartbeat_tool_name \<and> e_session_id (row_entry h) = sid"
  by (auto simp: session_heartbeats_def)

lemma gap_mem:
  "g \<in> set (find_heartbeat_gaps parse_time rows cadence_max) \<longleftrightarrow>
    (\<exists>sid \<in> set (heartbeat_sessions rows). \<exists>a b. (a, b) \<in> set (windows2 (session_heartbeats rows sid)) \<and>
       g \<in> set (pair_gap parse_time (max_allowed_secs cadence_max) a b))"
  by (auto simp: find_heartbeat_gaps_def simp del: pair_gap.simps)

text \<open>
  C21. The gap check is sound and complete: a gap is reported exactly for two heartbeats of one
  session that are consecutive in id order, have readable timestamps, and lie further apart than
  one and a half times the longest cadence.
\<close>

theorem heartbeat_gaps_exact:
  "g \<in> set (find_heartbeat_gaps parse_time rows cadence_max) \<longleftrightarrow>
    (\<exists>i ta tb. let hs = session_heartbeats rows (hg_session g) in
       Suc i < length hs \<and>
       hg_after g = e_timestamp (row_entry (hs ! i)) \<and> hg_before g = e_timestamp (row_entry (hs ! Suc i)) \<and>
       parse_time (hg_after g) = Some ta \<and> parse_time (hg_before g) = Some tb \<and>
       hg_secs g = num_seconds (tb - ta) \<and> max_allowed_secs cadence_max < hg_secs g)"
    (is "?l \<longleftrightarrow> ?r")
proof
  have sess: "e_session_id (row_entry h) = sid" if "h \<in> set (session_heartbeats rows sid)" for h sid
    using that by (simp add: session_heartbeats_def)
  {
    assume ?l
    then obtain sid i where i: "Suc i < length (session_heartbeats rows sid)"
      "g \<in> set (pair_gap parse_time (max_allowed_secs cadence_max) (session_heartbeats rows sid ! i) (session_heartbeats rows sid ! Suc i))"
      by (auto simp: find_heartbeat_gaps_def set_windows2 simp del: pair_gap.simps)
    moreover have "hg_session g = sid"
      using i sess [of "session_heartbeats rows sid ! i" sid] by (auto simp: pair_gap_iff simp del: pair_gap.simps)
    ultimately show ?r
      by (intro exI [of _ i]) (auto simp: Let_def pair_gap_iff simp del: pair_gap.simps)
  next
    assume ?r
    then obtain i ta tb where i: "Suc i < length (session_heartbeats rows (hg_session g))"
      "hg_after g = e_timestamp (row_entry (session_heartbeats rows (hg_session g) ! i))"
      "hg_before g = e_timestamp (row_entry (session_heartbeats rows (hg_session g) ! Suc i))"
      "parse_time (hg_after g) = Some ta" "parse_time (hg_before g) = Some tb"
      "hg_secs g = num_seconds (tb - ta)" "max_allowed_secs cadence_max < hg_secs g"
      by (auto simp: Let_def)
    let ?a = "session_heartbeats rows (hg_session g) ! i" and ?b = "session_heartbeats rows (hg_session g) ! Suc i"
    have a: "?a \<in> set (session_heartbeats rows (hg_session g))" using i(1) by simp
    then have "hg_session g \<in> set (heartbeat_sessions rows)"
      using sess [OF a] by (auto simp: set_session_heartbeats heartbeat_sessions_def intro!: image_eqI [of _ _ ?a])
    moreover have "(?a, ?b) \<in> set (windows2 (session_heartbeats rows (hg_session g)))"
      unfolding set_windows2 using i(1) by (intro exI [of _ i]) simp
    moreover have "g \<in> set (pair_gap parse_time (max_allowed_secs cadence_max) ?a ?b)"
      unfolding pair_gap_iff
      by (intro exI [of _ ta] exI [of _ tb] conjI)
        (simp_all only: i(2,3) [symmetric] i(4,5,7) i(6) [symmetric] sess [OF a])
    ultimately show ?l
      unfolding gap_mem by (intro bexI [of _ "hg_session g"] exI [of _ ?a] exI [of _ ?b] conjI)
  }
qed

end
