(* ===== verification/Bootstrap.thy ===== *)
theory Bootstrap
  imports Metadata Keys
begin

text \<open>
  \<open>src/chain.rs\<close>: the decision, once per start, which chain a database holds, and the creation of
  a fresh one. The files are explicit: a database or nothing at \<open>db_path\<close>, the bytes or nothing at
  \<open>key_path\<close>. Whatever another process does between the check for the file and its opening is
  the argument \<open>opened\<close>: the contents the connection finds.
\<close>

datatype chain_mode = HmacMode (cm_chain_key: bytes) (cm_anchor_key: bytes) (cm_min: nat) (cm_max: nat)

fun mode_hash_key :: "chain_mode \<Rightarrow> hash_key" where
  "mode_hash_key (HmacMode chain_key anchor_key mn mx) = Hmac chain_key"

fun mode_anchor_key :: "chain_mode \<Rightarrow> bytes option" where
  "mode_anchor_key (HmacMode chain_key anchor_key mn mx) = Some anchor_key"

fun mode_heartbeat_cadence :: "chain_mode \<Rightarrow> nat \<times> nat" where
  "mode_heartbeat_cadence (HmacMode chain_key anchor_key mn mx) = (mn, mx)"

record genesis_settings =
  gs_cadence_min :: nat
  gs_cadence_max :: nat
  gs_heartbeat_enabled :: bool
  gs_anchor_enabled :: bool

definition default_genesis :: genesis_settings where
  "default_genesis = \<lparr>gs_cadence_min = 30, gs_cadence_max = 90, gs_heartbeat_enabled = True, gs_anchor_enabled = True\<rparr>"

text \<open>The functions outside the program, and what the process is given: all parameters in one record.\<close>

record world =
  w_mac :: "bytes \<Rightarrow> bytes \<Rightarrow> bytes"
  w_canon :: "tool_call_entry \<Rightarrow> string option"
  w_hkdf :: hkdf
  w_key_render :: "key_file \<Rightarrow> string"
  w_key_parse :: "string \<Rightarrow> key_file option"
  w_key_io :: key_io
  w_now :: string
  w_uuid :: string
  w_root_key :: bytes
  w_key_appeared :: "bytes option"

definition verify_first_row :: "world \<Rightarrow> database \<Rightarrow> bytes \<Rightarrow> unit result" where
  "verify_first_row w d chain_key =
     (case verify_chain_with_key (w_mac w) (w_canon w) d (Hmac chain_key) of
        Inl e \<Rightarrow> Inl e
      | Inr (Inr n) \<Rightarrow> Inr ()
      | Inr (Inl issue) \<Rightarrow> Inl (Refused ''chain does not verify''))"

definition classify_existing_chain :: "world \<Rightarrow> database \<Rightarrow> bytes option \<Rightarrow> chain_mode result" where
  "classify_existing_chain w d keyfile =
     and_then (read_chain_metadata d) (\<lambda>metadata. case metadata of
       Some m \<Rightarrow>
         if is_supported_hmac_version (cm_hmac_version m)
         then and_then (load_key (w_key_parse w) (w_key_io w) keyfile) (\<lambda>k. case k of
                None \<Rightarrow> Inl (Refused ''chain key is missing'')
              | Some key \<Rightarrow>
                  and_then (derive_subkeys (w_hkdf w) key (cm_db_uuid m)) (\<lambda>(chain_key, anchor_key).
                  and_then (verify_chain_metadata_hmac (w_mac w) d chain_key m) (\<lambda>ok.
                  if \<not> ok then Inl (Refused ''chain_metadata failed HMAC verification'')
                  else and_then (verify_first_row w d chain_key) (\<lambda>_.
                    Inr (HmacMode chain_key anchor_key
                      (case cm_cadence_min m of Some n \<Rightarrow> n | None \<Rightarrow> 30)
                      (case cm_cadence_max m of Some n \<Rightarrow> n | None \<Rightarrow> 90))))))
         else if cm_hmac_version m \<noteq> None then Inl (Refused ''unknown hmac_version'')
         else Inl (Refused ''no usable chain_metadata'')
     | None \<Rightarrow> Inl (Refused ''no usable chain_metadata''))"

definition bootstrap_fresh_chain ::
  "world \<Rightarrow> database \<Rightarrow> bytes option \<Rightarrow> genesis_settings \<Rightarrow> chain_mode result \<times> database \<times> bytes option" where
  "bootstrap_fresh_chain w d keyfile genesis =
     (case load_or_generate (w_key_render w) (w_key_parse w) (w_key_io w) (w_now w) (w_root_key w)
             keyfile (w_key_appeared w) (w_uuid w) of
        (Inl e, keyfile') \<Rightarrow> (Inl e, d, keyfile')
      | (Inr key, keyfile') \<Rightarrow>
          (case derive_subkeys (w_hkdf w) key (w_uuid w) of
             Inl e \<Rightarrow> (Inl e, d, keyfile')
           | Inr (chain_key, anchor_key) \<Rightarrow>
               (case write_chain_metadata_genesis (w_mac w) d (w_now w) chain_key (w_uuid w)
                       (gs_cadence_min genesis) (gs_cadence_max genesis)
                       (gs_heartbeat_enabled genesis) (gs_anchor_enabled genesis) of
                  (Inl e, d') \<Rightarrow> (Inl e, d', keyfile')
                | (Inr _, d') \<Rightarrow>
                    (Inr (HmacMode chain_key anchor_key (gs_cadence_min genesis) (gs_cadence_max genesis)),
                     d', keyfile'))))"

text \<open>
  After a failed genesis: adopt the chain another process made, or remove the files. The result
  database is \<open>None\<close> when they are removed.
\<close>

definition recover_or_clean_up ::
  "world \<Rightarrow> database \<Rightarrow> error \<Rightarrow> bytes option \<Rightarrow> chain_mode result \<times> database option" where
  "recover_or_clean_up w d e keyfile =
     (case read_chain_metadata d of
        Inr (Some m) \<Rightarrow>
          if cm_hmac_version m \<noteq> None then (classify_existing_chain w d keyfile, Some d) else (Inl e, None)
      | _ \<Rightarrow> (Inl e, None))"

text \<open>
  \<open>open_for_write\<close> creates the file and the schema if there is none; it opens what is there by
  then (\<open>opened\<close>), and can fail.
\<close>

definition bootstrap ::
  "world \<Rightarrow> bool \<Rightarrow> database result \<Rightarrow> bytes option \<Rightarrow> genesis_settings \<Rightarrow>
   chain_mode result \<times> database option \<times> bytes option" where
  "bootstrap w db_existed opened keyfile genesis =
     (case opened of
        Inl e \<Rightarrow> (Inl e, None, keyfile)
      | Inr d \<Rightarrow>
          if \<not> db_existed
          then (case bootstrap_fresh_chain w d keyfile genesis of
                  (Inr mode, d', keyfile') \<Rightarrow> (Inr mode, Some d', keyfile')
                | (Inl e, d', keyfile') \<Rightarrow>
                    (let (r, d'') = recover_or_clean_up w d' e keyfile' in (r, d'', keyfile')))
          else (classify_existing_chain w d keyfile, Some d, keyfile))"

end
