(* ===== verification/BootstrapProps.thy ===== *)
theory BootstrapProps
  imports Bootstrap WriterProps
begin

text \<open>
  What a start promises: a chain is only ever run keyed and verified, a chain created at one
  start is found again by the next one under the same keys, and a lost race never deletes the
  winner's database.
\<close>

lemma read_metadata_uuid:
  "read_chain_metadata d = Inr (Some m) \<Longrightarrow> chain_metadata d ''db_uuid'' = Some (cm_db_uuid m)"
  by (auto simp: read_chain_metadata_def and_then_Inr split: option.splits)

lemma genesis_refused_over_existing:
  assumes "chain_metadata d ''db_uuid'' \<noteq> None"
  shows "\<exists>e. write_chain_metadata_genesis mac d now k u mn mx hb an = (Inl e, d)"
  using assms by (auto simp: write_chain_metadata_genesis_def genesis_rows_def sql_def)

lemma fresh_over_existing:
  assumes "chain_metadata d ''db_uuid'' \<noteq> None"
  shows "\<exists>e keyfile'. bootstrap_fresh_chain w d keyfile gs = (Inl e, d, keyfile')"
proof -
  obtain r keyfile' where lg: "load_or_generate (w_key_render w) (w_key_parse w) (w_key_io w) (w_now w) (w_root_key w)
      keyfile (w_key_appeared w) (w_uuid w) = (r, keyfile')" by fastforce
  show ?thesis
  proof (cases r)
    case (Inr key)
    show ?thesis
    proof (cases "derive_subkeys (w_hkdf w) key (w_uuid w)")
      case (Inr ks)
      obtain ck ak where "ks = (ck, ak)" by fastforce
      with lg Inr \<open>r = Inr key\<close> genesis_refused_over_existing [OF assms, of "w_mac w" "w_now w" ck "w_uuid w"
          "gs_cadence_min gs" "gs_cadence_max gs" "gs_heartbeat_enabled gs" "gs_anchor_enabled gs"]
      show ?thesis by (auto simp: bootstrap_fresh_chain_def)
    qed (use lg Inr in \<open>simp add: bootstrap_fresh_chain_def\<close>)
  qed (use lg in \<open>simp add: bootstrap_fresh_chain_def\<close>)
qed

text \<open>
  A process that lost the race to create the database never removes the winner's: if what it
  opened has a readable genesis, the database is left exactly as it was and the result is the
  winner's chain, classified like any existing one.
\<close>

theorem lost_race_keeps_database:
  assumes "read_chain_metadata d = Inr (Some m)" and "cm_hmac_version m \<noteq> None"
  shows "\<exists>keyfile'. bootstrap w False (Inr d) keyfile gs = (classify_existing_chain w d keyfile', Some d, keyfile')"
proof -
  obtain e keyfile' where "bootstrap_fresh_chain w d keyfile gs = (Inl e, d, keyfile')"
    using fresh_over_existing read_metadata_uuid [OF assms(1)] by (metis option.distinct(1))
  with assms show ?thesis by (simp add: bootstrap_def recover_or_clean_up_def)
qed

lemma classify_sound:
  assumes "classify_existing_chain w d keyfile = Inr mode"
  shows "\<exists>m n. read_chain_metadata d = Inr (Some m) \<and> is_supported_hmac_version (cm_hmac_version m) \<and>
    verify_chain_metadata_hmac (w_mac w) d (cm_chain_key mode) m = Inr True \<and>
    verify_chain_with_key (w_mac w) (w_canon w) d (mode_hash_key mode) = Inr (Inr n)"
proof -
  obtain metadata where r: "read_chain_metadata d = Inr metadata"
    using assms by (cases "read_chain_metadata d") (simp_all add: classify_existing_chain_def)
  obtain m where m: "metadata = Some m"
    using assms r by (cases metadata) (simp_all add: classify_existing_chain_def)
  have sup: "is_supported_hmac_version (cm_hmac_version m)"
    using assms r m by (simp add: classify_existing_chain_def split: if_splits)
  obtain key where key: "load_key (w_key_parse w) (w_key_io w) keyfile = Inr (Some key)"
    using assms r m sup
    by (cases "load_key (w_key_parse w) (w_key_io w) keyfile") (auto simp: classify_existing_chain_def split: option.splits)
  obtain ck ak where ks: "derive_subkeys (w_hkdf w) key (cm_db_uuid m) = Inr (ck, ak)"
    using assms r m sup key
    by (cases "derive_subkeys (w_hkdf w) key (cm_db_uuid m)") (auto simp: classify_existing_chain_def)
  have ok: "verify_chain_metadata_hmac (w_mac w) d ck m = Inr True"
    using assms r m sup key ks
    by (cases "verify_chain_metadata_hmac (w_mac w) d ck m") (simp_all add: classify_existing_chain_def split: if_splits)
  have first: "verify_first_row w d ck = Inr ()" "cm_chain_key mode = ck" "mode_hash_key mode = Hmac ck"
    using assms r m sup key ks ok
    by (cases "verify_first_row w d ck"; auto simp: classify_existing_chain_def)+
  then obtain n where "verify_chain_with_key (w_mac w) (w_canon w) d (Hmac ck) = Inr (Inr n)"
    by (auto simp: verify_first_row_def split: sum.splits)
  with r m sup ok first show ?thesis by auto
qed

lemma fresh_result:
  assumes "bootstrap_fresh_chain w d keyfile gs = (Inr mode, d', keyfile')"
  obtains key ck ak where "load_or_generate (w_key_render w) (w_key_parse w) (w_key_io w) (w_now w) (w_root_key w)
      keyfile (w_key_appeared w) (w_uuid w) = (Inr key, keyfile')"
    and "derive_subkeys (w_hkdf w) key (w_uuid w) = Inr (ck, ak)"
    and "write_chain_metadata_genesis (w_mac w) d (w_now w) ck (w_uuid w) (gs_cadence_min gs) (gs_cadence_max gs)
      (gs_heartbeat_enabled gs) (gs_anchor_enabled gs) = (Inr (), d')"
    and "mode = HmacMode ck ak (gs_cadence_min gs) (gs_cadence_max gs)"
  using assms by (auto simp: bootstrap_fresh_chain_def split: prod.splits sum.splits)

text \<open>The metadata genesis leaves, as the start that follows will read it.\<close>

lemma genesis_reads_back:
  assumes "write_chain_metadata_genesis mac d now k u mn mx hb an = (Inr (), d')"
    and "mn < 2 ^ 64" and "mx < 2 ^ 64" and "\<forall>l n. \<not> sql_fails d l n"
  shows "read_chain_metadata d' = Inr (Some \<lparr>cm_db_uuid = u, cm_hmac_version = Some ''2'', cm_cadence_min = Some mn,
      cm_cadence_max = Some mx, cm_created_at = Some now, cm_heartbeat_enabled = Some hb, cm_anchor_enabled = Some an\<rparr>)"
    and "cm_db_uuid m = u \<Longrightarrow> verify_chain_metadata_hmac mac d' k m = Inr True"
    and "tool_calls d' = tool_calls d" and "sql_fails d' = sql_fails d"
proof -
  note d' = genesis_metadata_result [OF assms(1)]
  have rows: "chain_metadata d' ''db_uuid'' = Some u" "chain_metadata d' ''hmac_version'' = Some ''2''"
    "chain_metadata d' ''heartbeat_cadence_min_secs'' = Some (show_nat mn)"
    "chain_metadata d' ''heartbeat_cadence_max_secs'' = Some (show_nat mx)"
    "chain_metadata d' ''heartbeat_enabled'' = Some (show_bool hb)"
    "chain_metadata d' ''anchor_enabled'' = Some (show_bool an)"
    "chain_metadata d' ''created_at'' = Some now"
    "chain_metadata d' ''metadata_hmac'' =
      Some (compute_metadata_hmac mac k u ''2'' (show_nat mn) (show_nat mx) (Some (show_bool hb, show_bool an)))"
    "sql_fails d' = sql_fails d" "tool_calls d' = tool_calls d"
    unfolding d' by (simp_all add: genesis_rows_def current_hmac_version_def)
  have get: "chain_metadata_get d' key = Inr (chain_metadata d' key)" for key
    using assms(4) rows(9) by simp
  show "read_chain_metadata d' = Inr (Some \<lparr>cm_db_uuid = u, cm_hmac_version = Some ''2'', cm_cadence_min = Some mn,
      cm_cadence_max = Some mx, cm_created_at = Some now, cm_heartbeat_enabled = Some hb, cm_anchor_enabled = Some an\<rparr>)"
    using assms(2,3) by (simp add: read_chain_metadata_def get rows)
  show "cm_db_uuid m = u \<Longrightarrow> verify_chain_metadata_hmac mac d' k m = Inr True"
    by (simp add: verify_chain_metadata_hmac_def get rows)
  show "tool_calls d' = tool_calls d" "sql_fails d' = sql_fails d" by (rule rows(10), rule rows(9))
qed

lemma verify_empty: "tool_calls d = [] \<Longrightarrow> \<forall>l n. \<not> sql_fails d l n \<Longrightarrow>
    verify_chain_with_key mac canon d (Hmac k) = Inr (Inr 0)"
  by (simp add: verify_chain_with_key_def read_all_rows_def sql_def rows_by_id_def)

text \<open>
  There is no unkeyed third way: whenever a start succeeds, whichever branch it took, the
  database it will write to has supported metadata that verifies under the session's chain key,
  and every row in it verifies under that key.
\<close>

theorem bootstrap_only_verified_chains:
  assumes "bootstrap w db_existed (Inr d) keyfile gs = (Inr mode, db', keyfile')"
    and "gs_cadence_min gs < 2 ^ 64" and "gs_cadence_max gs < 2 ^ 64" and "\<forall>l n. \<not> sql_fails d l n"
    and "db_existed \<or> chain_metadata d ''db_uuid'' \<noteq> None \<or> tool_calls d = []"
  shows "\<exists>d' m n. db' = Some d' \<and> read_chain_metadata d' = Inr (Some m) \<and>
    is_supported_hmac_version (cm_hmac_version m) \<and>
    verify_chain_metadata_hmac (w_mac w) d' (cm_chain_key mode) m = Inr True \<and>
    verify_chain_with_key (w_mac w) (w_canon w) d' (mode_hash_key mode) = Inr (Inr n)"
proof (cases "db_existed")
  case True
  with assms(1) classify_sound [of w d keyfile mode] show ?thesis by (auto simp: bootstrap_def)
next
  case False
  show ?thesis
  proof (cases "bootstrap_fresh_chain w d keyfile gs")
    case (fields r d1 keyfile1)
    show ?thesis
    proof (cases r)
      case (Inl e)
      have "d1 = d"
        using fields Inl genesis_metadata_rolls_back
        by (auto simp: bootstrap_fresh_chain_def split: prod.splits sum.splits)
      with False fields Inl assms(1) classify_sound [of w d keyfile1 mode] show ?thesis
        by (auto simp: bootstrap_def recover_or_clean_up_def split: sum.splits option.splits if_splits)
    next
      case (Inr mode')
      from fresh_result [OF fields [unfolded Inr]] obtain ck ak where
        g: "write_chain_metadata_genesis (w_mac w) d (w_now w) ck (w_uuid w) (gs_cadence_min gs) (gs_cadence_max gs)
          (gs_heartbeat_enabled gs) (gs_anchor_enabled gs) = (Inr (), d1)"
        and mode': "mode' = HmacMode ck ak (gs_cadence_min gs) (gs_cadence_max gs)" by metis
      have "tool_calls d = []"
        using assms(5) False g genesis_refused_over_existing [of d] by (metis Inl_Inr_False prod.inject)
      moreover have "mode = mode'" "db' = Some d1"
        using False fields Inr assms(1) by (simp_all add: bootstrap_def)
      ultimately show ?thesis
        using genesis_reads_back [OF g assms(2,3,4)] verify_empty [of d1] assms(4) mode'
        by (simp add: is_supported_hmac_version_def supported_hmac_versions_def)
    qed
  qed
qed

text \<open>
  Restart: a fresh chain is found again by the next start, with the same two keys derived from
  the key file and the cadence fixed at genesis, whatever the settings, clock and random values of
  the second start are; and the second start changes nothing.
\<close>

theorem bootstrap_restart:
  assumes "bootstrap w False (Inr d) keyfile gs = (Inr mode, Some d', keyfile')"
    and "tool_calls d = []" and "chain_metadata d = Map.empty" and "\<forall>l n. \<not> sql_fails d l n"
    and "gs_cadence_min gs < 2 ^ 64" and "gs_cadence_max gs < 2 ^ 64"
    and "w_key_parse w (w_key_render w (generate (w_now w) (w_root_key w) (w_uuid w))) = Some (generate (w_now w) (w_root_key w) (w_uuid w))"
    and "w_mac v = w_mac w" and "w_canon v = w_canon w" and "w_hkdf v = w_hkdf w"
    and "w_key_parse v = w_key_parse w" and "\<not> w_key_io v ''read key file''"
  shows "bootstrap v True (Inr d') keyfile' gs' = (Inr mode, Some d', keyfile') \<and>
    mode_heartbeat_cadence mode = (gs_cadence_min gs, gs_cadence_max gs)"
proof (cases "bootstrap_fresh_chain w d keyfile gs")
  case (fields r d1 keyfile1)
  have "r = Inr mode \<and> d1 = d' \<and> keyfile1 = keyfile'"
  proof (cases r)
    case (Inl e)
    have "d1 = d"
      using fields Inl genesis_metadata_rolls_back
      by (auto simp: bootstrap_fresh_chain_def split: prod.splits sum.splits)
    then have "read_chain_metadata d1 = Inr None"
      using assms(3,4) by (simp add: read_chain_metadata_def chain_metadata_get_def sql_def)
    with fields Inl assms(1) show ?thesis by (simp add: bootstrap_def recover_or_clean_up_def)
  qed (use fields assms(1) in \<open>simp add: bootstrap_def\<close>)
  then obtain key ck ak where
    lg: "load_or_generate (w_key_render w) (w_key_parse w) (w_key_io w) (w_now w) (w_root_key w)
      keyfile (w_key_appeared w) (w_uuid w) = (Inr key, keyfile')"
    and sub: "derive_subkeys (w_hkdf w) key (w_uuid w) = Inr (ck, ak)"
    and g: "write_chain_metadata_genesis (w_mac w) d (w_now w) ck (w_uuid w) (gs_cadence_min gs) (gs_cadence_max gs)
      (gs_heartbeat_enabled gs) (gs_anchor_enabled gs) = (Inr (), d')"
    and mode: "mode = HmacMode ck ak (gs_cadence_min gs) (gs_cadence_max gs)"
    using fresh_result fields by metis
  obtain raw where "keyfile' = Some raw" "w_key_parse w raw = Some key"
    using load_or_generate_on_disk_aux [OF lg assms(7)] by blast
  then have load: "load_key (w_key_parse v) (w_key_io v) keyfile' = Inr (Some key)"
    using assms(11,12) by (simp add: load_key_def)
  note rb = genesis_reads_back [OF g assms(5,6,4)]
  have "verify_chain_with_key (w_mac w) (w_canon w) d' (Hmac ck) = Inr (Inr 0)"
    using verify_empty rb(3,4) assms(2,4) by simp
  then have "verify_first_row v d' ck = Inr ()"
    using assms(8,9) by (simp add: verify_first_row_def)
  with load rb(1,2) sub mode assms(8,10) show ?thesis
    by (simp add: bootstrap_def classify_existing_chain_def is_supported_hmac_version_def supported_hmac_versions_def)
qed

section \<open>Witnesses\<close>

definition toy_world :: world where
  "toy_world = \<lparr>w_mac = toy_mac, w_canon = toy_canon, w_hkdf = (\<lambda>salt key info. info @ salt),
     w_key_render = sample_key_render, w_key_parse = sample_key_parse, w_key_io = (\<lambda>_. False),
     w_now = ''now'', w_uuid = ''u'', w_root_key = replicate 32 CHR ''r'', w_key_appeared = None\<rparr>"

lemma toy_world_fields [simp]:
  "w_mac toy_world = toy_mac" "w_canon toy_world = toy_canon" "w_key_render toy_world = sample_key_render"
  "w_key_parse toy_world = sample_key_parse" "w_key_io toy_world = (\<lambda>_. False)" "w_now toy_world = ''now''"
  "w_uuid toy_world = ''u''" "w_root_key toy_world = replicate 32 CHR ''r''" "w_key_appeared toy_world = None"
  by (simp_all add: toy_world_def)

lemma empty_no_fault: "\<forall>l n. \<not> sql_fails empty_database l n"
  by (simp add: empty_database_def)

lemma toy_bootstrap:
  obtains mode d' keyfile' where
    "bootstrap toy_world False (Inr empty_database) None default_genesis = (Inr mode, Some d', keyfile')"
proof -
  let ?rk = "replicate 32 CHR ''r''"
  let ?ck = "w_hkdf toy_world ''u'' ?rk chain_info" and ?ak = "w_hkdf toy_world ''u'' ?rk anchor_info"
  have lg: "load_or_generate sample_key_render sample_key_parse (\<lambda>_. False) ''now'' ?rk None None ''u''
      = (Inr (generate ''now'' ?rk ''u''), Some (sample_key_render (generate ''now'' ?rk ''u'')))"
    by (simp add: load_or_generate_def load_key_def save_new_def Let_def)
  have ks: "derive_subkeys (w_hkdf toy_world) (generate ''now'' ?rk ''u'') ''u'' = Inr (?ck, ?ak)"
    by (simp add: derive_subkeys_def root_key_generate)
  obtain d' where g: "write_chain_metadata_genesis toy_mac empty_database ''now'' ?ck ''u''
      (gs_cadence_min default_genesis) (gs_cadence_max default_genesis)
      (gs_heartbeat_enabled default_genesis) (gs_anchor_enabled default_genesis) = (Inr (), d')"
    by (simp add: write_chain_metadata_genesis_def genesis_rows_def sql_def empty_database_def)
  have "bootstrap_fresh_chain toy_world empty_database None default_genesis =
      (Inr (HmacMode ?ck ?ak (gs_cadence_min default_genesis) (gs_cadence_max default_genesis)), d',
       Some (sample_key_render (generate ''now'' ?rk ''u'')))"
    by (simp only: bootstrap_fresh_chain_def toy_world_fields lg ks g prod.case sum.case)
  then show ?thesis by (intro that) (simp add: bootstrap_def)
qed

theorem bootstrap_only_verified_chains_witness:
  "\<exists>mode d' keyfile' n. bootstrap toy_world False (Inr empty_database) None default_genesis = (Inr mode, Some d', keyfile')
     \<and> verify_chain_with_key toy_mac toy_canon d' (mode_hash_key mode) = Inr (Inr n)"
proof -
  obtain mode d' keyfile' where b: "bootstrap toy_world False (Inr empty_database) None default_genesis = (Inr mode, Some d', keyfile')"
    by (rule toy_bootstrap)
  from bootstrap_only_verified_chains [OF b _ _ empty_no_fault] b show ?thesis
    by (auto simp: default_genesis_def empty_database_def)
qed

theorem bootstrap_restart_witness:
  "\<exists>mode d' keyfile'. bootstrap toy_world False (Inr empty_database) None default_genesis = (Inr mode, Some d', keyfile')
     \<and> bootstrap (toy_world\<lparr>w_now := ''later'', w_uuid := ''other''\<rparr>) True (Inr d') keyfile' default_genesis = (Inr mode, Some d', keyfile')"
proof -
  obtain mode d' keyfile' where b: "bootstrap toy_world False (Inr empty_database) None default_genesis = (Inr mode, Some d', keyfile')"
    by (rule toy_bootstrap)
  have "tool_calls empty_database = []" "chain_metadata empty_database = Map.empty" by (simp_all add: empty_database_def)
  from bootstrap_restart [OF b this empty_no_fault, of "toy_world\<lparr>w_now := ''later'', w_uuid := ''other''\<rparr>" default_genesis] b
  show ?thesis by (simp add: default_genesis_def toy_world_def)
qed

theorem lost_race_keeps_database_witness:
  "\<exists>d m keyfile'. read_chain_metadata d = Inr (Some m) \<and>
     bootstrap toy_world False (Inr d) None default_genesis = (classify_existing_chain toy_world d keyfile', Some d, keyfile')"
proof -
  obtain d where g: "write_chain_metadata_genesis toy_mac empty_database ''now'' ''k'' ''u'' 30 90 True True = (Inr (), d)"
    by (simp add: write_chain_metadata_genesis_def genesis_rows_def sql_def empty_database_def)
  note rb = genesis_reads_back(1) [OF g _ _ empty_no_fault, simplified]
  from lost_race_keeps_database [OF rb, of toy_world None default_genesis] rb show ?thesis by auto
qed

end
