(* ===== verification/Verify.thy ===== *)
theory Verify
  imports Bootstrap Anchor Heartbeat Writer
begin

text \<open>
  \<open>src/verify.rs\<close>: the \<open>verify\<close> command as a decision over the database, the key file, the anchor
  file and the configuration. What it prints is not modelled; its outcome, and what it does to
  the database, are.
\<close>

datatype verify_outcome = Clean | Tampered | Drift | HeartbeatGap | AnchorChainBroken | AnchorMismatch | AuditGap

fun exit_code :: "verify_outcome \<Rightarrow> int" where
  "exit_code Clean = 0"
| "exit_code Tampered = 1"
| "exit_code Drift = 2"
| "exit_code HeartbeatGap = 3"
| "exit_code AnchorChainBroken = 4"
| "exit_code AnchorMismatch = 5"
| "exit_code AuditGap = 6"

text \<open>The settings the command reads, from the structs in \<open>src/config.rs\<close>.\<close>

record verify_config =
  vc_key_path :: string
  vc_heartbeat_enabled :: bool
  vc_cadence_max :: nat
  vc_anchor_enabled :: bool
  vc_anchor_path :: string

text \<open>What lies outside the database: functions of the libraries, files, and the faults of reading them.\<close>

record verify_env =
  v_mac :: "bytes \<Rightarrow> bytes \<Rightarrow> bytes"
  v_canon :: "tool_call_entry \<Rightarrow> string option"
  v_hkdf :: hkdf
  v_sha256 :: "bytes \<Rightarrow> bytes"
  v_key_parse :: "string \<Rightarrow> key_file option"
  v_key_io :: key_io
  v_parse_flags :: parse_flags
  v_parse_time :: "string \<Rightarrow> int option"
  v_anchor_parse :: "string \<Rightarrow> anchor_entry option"
  v_anchor_io :: io
  v_home :: "string option"
  v_files :: "string \<Rightarrow> bytes option"

definition load_hmac_key :: "verify_env \<Rightarrow> verify_config \<Rightarrow> string \<Rightarrow> (bytes \<times> bytes \<times> string) result" where
  "load_hmac_key v config db_uuid =
     and_then (expand_tilde (v_home v) (vc_key_path config)) (\<lambda>key_path.
     and_then (load_key (v_key_parse v) (v_key_io v) (v_files v key_path)) (\<lambda>k. case k of
       None \<Rightarrow> Inl (KeyFailed ''no key file'')
     | Some key \<Rightarrow>
         and_then (derive_subkeys (v_hkdf v) key db_uuid) (\<lambda>(chain_key, anchor_key).
         and_then (fingerprint (v_sha256 v) key) (\<lambda>fp.
           Inr (chain_key, anchor_key, fp)))))"

definition heartbeat_check_enabled :: "verify_config \<Rightarrow> chain_meta \<Rightarrow> bool" where
  "heartbeat_check_enabled config m \<longleftrightarrow>
     vc_heartbeat_enabled config \<or> (case cm_heartbeat_enabled m of Some b \<Rightarrow> b | None \<Rightarrow> False)"

definition anchor_check_enabled :: "verify_config \<Rightarrow> chain_meta \<Rightarrow> bool" where
  "anchor_check_enabled config m \<longleftrightarrow>
     vc_anchor_enabled config \<or> (case cm_anchor_enabled m of Some b \<Rightarrow> b | None \<Rightarrow> False)"

definition cadence_for_check :: "verify_config \<Rightarrow> chain_meta \<Rightarrow> nat" where
  "cadence_for_check config m = (case cm_cadence_max m of Some n \<Rightarrow> n | None \<Rightarrow> vc_cadence_max config)"

definition finish_anchor ::
  "verify_env \<Rightarrow> verify_config \<Rightarrow> chain_meta \<Rightarrow> bytes \<Rightarrow> stored_row list \<Rightarrow> verify_outcome result" where
  "finish_anchor v config m anchor_key rows =
     (if anchor_check_enabled config m
      then and_then (resolve_anchor_path (v_home v) (vc_anchor_path config)) (\<lambda>anchor_path.
           and_then (read_entries (v_anchor_parse v) (v_anchor_io v) (v_files v anchor_path)) (\<lambda>entries.
           if entries = [] then Inr Clean
           else case verify_anchor_chain (v_mac v) entries anchor_key of
                  Some issue \<Rightarrow> Inr AnchorChainBroken
                | None \<Rightarrow>
                    if verify_anchor_against_chain entries rows \<noteq> [] then Inr AnchorMismatch else Inr Clean))
      else Inr Clean)"

definition finish_clean ::
  "verify_env \<Rightarrow> verify_config \<Rightarrow> chain_meta \<Rightarrow> bytes \<Rightarrow> database \<Rightarrow> verify_outcome result" where
  "finish_clean v config m anchor_key d =
     and_then (read_all_rows d) (\<lambda>rows.
       if length (filter (\<lambda>row. e_tool_name (row_entry row) = audit_gap_tool_name) rows) > 0 then Inr AuditGap
       else if heartbeat_check_enabled config m \<and>
               find_heartbeat_gaps (v_parse_time v) rows (cadence_for_check config m) \<noteq> []
            then Inr HeartbeatGap
            else finish_anchor v config m anchor_key rows)"

text \<open>From the point where the chain has been verified: the index, and the repair if asked for.\<close>

definition check_index ::
  "verify_env \<Rightarrow> verify_config \<Rightarrow> bool \<Rightarrow> bool \<Rightarrow> chain_meta \<Rightarrow> bytes \<Rightarrow> database \<Rightarrow>
   verify_outcome result \<times> database" where
  "check_index v config repair_index yes m anchor_key d =
     (case check_redaction_consistency (v_parse_flags v) d of
        Inl e \<Rightarrow> (Inl e, d)
      | Inr drift \<Rightarrow>
          if drift = [] then (finish_clean v config m anchor_key d, d)
          else if \<not> repair_index then (Inr Drift, d)
          else if \<not> yes
          then (and_then (plan_redaction_repair (v_parse_flags v) d) (\<lambda>plan. Inr Drift), d)
          else (case apply_redaction_repair (v_parse_flags v) d of
                  (Inl e, d') \<Rightarrow> (Inl e, d')
                | (Inr plan, d') \<Rightarrow>
                    (case check_redaction_consistency (v_parse_flags v) d' of
                       Inl e \<Rightarrow> (Inl e, d')
                     | Inr remaining \<Rightarrow>
                         if remaining = [] then (finish_clean v config m anchor_key d', d')
                         else (Inr Drift, d'))))"

text \<open>A database with metadata of a supported version: its key, its metadata MAC, its chain.\<close>

definition verify_keyed ::
  "verify_env \<Rightarrow> verify_config \<Rightarrow> bool \<Rightarrow> bool \<Rightarrow> chain_meta \<Rightarrow> database \<Rightarrow> verify_outcome result \<times> database" where
  "verify_keyed v config repair_index yes m d =
     (case load_hmac_key v config (cm_db_uuid m) of
        Inl e \<Rightarrow> (Inr Drift, d)
      | Inr (chain_key, anchor_key, fp) \<Rightarrow>
          (case verify_chain_metadata_hmac (v_mac v) d chain_key m of
             Inl e \<Rightarrow> (Inl e, d)
           | Inr ok \<Rightarrow>
               if \<not> ok then (Inr Tampered, d)
               else (case verify_chain_with_key (v_mac v) (v_canon v) d (Hmac chain_key) of
                       Inl e \<Rightarrow> (Inl e, d)
                     | Inr (Inl issue) \<Rightarrow> (Inr Tampered, d)
                     | Inr (Inr n) \<Rightarrow> check_index v config repair_index yes m anchor_key d)))"

definition run_verify ::
  "verify_env \<Rightarrow> verify_config result \<Rightarrow> bool \<Rightarrow> bool \<Rightarrow> database \<Rightarrow> verify_outcome result \<times> database" where
  "run_verify v loaded_config repair_index yes d =
     (if yes \<and> \<not> repair_index then (Inl (Invalid ''--yes only applies to --repair-index''), d)
      else case loaded_config of
        Inl e \<Rightarrow> (Inl e, d)
      | Inr config \<Rightarrow>
          (case and_then (sql d ''open database'' 0 ()) (\<lambda>_. read_chain_metadata d) of
             Inl e \<Rightarrow> (Inl e, d)
           | Inr None \<Rightarrow> (Inr Tampered, d)
           | Inr (Some m) \<Rightarrow>
               if is_supported_hmac_version (cm_hmac_version m)
               then verify_keyed v config repair_index yes m d
               else if cm_hmac_version m \<noteq> None then (Inr Drift, d)
               else (Inr Tampered, d)))"

lemma exit_code_inject: "exit_code a = exit_code b \<longleftrightarrow> a = b"
  by (cases a; cases b) simp_all

section \<open>Properties\<close>

text \<open>
  Exit codes tell the outcomes apart, and zero means clean.
\<close>

theorem exit_codes_distinct: "inj exit_code \<and> (\<forall>r. exit_code r = 0 \<longleftrightarrow> r = Clean)"
proof -
  have "exit_code r = 0 \<longleftrightarrow> r = Clean" for r by (cases r) simp_all
  then show ?thesis by (auto simp: inj_def exit_code_inject)
qed

lemma verify_chain_only_calls:
  "tool_calls d' = tool_calls d \<Longrightarrow> sql_fails d' = sql_fails d \<Longrightarrow>
     verify_chain_with_key mac canon d' key = verify_chain_with_key mac canon d key"
  by (simp add: verify_chain_with_key_def read_all_rows_def sql_def rows_by_id_def)

lemma finish_clean_Clean:
  assumes "finish_clean v config m anchor_key d = Inr Clean"
  shows "(\<forall>row \<in> set (tool_calls d). e_tool_name (row_entry row) \<noteq> audit_gap_tool_name) \<and>
    (\<not> heartbeat_check_enabled config m \<or> find_heartbeat_gaps (v_parse_time v) (rows_by_id d) (cadence_for_check config m) = []) \<and>
    (\<not> anchor_check_enabled config m \<or> (\<exists>path entries. resolve_anchor_path (v_home v) (vc_anchor_path config) = Inr path \<and>
       read_entries (v_anchor_parse v) (v_anchor_io v) (v_files v path) = Inr entries \<and>
       verify_anchor_chain (v_mac v) entries anchor_key = None \<and>
       verify_anchor_against_chain entries (rows_by_id d) = []))"
proof -
  have rows: "read_all_rows d = Inr (rows_by_id d)"
    using assms by (auto simp: finish_clean_def and_then_Inr read_all_rows_def)
  with assms have gap: "\<forall>row \<in> set (tool_calls d). e_tool_name (row_entry row) \<noteq> audit_gap_tool_name"
    and hb: "\<not> heartbeat_check_enabled config m \<or> find_heartbeat_gaps (v_parse_time v) (rows_by_id d) (cadence_for_check config m) = []"
    and anc: "finish_anchor v config m anchor_key (rows_by_id d) = Inr Clean"
    by (auto simp: finish_clean_def filter_empty_conv split: if_splits)
  have "\<exists>path entries. resolve_anchor_path (v_home v) (vc_anchor_path config) = Inr path \<and>
       read_entries (v_anchor_parse v) (v_anchor_io v) (v_files v path) = Inr entries \<and>
       verify_anchor_chain (v_mac v) entries anchor_key = None \<and>
       verify_anchor_against_chain entries (rows_by_id d) = []" if "anchor_check_enabled config m"
    using anc that
    by (auto simp: finish_anchor_def and_then_Inr verify_anchor_chain_def verify_anchor_against_chain_def
        split: if_splits option.splits)
  with gap hb show ?thesis by blast
qed

end
