(* ===== verification/VerifyProps.thy ===== *)
theory VerifyProps
  imports Verify BootstrapProps AnchorProps
begin

text \<open>
  What a verdict of \<open>verify\<close> means: \<open>Clean\<close> establishes every check, no outcome changes more than
  the derived index, and editing the configuration cannot switch off a check that the chain was
  created with.
\<close>

lemma apply_only_index: "only_index_changed d (snd (apply_redaction_repair parse d))"
proof -
  have "only_index_changed a b" if "exec_stmts a n ss = Inr b" for a n ss b
    using that
  proof (induction a n ss rule: exec_stmts.induct)
    case (2 a n s ss)
    then show ?case by (auto simp: and_then_Inr intro: only_index_changed_trans [OF exec_stmt_only_index])
  qed (simp add: only_index_changed_def)
  then show ?thesis
    by (auto simp: apply_redaction_repair_def and_then_Inr only_index_changed_def split: sum.splits)
qed

lemma check_index_only_index: "only_index_changed d (snd (check_index v config repair yes m k d))"
  using apply_only_index [of d "v_parse_flags v"]
  by (auto simp: check_index_def only_index_changed_def split: sum.splits prod.splits)

lemma check_index_reads: "\<not> (repair \<and> yes) \<Longrightarrow> snd (check_index v config repair yes m k d) = d"
  by (auto simp: check_index_def split: sum.splits)

text \<open>Where a run ends up once the chain has been verified.\<close>

lemma run_verify_cases:
  obtains (early) r where "run_verify v cfg repair yes d = (r, d)" and "r \<noteq> Inr Clean"
  | (checked) config m ck ak fp n where "cfg = Inr config" and "read_chain_metadata d = Inr (Some m)"
    and "is_supported_hmac_version (cm_hmac_version m)" and "load_hmac_key v config (cm_db_uuid m) = Inr (ck, ak, fp)"
    and "verify_chain_metadata_hmac (v_mac v) d ck m = Inr True"
    and "verify_chain_with_key (v_mac v) (v_canon v) d (Hmac ck) = Inr (Inr n)"
    and "run_verify v cfg repair yes d = check_index v config repair yes m ak d"
proof (cases "yes \<and> \<not> repair")
  case True
  then show ?thesis by (intro early) (auto simp: run_verify_def verify_keyed_def)
next
  case ry: False
  show ?thesis
  proof (cases cfg)
    case (Inl e)
    with ry show ?thesis by (intro early) (auto simp: run_verify_def verify_keyed_def)
  next
    case cfg: (Inr config)
    show ?thesis
    proof (cases "and_then (sql d ''open database'' 0 ()) (\<lambda>_. read_chain_metadata d)")
      case (Inl e)
      with ry cfg show ?thesis by (intro early) (auto simp: run_verify_def verify_keyed_def)
    next
      case meta: (Inr mo)
      show ?thesis
      proof (cases mo)
        case None
        with ry cfg meta show ?thesis by (intro early) (auto simp: run_verify_def verify_keyed_def)
      next
        case mo: (Some m)
        show ?thesis
        proof (cases "is_supported_hmac_version (cm_hmac_version m)")
          case False
          with ry cfg meta mo show ?thesis
            by (cases "cm_hmac_version m"; intro early) (auto simp: run_verify_def verify_keyed_def)
        next
          case sup: True
          show ?thesis
          proof (cases "load_hmac_key v config (cm_db_uuid m)")
            case (Inl e)
            with ry cfg meta mo sup show ?thesis by (intro early) (auto simp: run_verify_def verify_keyed_def)
          next
            case (Inr ks)
            obtain ck ak fp where ks: "ks = (ck, ak, fp)" by (cases ks)
            note keys = Inr [unfolded ks]
            show ?thesis
            proof (cases "verify_chain_metadata_hmac (v_mac v) d ck m")
              case (Inl e)
              with ry cfg meta mo sup keys show ?thesis by (intro early) (auto simp: run_verify_def verify_keyed_def)
            next
              case ok: (Inr ok)
              show ?thesis
              proof (cases ok)
                case False
                with ry cfg meta mo sup keys ok show ?thesis by (intro early) (auto simp: run_verify_def verify_keyed_def)
              next
                case True
                show ?thesis
                proof (cases "verify_chain_with_key (v_mac v) (v_canon v) d (Hmac ck)")
                  case (Inl e)
                  with ry cfg meta mo sup keys ok True show ?thesis by (intro early) (auto simp: run_verify_def verify_keyed_def)
                next
                  case ch: (Inr verdict)
                  show ?thesis
                  proof (cases verdict)
                    case (Inl issue)
                    with ry cfg meta mo sup keys ok True ch show ?thesis by (intro early) (auto simp: run_verify_def verify_keyed_def)
                  next
                    case (Inr n)
                    have "read_chain_metadata d = Inr (Some m)" using meta mo by (simp add: and_then_Inr)
                    with ry cfg meta mo sup keys ok True ch Inr show ?thesis
                      by (intro checked [of config m ck ak fp n]) (auto simp: run_verify_def verify_keyed_def)
                  qed
                qed
              qed
            qed
          qed
        qed
      qed
    qed
  qed
qed

text \<open>
  The command never touches the audit record: whatever the outcome, at most the derived index
  differs afterwards, and without \<open>--repair-index --yes\<close> nothing does.
\<close>

theorem verify_touches_index_only:
  "only_index_changed d (snd (run_verify v cfg repair yes d)) \<and>
   (repair \<and> yes \<or> snd (run_verify v cfg repair yes d) = d)"
proof (cases rule: run_verify_cases [of v cfg repair yes d])
  case (early r)
  then show ?thesis by (simp add: only_index_changed_def)
next
  case (checked config m ck ak fp n)
  then show ?thesis by (simp add: check_index_only_index) (metis check_index_reads)
qed

lemma check_index_Clean:
  assumes "check_index v config repair yes m ak d = (Inr Clean, d')"
  shows "check_redaction_consistency (v_parse_flags v) d' = Inr [] \<and> finish_clean v config m ak d' = Inr Clean"
  using assms
  by (auto simp: check_index_def and_then_Inr split: sum.splits if_splits prod.splits)

text \<open>
  C9. What \<open>Clean\<close> (exit code 0) means: the metadata is supported and verifies under the loaded
  key, every row verifies, the index holds exactly the recorded hits, no row is a gap marker, and
  the heartbeat and anchor checks, where the configuration or the genesis enables them, found
  nothing; the anchor file then verifies as a chain and agrees with the rows.
\<close>

theorem verify_clean_sound:
  assumes "run_verify v (Inr config) repair yes d = (Inr Clean, d')" and "call_keys_ok d"
  shows "\<exists>m ck ak fp n. read_chain_metadata d' = Inr (Some m) \<and>
    is_supported_hmac_version (cm_hmac_version m) \<and> load_hmac_key v config (cm_db_uuid m) = Inr (ck, ak, fp) \<and>
    verify_chain_metadata_hmac (v_mac v) d' ck m = Inr True \<and>
    verify_chain_with_key (v_mac v) (v_canon v) d' (Hmac ck) = Inr (Inr n) \<and>
    (\<forall>i. index_of d' i = recorded_hits (v_parse_flags v) d' i) \<and>
    (\<forall>row \<in> set (tool_calls d'). e_tool_name (row_entry row) \<noteq> audit_gap_tool_name) \<and>
    (\<not> heartbeat_check_enabled config m \<or>
       find_heartbeat_gaps (v_parse_time v) (rows_by_id d') (cadence_for_check config m) = []) \<and>
    (\<not> anchor_check_enabled config m \<or> (\<exists>path entries.
       resolve_anchor_path (v_home v) (vc_anchor_path config) = Inr path \<and>
       read_entries (v_anchor_parse v) (v_anchor_io v) (v_files v path) = Inr entries \<and>
       verify_anchor_chain (v_mac v) entries ak = None \<and>
       verify_anchor_against_chain entries (rows_by_id d') = []))"
proof (cases rule: run_verify_cases [of v "Inr config" repair yes d])
  case (early r)
  with assms(1) show ?thesis by simp
next
  case (checked config' m ck ak fp n)
  then have cfg: "config' = config" by simp
  have ci: "check_index v config repair yes m ak d = (Inr Clean, d')"
    using checked(7) assms(1) cfg by simp
  have same: "only_index_changed d d'"
    using check_index_only_index [of d v config repair yes m ak] ci by simp
  note fields = only_index_changed_fields [OF same]
  have get: "chain_metadata_get d' = chain_metadata_get d"
    by (simp add: fun_eq_iff chain_metadata_get_def sql_def fields)
  have meta: "read_chain_metadata d' = Inr (Some m)"
    using checked(2) unfolding read_chain_metadata_def get .
  have metamac: "verify_chain_metadata_hmac (v_mac v) d' ck m = Inr True"
    using checked(5) unfolding verify_chain_metadata_hmac_def get .
  have chainv: "verify_chain_with_key (v_mac v) (v_canon v) d' (Hmac ck) = Inr (Inr n)"
    using checked(6) verify_chain_only_calls fields by metis
  have check: "check_redaction_consistency (v_parse_flags v) d' = Inr []" and fin: "finish_clean v config m ak d' = Inr Clean"
    using check_index_Clean [OF ci] by simp_all
  obtain st where "load_redaction_state (v_parse_flags v) d' = Inr st"
    using check by (auto simp: check_redaction_consistency_def and_then_Inr)
  moreover have "call_keys_ok d'" using assms(2) fields by (simp add: call_keys_ok_def)
  ultimately have "\<forall>i. index_of d' i = recorded_hits (v_parse_flags v) d' i"
    using redaction_check_sound check by blast
  with meta metamac chainv checked(3,4) cfg finish_clean_Clean [OF fin] show ?thesis by blast
qed

text \<open>
  A chain remembers which checks it was created with: when genesis enabled heartbeats and the
  anchor, the verdict does not depend on what the live configuration says about either, nor on
  the cadence it names.
\<close>

theorem verify_genesis_intent_wins:
  assumes "read_chain_metadata d = Inr (Some m)" and "cm_heartbeat_enabled m = Some True"
    and "cm_anchor_enabled m = Some True" and "cm_cadence_max m = Some mx"
  shows "run_verify v (Inr (config\<lparr>vc_heartbeat_enabled := hb, vc_anchor_enabled := an, vc_cadence_max := c\<rparr>)) repair yes d
    = run_verify v (Inr config) repair yes d"
proof -
  define c' where "c' = config\<lparr>vc_heartbeat_enabled := hb, vc_anchor_enabled := an, vc_cadence_max := c\<rparr>"
  have key: "load_hmac_key v c' u = load_hmac_key v config u" for u by (simp add: load_hmac_key_def c'_def)
  have "finish_anchor v c' m k rows = finish_anchor v config m k rows" for k rows
    using assms(3) by (simp add: finish_anchor_def anchor_check_enabled_def c'_def)
  moreover have "heartbeat_check_enabled c' m = heartbeat_check_enabled config m"
    "cadence_for_check c' m = cadence_for_check config m"
    using assms(2,4) by (simp_all add: heartbeat_check_enabled_def cadence_for_check_def c'_def)
  ultimately have fin: "finish_clean v c' m k = finish_clean v config m k" for k
    by (intro ext) (simp add: finish_clean_def cong: if_cong)
  have ci: "check_index v c' repair yes m = check_index v config repair yes m"
    unfolding check_index_def fin by (rule refl)
  have "verify_keyed v c' repair yes m d = verify_keyed v config repair yes m d"
    unfolding verify_keyed_def key ci by (rule refl)
  then have "run_verify v (Inr c') repair yes d = run_verify v (Inr config) repair yes d"
    using assms(1) by (cases "sql_fails d ''open database'' 0") (simp_all add: run_verify_def sql_def)
  then show ?thesis by (simp only: c'_def)
qed

text \<open>
  The order of the checks: one gap marker decides the outcome, whatever the heartbeats and the
  anchor file hold; an anchor that contradicts the database is then not reported.
\<close>

lemma gap_marker_masks_later_checks:
  assumes "read_all_rows d = Inr rows" and "row \<in> set rows"
    and "e_tool_name (row_entry row) = audit_gap_tool_name"
  shows "finish_clean v config m k d = Inr AuditGap"
  using assms by (auto simp: finish_clean_def filter_empty_conv)

section \<open>Witnesses\<close>

definition toy_env :: verify_env where
  "toy_env = \<lparr>v_mac = toy_mac, v_canon = toy_canon, v_hkdf = (\<lambda>salt key info. info @ salt), v_sha256 = (\<lambda>_. []),
     v_key_parse = sample_key_parse, v_key_io = (\<lambda>_. False), v_parse_flags = sample_parse,
     v_parse_time = (\<lambda>_. Some 0), v_anchor_parse = toy_parse, v_anchor_io = (\<lambda>_. False), v_home = None,
     v_files = (\<lambda>path. if path = ''key'' then Some ''K'' else None)\<rparr>"

definition toy_config :: verify_config where
  "toy_config = \<lparr>vc_key_path = ''key'', vc_heartbeat_enabled = False, vc_cadence_max = 1000,
     vc_anchor_enabled = False, vc_anchor_path = ''anchor''\<rparr>"

lemma toy_load: "load_hmac_key toy_env toy_config ''u'' = Inr (chain_info @ ''u'', anchor_info @ ''u'', [])"
  by (simp add: load_hmac_key_def expand_tilde_def toy_env_def toy_config_def strip_prefix_def starts_with_def
      load_key_def sample_key_parse_def derive_subkeys_def fingerprint_def root_key_generate)

lemma toy_verify_clean:
  obtains d where "run_verify toy_env (Inr toy_config) False False d = (Inr Clean, d)" and "call_keys_ok d"
    and "read_chain_metadata d = Inr (Some \<lparr>cm_db_uuid = ''u'', cm_hmac_version = Some ''2'', cm_cadence_min = Some 30,
      cm_cadence_max = Some 90, cm_created_at = Some ''now'', cm_heartbeat_enabled = Some True, cm_anchor_enabled = Some True\<rparr>)"
proof -
  let ?ck = "chain_info @ ''u''"
  obtain d where g: "write_chain_metadata_genesis toy_mac empty_database ''now'' ?ck ''u'' 30 90 True True = (Inr (), d)"
    by (simp add: write_chain_metadata_genesis_def genesis_rows_def sql_def empty_database_def)
  note rb = genesis_reads_back [OF g _ _ empty_no_fault, simplified]
  have d: "tool_calls d = []" "redactions d = []" "sql_fails d = (\<lambda>_ _. False)"
    using genesis_metadata_result [OF g] by (simp_all add: empty_database_def)
  have anchor: "finish_anchor toy_env toy_config m k [] = Inr Clean" for m k
    by (simp add: finish_anchor_def resolve_anchor_path_def toy_env_def toy_config_def expand_tilde_def
        strip_prefix_def starts_with_def read_entries_def)
  have rows: "read_all_rows d = Inr []"
    using d by (simp add: read_all_rows_def sql_def rows_by_id_def)
  have "finish_clean toy_env toy_config m k d = Inr Clean" for m k
    by (simp add: finish_clean_def rows find_heartbeat_gaps_def heartbeat_sessions_def anchor)
  moreover have "check_redaction_consistency p d = Inr []" for p
    by (simp add: check_redaction_consistency_def load_redaction_state_def sql_def d rows_by_id_def
        redactions_by_id_def load_actual_def all_ids_def)
  ultimately have "check_index toy_env toy_config False False m k d = (Inr Clean, d)" for m k
    by (simp add: check_index_def)
  moreover have "verify_chain_with_key (v_mac toy_env) c d (Hmac ?ck) = Inr (Inr 0)" for c
    by (rule verify_empty) (simp_all add: d)
  moreover have "v_mac toy_env = toy_mac" by (simp add: toy_env_def)
  ultimately have "run_verify toy_env (Inr toy_config) False False d = (Inr Clean, d)"
    using rb(1,2) d(3) toy_load
    by (simp add: run_verify_def verify_keyed_def is_supported_hmac_version_def supported_hmac_versions_def sql_def)
  moreover have "call_keys_ok d" by (simp add: call_keys_ok_def d)
  ultimately show ?thesis using that rb by blast
qed

theorem verify_clean_sound_witness:
  "\<exists>d m. run_verify toy_env (Inr toy_config) False False d = (Inr Clean, d) \<and> read_chain_metadata d = Inr (Some m)
     \<and> find_heartbeat_gaps (v_parse_time toy_env) (rows_by_id d) (cadence_for_check toy_config m) = []"
proof -
  obtain d where r: "run_verify toy_env (Inr toy_config) False False d = (Inr Clean, d)" "call_keys_ok d"
    "read_chain_metadata d = Inr (Some \<lparr>cm_db_uuid = ''u'', cm_hmac_version = Some ''2'', cm_cadence_min = Some 30,
      cm_cadence_max = Some 90, cm_created_at = Some ''now'', cm_heartbeat_enabled = Some True, cm_anchor_enabled = Some True\<rparr>)"
    by (rule toy_verify_clean)
  from verify_clean_sound [OF r(1,2)] r show ?thesis by (auto simp: heartbeat_check_enabled_def)
qed

theorem verify_genesis_intent_wins_witness:
  "\<exists>d. run_verify toy_env (Inr toy_config) False False d = (Inr Clean, d) \<and>
     run_verify toy_env (Inr (toy_config\<lparr>vc_heartbeat_enabled := True, vc_anchor_enabled := True, vc_cadence_max := 1\<rparr>)) False False d
       = (Inr Clean, d)"
proof -
  obtain d where r: "run_verify toy_env (Inr toy_config) False False d = (Inr Clean, d)" "call_keys_ok d"
    "read_chain_metadata d = Inr (Some \<lparr>cm_db_uuid = ''u'', cm_hmac_version = Some ''2'', cm_cadence_min = Some 30,
      cm_cadence_max = Some 90, cm_created_at = Some ''now'', cm_heartbeat_enabled = Some True, cm_anchor_enabled = Some True\<rparr>)"
    by (rule toy_verify_clean)
  from verify_genesis_intent_wins [OF r(3), where mx = 90 and v = toy_env and config = toy_config and hb = True and an = True
      and c = 1 and repair = False and yes = False] r(1)
  show ?thesis by (auto simp: toy_config_def)
qed

end
