(* ===== verification/Forwarding.thy ===== *)
theory Forwarding
  imports Prelude
begin

text \<open>
  The contract of everything that forwards a byte stream while reading it: a step takes a chunk,
  lets some bytes out and may hold some back. The only law is that a step neither loses, invents
  nor reorders bytes; what follows from it for a whole stream is proved once, here.
\<close>

locale forwarder =
  fixes step :: "'s \<Rightarrow> string \<Rightarrow> string \<times> 's"
    and held :: "'s \<Rightarrow> string"
  assumes transparent: "fst (step s c) @ held (snd (step s c)) = held s @ c"
begin

fun run :: "'s \<Rightarrow> string list \<Rightarrow> string \<times> 's" where
  "run s [] = ([], s)"
| "run s (c # cs) = (let (out, s') = step s c; (outs, s'') = run s' cs in (out @ outs, s''))"

lemma run_transparent: "fst (run s cs) @ held (snd (run s cs)) = held s @ concat cs"
proof (induction cs arbitrary: s)
  case (Cons c cs)
  have "fst (run s (c # cs)) @ held (snd (run s (c # cs))) =
      fst (step s c) @ (fst (run (snd (step s c)) cs) @ held (snd (run (snd (step s c)) cs)))"
    by (simp add: Let_def case_prod_beta)
  also have "\<dots> = fst (step s c) @ (held (snd (step s c)) @ concat cs)"
    by (simp only: Cons.IH)
  also have "\<dots> = held s @ concat (c # cs)"
    using transparent [of s c] by (simp add: append_assoc [symmetric] del: append_assoc)
  finally show ?case .
qed simp

lemma flushed: "held s = [] \<Longrightarrow> fst (run s cs) @ held (snd (run s cs)) = concat cs"
  by (simp add: run_transparent)

lemma prefix_out: "held s = [] \<Longrightarrow> prefix (fst (run s cs)) (concat cs)"
  by (metis flushed prefixI)

end

end
