(* ===== verification/Sse.thy ===== *)
theory Sse
  imports Forwarding Utf8
begin

text \<open>
  \<open>src/http/sse.rs\<close>: the incremental parser for Server-Sent Events, and the rewriting of the
  legacy \<open>endpoint\<close> event. URIs are parsed by the \<open>http\<close> crate: \<open>parse_uri\<close> is a parameter.

  The lemmas show that the parser forwards every byte exactly once and in order whatever the
  chunks, holds back a bounded number of bytes, terminates on every input, and never interprets an
  event above its cap.
\<close>

definition max_sse_event_bytes :: nat where "max_sse_event_bytes = 1024 * 1024"
definition sse_terminator_lookbehind :: nat where "sse_terminator_lookbehind = 3"

lemma lookbehind_lt_max: "sse_terminator_lookbehind < max_sse_event_bytes"
  by (simp add: max_sse_event_bytes_def sse_terminator_lookbehind_def)

record sse_parser =
  sp_buf :: bytes
  sp_resyncing :: bool

definition new_parser :: sse_parser where
  "new_parser = \<lparr>sp_buf = [], sp_resyncing = False\<rparr>"

record sse_event =
  ev_raw :: bytes
  ev_name :: "string option"
  ev_data :: "string option"

definition passthrough :: "bytes \<Rightarrow> sse_event" where
  "passthrough raw = \<lparr>ev_raw = raw, ev_name = None, ev_data = None\<rparr>"

section \<open>Fields\<close>

definition strip_space :: "string \<Rightarrow> string" where
  "strip_space rest = (case strip_prefix rest '' '' of Some r \<Rightarrow> r | None \<Rightarrow> rest)"

text \<open>The loops over the lines: the last \<open>event:\<close> wins, the \<open>data:\<close> lines are joined.\<close>

definition field :: "bytes \<Rightarrow> string \<Rightarrow> string option" where
  "field event prefx =
     (if \<not> utf8_valid event then None
      else foldl (\<lambda>found line. case strip_prefix line prefx of Some rest \<Rightarrow> Some (strip_space rest) | None \<Rightarrow> found)
             None (lines event))"

definition data_payload :: "bytes \<Rightarrow> string option" where
  "data_payload event =
     (if \<not> utf8_valid event then None
      else let data = foldl (\<lambda>data line. case strip_prefix line ''data:'' of
               Some rest \<Rightarrow> (if data = [] then [] else data @ [CHR 0x0A]) @ strip_space rest
             | None \<Rightarrow> data) [] (lines event)
           in if data = [] then None else Some data)"

section \<open>The end of an event\<close>

text \<open>\<open>windows(n).position(...)\<close>: the first place where a pattern occurs.\<close>

fun find_window :: "string \<Rightarrow> string \<Rightarrow> nat option" where
  "find_window p [] = (if p = [] then Some 0 else None)"
| "find_window p (c # s) =
     (if starts_with (c # s) p then Some 0 else map_option Suc (find_window p s))"

definition terminators :: "string list" where
  "terminators = [[CHR 0x0D, CHR 0x0A, CHR 0x0D, CHR 0x0A], [CHR 0x0A, CHR 0x0D, CHR 0x0A], [CHR 0x0A, CHR 0x0A]]"

text \<open>\<open>min_by_key\<close> on the offset, then on the greater length.\<close>

fun earlier :: "nat \<times> nat \<Rightarrow> nat \<times> nat \<Rightarrow> bool" where
  "earlier (i, l) (j, m) \<longleftrightarrow> i < j \<or> (i = j \<and> m < l)"

fun best :: "(nat \<times> nat) list \<Rightarrow> (nat \<times> nat) option" where
  "best [] = None"
| "best (c # cs) = (case best cs of None \<Rightarrow> Some c | Some d \<Rightarrow> if earlier d c then Some d else Some c)"

definition find_event_end :: "bytes \<Rightarrow> (nat \<times> nat) option" where
  "find_event_end buf = best (concat (map (\<lambda>t. case find_window t buf of Some i \<Rightarrow> [(i, length t)] | None \<Rightarrow> []) terminators))"

lemma find_window_Some: "find_window p s = Some i \<Longrightarrow> i + length p \<le> length s \<and> take (length p) (drop i s) = p"
proof (induction p s arbitrary: i rule: find_window.induct)
  case (2 p c s)
  show ?case
  proof (cases "starts_with (c # s) p")
    case True
    with 2 have "i = 0" by simp
    moreover have "length p \<le> length (c # s)" using True by (metis starts_with_def length_take min.cobounded1 min.commute)
    ultimately show ?thesis using True by (simp add: starts_with_def)
  next
    case False
    with 2 show ?thesis by auto
  qed
qed (auto split: if_splits)

lemma best_mem: "best cs = Some c \<Longrightarrow> c \<in> set cs"
  by (induction cs arbitrary: c) (auto split: option.splits if_splits)

lemma find_event_end_bounds:
  assumes "find_event_end buf = Some (i, l)"
  shows "i + l \<le> length buf" and "2 \<le> l" and "l \<le> 4"
  using best_mem [OF assms [unfolded find_event_end_def]]
  by (auto simp: terminators_def dest!: find_window_Some [OF sym] split: option.splits)

section \<open>Feeding\<close>

definition parse_event :: "bytes \<Rightarrow> nat \<Rightarrow> sse_event" where
  "parse_event raw body_len =
     (if max_sse_event_bytes < length raw then passthrough raw
      else \<lparr>ev_raw = raw, ev_name = field (take body_len raw) ''event:'', ev_data = data_payload (take body_len raw)\<rparr>)"

text \<open>The inner loop: take complete events off the front of the buffer.\<close>

function drain_events :: "bytes \<Rightarrow> sse_event list \<times> bytes" where
  "drain_events buf =
     (case find_event_end buf of
        None \<Rightarrow> ([], buf)
      | Some (body_len, term_len) \<Rightarrow>
          (let (events, rest) = drain_events (drop (body_len + term_len) buf)
           in (parse_event (take (body_len + term_len) buf) body_len # events, rest)))"
  by auto
termination
proof (relation "measure length")
  fix buf :: bytes and x2 :: "nat \<times> nat" and i l
  assume "find_event_end buf = Some x2" and "(i, l) = x2"
  then show "(drop (i + l) buf, buf) \<in> measure length"
    using find_event_end_bounds [of buf i l] by auto
qed simp

declare drain_events.simps [simp del]

lemma drain_events_bytes: "concat (map ev_raw (fst (drain_events buf))) @ snd (drain_events buf) = buf"
proof (induction buf rule: drain_events.induct)
  case (1 buf)
  show ?case
  proof (cases "find_event_end buf")
    case (Some p)
    obtain i l where p: "p = (i, l)" by fastforce
    have "ev_raw (parse_event r b) = r" for r b by (simp add: parse_event_def passthrough_def)
    with 1 [OF Some p [symmetric]] Some p show ?thesis
      by (subst (1 2) drain_events.simps) (simp add: case_prod_beta)
  qed (simp add: drain_events.simps)
qed

lemma drain_events_length: "length (snd (drain_events buf)) \<le> length buf"
  by (metis drain_events_bytes length_append le_add2)

lemma drain_events_end: "find_event_end (snd (drain_events buf)) = None"
proof (induction buf rule: drain_events.induct)
  case (1 buf)
  show ?case
  proof (cases "find_event_end buf")
    case (Some p)
    obtain i l where p: "p = (i, l)" by fastforce
    with 1 [OF Some p [symmetric]] Some show ?thesis
      by (subst drain_events.simps) (simp add: case_prod_beta)
  qed (simp add: drain_events.simps)
qed

text \<open>
  The outer loop over (resyncing, buffer, rest of the chunk). The subtraction that gives \<open>room\<close>
  never underflows (\<open>feed_bounded\<close> below).
\<close>

definition room :: "bytes \<Rightarrow> nat" where
  "room buf = max_sse_event_bytes + 1 - length buf"

function feed_loop :: "bool \<Rightarrow> bytes \<Rightarrow> bytes \<Rightarrow> sse_event list \<times> sse_parser" where
  "feed_loop True buf rest =
     (let n = min (room buf) (length rest); buf1 = buf @ take n rest; rest1 = drop n rest in
      case find_event_end buf1 of
        Some (body_len, term_len) \<Rightarrow>
          (let (events, p) = feed_loop False (drop (body_len + term_len) buf1) rest1
           in (passthrough (take (body_len + term_len) buf1) # events, p))
      | None \<Rightarrow>
          (let emit_len = length buf1 - sse_terminator_lookbehind;
               emitted = (if 0 < emit_len then [passthrough (take emit_len buf1)] else []);
               buf2 = drop emit_len buf1
           in if rest1 = [] then (emitted, \<lparr>sp_buf = buf2, sp_resyncing = True\<rparr>)
              else (let (events, p) = feed_loop True buf2 rest1 in (emitted @ events, p))))"
| "feed_loop False buf rest =
     (let (drained, buf1) = drain_events buf in
      if max_sse_event_bytes < length buf1
      then (let emit_len = length buf1 - sse_terminator_lookbehind;
                (events, p) = feed_loop True (drop emit_len buf1) rest
            in (drained @ passthrough (take emit_len buf1) # events, p))
      else if rest = [] then (drained, \<lparr>sp_buf = buf1, sp_resyncing = False\<rparr>)
      else (let n = min (room buf1) (length rest);
                (events, p) = feed_loop False (buf1 @ take n rest) (drop n rest)
            in (drained @ events, p)))"
  by pat_completeness auto
termination
proof (relation "measures [\<lambda>(r, buf, rest). length rest, \<lambda>(r, buf, rest). length buf]", goal_cases)
  case 1
  show ?case by simp
next
  case (2 buf rest n buf1 rest1 emit_len emitted buf2)
  show ?case
  proof (cases "n = 0")
    case True
    with 2 have "room buf = 0" by (auto simp: min_def split: if_splits)
    then have "sse_terminator_lookbehind < length buf" using lookbehind_lt_max by (simp add: room_def)
    moreover have "0 < sse_terminator_lookbehind" by (simp add: sse_terminator_lookbehind_def)
    ultimately show ?thesis using 2 True by auto
  next
    case False
    with 2 show ?thesis by auto
  qed
next
  case (3 buf rest n buf1 rest1 p i l)
  have "find_event_end buf1 = Some (i, l)" using 3 by simp
  note b = find_event_end_bounds [OF this]
  show ?case
  proof (cases "n = 0")
    case True
    with 3 b show ?thesis by auto
  next
    case False
    with 3 show ?thesis by auto
  qed
next
  case (4 buf rest x drained buf1 emit_len)
  then have "length buf1 \<le> length buf" using drain_events_length [of buf] by (metis snd_conv)
  moreover have "length (drop emit_len buf1) < length buf1"
    using 4 lookbehind_lt_max by (simp add: sse_terminator_lookbehind_def)
  ultimately show ?case by simp
next
  case (5 buf rest x drained buf1 n)
  then have "0 < room buf1" by (simp add: room_def)
  with 5 show ?case by auto
qed

declare feed_loop.simps [simp del]

definition feed :: "sse_parser \<Rightarrow> bytes \<Rightarrow> sse_event list \<times> sse_parser" where
  "feed p chunk = feed_loop (sp_resyncing p) (sp_buf p) chunk"

definition take_remainder :: "sse_parser \<Rightarrow> bytes \<times> sse_parser" where
  "take_remainder p = (sp_buf p, p\<lparr>sp_buf := []\<rparr>)"

lemma room_no_underflow:
  "length buf \<le> max_sse_event_bytes + 1 \<Longrightarrow> length (buf @ take (min (room buf) (length rest)) rest) \<le> max_sse_event_bytes + 1"
  by (simp add: room_def)

text \<open>The steps of the loop as equations over opaque pieces.\<close>

lemma feed_resync_found:
  assumes "n = min (room buf) (length rest)" and "find_event_end (buf @ take n rest) = Some (i, l)"
  shows "feed_loop True buf rest =
    (passthrough (take (i + l) (buf @ take n rest)) # fst (feed_loop False (drop (i + l) (buf @ take n rest)) (drop n rest)),
     snd (feed_loop False (drop (i + l) (buf @ take n rest)) (drop n rest)))"
  using assms by (subst feed_loop.simps) (simp add: Let_def case_prod_beta del: take_append drop_append)

lemma feed_resync_more:
  assumes "n = min (room buf) (length rest)" and "find_event_end (buf @ take n rest) = None"
    and "m = length (buf @ take n rest) - sse_terminator_lookbehind"
  shows "feed_loop True buf rest =
    ((if 0 < m then [passthrough (take m (buf @ take n rest))] else []) @
       (if drop n rest = [] then [] else fst (feed_loop True (drop m (buf @ take n rest)) (drop n rest))),
     if drop n rest = [] then \<lparr>sp_buf = drop m (buf @ take n rest), sp_resyncing = True\<rparr>
     else snd (feed_loop True (drop m (buf @ take n rest)) (drop n rest)))"
  using assms by (subst feed_loop.simps) (simp add: Let_def case_prod_beta del: take_append drop_append drop_eq_Nil length_append)

lemma feed_parse_over:
  assumes "max_sse_event_bytes < length (snd (drain_events buf))"
    and "m = length (snd (drain_events buf)) - sse_terminator_lookbehind"
  shows "feed_loop False buf rest =
    (fst (drain_events buf) @ passthrough (take m (snd (drain_events buf))) #
       fst (feed_loop True (drop m (snd (drain_events buf))) rest),
     snd (feed_loop True (drop m (snd (drain_events buf))) rest))"
  using assms by (subst feed_loop.simps) (simp add: Let_def case_prod_beta)

lemma feed_parse_done:
  assumes "\<not> max_sse_event_bytes < length (snd (drain_events buf))"
  shows "feed_loop False buf [] = (fst (drain_events buf), \<lparr>sp_buf = snd (drain_events buf), sp_resyncing = False\<rparr>)"
  using assms by (subst feed_loop.simps) (simp add: Let_def case_prod_beta)

lemma feed_parse_more:
  assumes "\<not> max_sse_event_bytes < length (snd (drain_events buf))" and "rest \<noteq> []"
    and "n = min (room (snd (drain_events buf))) (length rest)"
  shows "feed_loop False buf rest =
    (fst (drain_events buf) @ fst (feed_loop False (snd (drain_events buf) @ take n rest) (drop n rest)),
     snd (feed_loop False (snd (drain_events buf) @ take n rest) (drop n rest)))"
  using assms by (subst feed_loop.simps) (simp add: Let_def case_prod_beta del: take_append drop_append)

text \<open>
  An induction rule over these steps: what holds of the two ways to stop and is kept by the four
  ways to go on holds of the result.
\<close>

lemma feed_loop_induct [case_names stop_resync found more over stop_parse fill]:
  assumes "\<And>buf rest n. \<lbrakk>n = min (room buf) (length rest); find_event_end (buf @ take n rest) = None; drop n rest = []\<rbrakk> \<Longrightarrow> P True buf rest"
    and "\<And>buf rest n i l. \<lbrakk>n = min (room buf) (length rest); find_event_end (buf @ take n rest) = Some (i, l);
      P False (drop (i + l) (buf @ take n rest)) (drop n rest)\<rbrakk> \<Longrightarrow> P True buf rest"
    and "\<And>buf rest n m. \<lbrakk>n = min (room buf) (length rest); find_event_end (buf @ take n rest) = None; drop n rest \<noteq> [];
      m = length (buf @ take n rest) - sse_terminator_lookbehind;
      P True (drop m (buf @ take n rest)) (drop n rest)\<rbrakk> \<Longrightarrow> P True buf rest"
    and "\<And>buf rest m. \<lbrakk>max_sse_event_bytes < length (snd (drain_events buf));
      m = length (snd (drain_events buf)) - sse_terminator_lookbehind;
      P True (drop m (snd (drain_events buf))) rest\<rbrakk> \<Longrightarrow> P False buf rest"
    and "\<And>buf. \<not> max_sse_event_bytes < length (snd (drain_events buf)) \<Longrightarrow> P False buf []"
    and "\<And>buf rest n. \<lbrakk>\<not> max_sse_event_bytes < length (snd (drain_events buf)); rest \<noteq> [];
      n = min (room (snd (drain_events buf))) (length rest);
      P False (snd (drain_events buf) @ take n rest) (drop n rest)\<rbrakk> \<Longrightarrow> P False buf rest"
  shows "P r buf rest"
proof (induction r buf rest rule: feed_loop.induct)
  case (1 buf rest)
  let ?n = "min (room buf) (length rest)"
  show ?case
  proof (cases "find_event_end (buf @ take ?n rest)")
    case (Some q)
    obtain i l where q: "q = (i, l)" by fastforce
    show ?thesis by (rule assms(2) [OF refl Some [unfolded q] "1.IH"(2) [OF refl refl refl Some q [symmetric]]])
  next
    case None
    show ?thesis
    proof (cases "drop ?n rest = []")
      case True
      show ?thesis by (rule assms(1) [OF refl None True])
    next
      case ne: False
      show ?thesis by (rule assms(3) [OF refl None ne refl "1.IH"(1) [OF refl refl refl None refl refl refl ne]])
    qed
  qed
next
  case (2 buf rest)
  show ?case
  proof (cases "max_sse_event_bytes < length (snd (drain_events buf))")
    case True
    show ?thesis by (rule assms(4) [OF True refl "2.IH"(1) [OF refl prod.collapse True refl]])
  next
    case False
    show ?thesis
    proof (cases "rest = []")
      case True
      then show ?thesis using assms(5) [OF False] by simp
    next
      case ne: False
      show ?thesis by (rule assms(6) [OF False ne refl "2.IH"(2) [OF refl prod.collapse False ne refl]])
    qed
  qed
qed

lemma ev_raw_passthrough [simp]: "ev_raw (passthrough x) = x"
  by (simp add: passthrough_def)

lemma split_bytes: "out @ hold = drop m x @ r \<Longrightarrow> x @ r = y \<Longrightarrow> take m x @ out @ hold = y"
  by (metis append.assoc append_take_drop_id)

lemma feed_loop_bytes:
  "concat (map ev_raw (fst (feed_loop r buf rest))) @ sp_buf (snd (feed_loop r buf rest)) = buf @ rest"
proof (induction r buf rest rule: feed_loop_induct)
  case (stop_resync buf rest n)
  have all: "buf @ take n rest = buf @ rest" using stop_resync(3) by simp
  define m where "m = length (buf @ rest) - sse_terminator_lookbehind"
  have "take m (buf @ rest) @ drop m (buf @ rest) = buf @ rest" by (rule append_take_drop_id)
  then show ?case
    unfolding feed_resync_more [OF stop_resync(1,2) refl] all m_def [symmetric]
    using stop_resync(3) by (simp del: take_append drop_append)
next
  case (found buf rest n i l)
  show ?case
    unfolding feed_resync_found [OF found(1,2)] fst_conv snd_conv list.map concat.simps ev_raw_passthrough append.assoc
    by (rule split_bytes [OF found(3)]) simp
next
  case (more buf rest n m)
  show ?case
  proof (cases "0 < m")
    case True
    with more(3) show ?thesis
      unfolding feed_resync_more [OF more(1,2,4)]
      by (simp only: fst_conv snd_conv if_True if_False map_append concat_append list.map concat.simps
          ev_raw_passthrough append.assoc append_Nil append_Nil2)
         (rule split_bytes [OF more(5)], simp)
  next
    case False
    with more(3,5) show ?thesis unfolding feed_resync_more [OF more(1,2,4)] by simp
  qed
next
  case (over buf rest m)
  have "take m (snd (drain_events buf)) @ concat (map ev_raw (fst (feed_loop True (drop m (snd (drain_events buf))) rest))) @
      sp_buf (snd (feed_loop True (drop m (snd (drain_events buf))) rest)) = snd (drain_events buf) @ rest"
    by (rule split_bytes [OF over(3) refl])
  then show ?case
    unfolding feed_parse_over [OF over(1,2)] using drain_events_bytes [of buf] by simp
next
  case (stop_parse buf)
  then show ?case using drain_events_bytes [of buf] by (simp add: feed_parse_done)
next
  case (fill buf rest n)
  have "(snd (drain_events buf) @ take n rest) @ drop n rest = snd (drain_events buf) @ rest" by simp
  with fill(4) show ?case
    unfolding feed_parse_more [OF fill(1,2,3)]
    using drain_events_bytes [of buf] by (simp del: append_take_drop_id)
qed

lemma feed_loop_bounded: "length (sp_buf (snd (feed_loop r buf rest))) \<le> max_sse_event_bytes"
proof (induction r buf rest rule: feed_loop_induct)
  case (stop_resync buf rest n)
  then show ?case using lookbehind_lt_max by (simp add: feed_resync_more del: take_append drop_append)
qed (simp_all add: feed_resync_found feed_resync_more feed_parse_over feed_parse_done feed_parse_more
      del: take_append drop_append)

definition within_cap :: "sse_event \<Rightarrow> bool" where
  "within_cap e \<longleftrightarrow> (ev_name e = None \<and> ev_data e = None) \<or> length (ev_raw e) \<le> max_sse_event_bytes"

lemma within_cap_passthrough [simp]: "within_cap (passthrough x)"
  by (simp add: within_cap_def passthrough_def)

lemma drain_events_within_cap: "list_all within_cap (fst (drain_events buf))"
proof (induction buf rule: drain_events.induct)
  case (1 buf)
  have "within_cap (parse_event r b)" for r b by (auto simp: within_cap_def parse_event_def passthrough_def)
  with 1 show ?case by (subst drain_events.simps) (auto simp: case_prod_beta split: option.split)
qed

lemma feed_loop_within_cap: "list_all within_cap (fst (feed_loop r buf rest))"
proof (induction r buf rest rule: feed_loop_induct)
qed (simp_all add: feed_resync_found feed_resync_more feed_parse_over feed_parse_done feed_parse_more
      drain_events_within_cap del: take_append drop_append)

interpretation sse: forwarder "\<lambda>p chunk. (concat (map ev_raw (fst (feed p chunk))), snd (feed p chunk))" sp_buf
  by unfold_locales (simp add: feed_def feed_loop_bytes)

section \<open>Terminators do not depend on what follows\<close>

definition occurs :: "string \<Rightarrow> string \<Rightarrow> nat \<Rightarrow> bool" where
  "occurs p s i \<longleftrightarrow> take (length p) (drop i s) = p"

lemma occurs_length: "occurs p s i \<Longrightarrow> p \<noteq> [] \<Longrightarrow> i + length p \<le> length s"
proof -
  assume "occurs p s i" "p \<noteq> []"
  then have "length (take (length p) (drop i s)) = length p" "0 < length p" by (simp_all add: occurs_def)
  then have "length p \<le> length s - i" "0 < length p" by (auto simp: min_def split: if_splits)
  then show ?thesis by linarith
qed

lemma find_window_spec:
  assumes "p \<noteq> []"
  shows "find_window p s = Some i \<longleftrightarrow> occurs p s i \<and> (\<forall>j < i. \<not> occurs p s j)"
proof (induction s arbitrary: i)
  case Nil
  then show ?case using assms by (simp add: occurs_def)
next
  case (Cons c s)
  show ?case
  proof (cases "starts_with (c # s) p")
    case True
    then have 0: "occurs p (c # s) 0" by (simp add: occurs_def starts_with_def)
    with True show ?thesis by (cases i) auto
  next
    case False
    then have 0: "\<not> occurs p (c # s) 0" by (simp add: occurs_def starts_with_def)
    show ?thesis
    proof (cases i)
      case (Suc k)
      have "(\<forall>j < Suc k. \<not> occurs p (c # s) j) \<longleftrightarrow> (\<forall>j < k. \<not> occurs p s j)"
        using 0 by (auto simp: occurs_def less_Suc_eq_0_disj)
      with False Suc Cons [of k] show ?thesis by (simp add: occurs_def)
    qed (use False 0 in simp)
  qed
qed

lemma find_window_exists: "p \<noteq> [] \<Longrightarrow> occurs p s j \<Longrightarrow> \<exists>i \<le> j. find_window p s = Some i"
proof -
  assume p: "p \<noteq> []" and "occurs p s j"
  then have "occurs p s (LEAST k. occurs p s k)" "(LEAST k. occurs p s k) \<le> j" by (auto intro: LeastI Least_le)
  moreover have "\<forall>k < (LEAST k. occurs p s k). \<not> occurs p s k" using not_less_Least by blast
  ultimately show ?thesis using find_window_spec [OF p] by blast
qed

lemma best_spec: "best cs = Some c \<Longrightarrow> c \<in> set cs \<and> (\<forall>d \<in> set cs. d = c \<or> earlier c d)"
proof (induction cs arbitrary: c)
  case (Cons x cs)
  have total: "earlier d x \<or> d = x \<or> earlier x d" for d by (cases d; cases x) auto
  have trans: "earlier a b \<Longrightarrow> earlier b c \<Longrightarrow> earlier a c" for a b c by (cases a; cases b; cases c) auto
  show ?case
  proof (cases "best cs")
    case None
    then have "cs = []" by (cases cs) (auto split: option.splits if_splits)
    with Cons.prems show ?thesis by simp
  next
    case (Some d)
    note ih = Cons.IH [OF Some]
    show ?thesis
    proof (cases "earlier d x")
      case True
      then have "c = d" using Cons.prems Some by simp
      with ih True show ?thesis by simp
    next
      case False
      then have c: "c = x" using Cons.prems Some by simp
      have "e = x \<or> earlier x e" if e: "e \<in> set cs" for e
      proof (cases "e = d")
        case True
        with total [of d] False show ?thesis by blast
      next
        case ne: False
        with ih e have "earlier d e" by blast
        with total [of d] False trans show ?thesis by blast
      qed
      with c show ?thesis by simp
    qed
  qed
qed simp

lemma best_None: "best cs = None \<longleftrightarrow> cs = []"
  by (cases cs) (auto split: option.splits if_splits)

lemma terminators_nonempty: "t \<in> set terminators \<Longrightarrow> t \<noteq> []"
  by (auto simp: terminators_def)

text \<open>No terminator lies inside another one before its end.\<close>

lemma terminators_no_overlap:
  assumes "t \<in> set terminators" and "t' \<in> set terminators" and "d + length t < length t'"
  shows "take (length t) (drop d t') \<noteq> t"
proof -
  have "d = 0 \<or> d = 1" using assms by (auto simp: terminators_def)
  with assms show ?thesis by (auto simp: terminators_def)
qed

lemma find_event_end_spec:
  assumes "find_event_end s = Some (i, l)"
  shows "\<exists>t \<in> set terminators. length t = l \<and> occurs t s i"
    and "\<forall>t \<in> set terminators. \<forall>j. occurs t s j \<longrightarrow> (j, length t) = (i, l) \<or> earlier (i, l) (j, length t)"
proof -
  let ?cs = "concat (map (\<lambda>t. case find_window t s of Some i \<Rightarrow> [(i, length t)] | None \<Rightarrow> []) terminators)"
  have b: "(i, l) \<in> set ?cs" "\<forall>d \<in> set ?cs. d = (i, l) \<or> earlier (i, l) d"
    using best_spec [of ?cs "(i, l)"] assms by (auto simp: find_event_end_def)
  then show "\<exists>t \<in> set terminators. length t = l \<and> occurs t s i"
    by (auto split: option.splits) (metis find_window_spec terminators_nonempty)
  show "\<forall>t \<in> set terminators. \<forall>j. occurs t s j \<longrightarrow> (j, length t) = (i, l) \<or> earlier (i, l) (j, length t)"
  proof (intro ballI allI impI)
    fix t j
    assume t: "t \<in> set terminators" "occurs t s j"
    then obtain k where k: "k \<le> j" "find_window t s = Some k"
      using find_window_exists terminators_nonempty by blast
    then have "(k, length t) \<in> set ?cs" using t(1) by force
    with b(2) k(1) show "(j, length t) = (i, l) \<or> earlier (i, l) (j, length t)" by fastforce
  qed
qed

lemma find_event_end_unique:
  assumes "t \<in> set terminators" and "occurs t s i"
    and "\<forall>t' \<in> set terminators. \<forall>j. occurs t' s j \<longrightarrow> (j, length t') = (i, length t) \<or> earlier (i, length t) (j, length t')"
  shows "find_event_end s = Some (i, length t)"
proof (cases "find_event_end s")
  case None
  obtain k where "find_window t s = Some k" using find_window_exists assms(1,2) terminators_nonempty by blast
  with None assms(1) show ?thesis by (auto simp: find_event_end_def best_None)
next
  case (Some p)
  obtain j l where p: "p = (j, l)" by fastforce
  note sp = find_event_end_spec [OF Some [unfolded p]]
  obtain t' where t': "t' \<in> set terminators" "length t' = l" "occurs t' s j" using sp(1) by blast
  have "(j, l) = (i, length t) \<or> earlier (i, length t) (j, l)" using assms(3) t' by blast
  moreover have "(i, length t) = (j, l) \<or> earlier (j, l) (i, length t)" using sp(2) assms(1,2) by blast
  ultimately show ?thesis using Some p by auto
qed

lemma find_event_end_append:
  assumes "find_event_end a = Some (i, l)"
  shows "find_event_end (a @ b) = Some (i, l)"
proof -
  obtain t where t: "t \<in> set terminators" "length t = l" "occurs t a i"
    using find_event_end_spec(1) [OF assms] by blast
  have il: "i + l \<le> length a" using occurs_length t terminators_nonempty by blast
  have occ: "occurs t (a @ b) i" using t il by (simp add: occurs_def)
  have "(j, length t') = (i, length t) \<or> earlier (i, length t) (j, length t')"
    if t': "t' \<in> set terminators" "occurs t' (a @ b) j" for t' j
  proof (cases "j + length t' \<le> length a")
    case True
    with t'(2) have "occurs t' a j" by (simp add: occurs_def)
    with find_event_end_spec(2) [OF assms] t t'(1) show ?thesis by blast
  next
    case False
    have "i < j"
    proof (rule ccontr)
      assume "\<not> i < j"
      then have d: "i - j + length t < length t'" using False il t(2) by simp
      have t_eq: "take (length t) (drop i (a @ b)) = t" and t'_eq: "take (length t') (drop j (a @ b)) = t'"
        using occ t'(2) by (simp_all only: occurs_def)
      have "drop i (a @ b) = drop (i - j) (drop j (a @ b))"
        using \<open>\<not> i < j\<close> by (simp only: drop_drop) simp
      then have "take (length t) (drop (i - j) (drop j (a @ b))) = t" using t_eq by (simp only:)
      moreover have "take (length t) (drop (i - j) xs) = take (length t) (drop (i - j) (take (length t') xs))" for xs :: bytes
        unfolding drop_take take_take using d by (simp add: min_absorb1)
      ultimately have "take (length t) (drop (i - j) t') = t" using t'_eq by metis
      then show False using terminators_no_overlap [OF t(1) t'(1) d] by blast
    qed
    then show ?thesis by simp
  qed
  then show ?thesis using find_event_end_unique [OF t(1) occ] t(2) by blast
qed

lemma drain_events_append:
  "drain_events (a @ b) =
     (fst (drain_events a) @ fst (drain_events (snd (drain_events a) @ b)), snd (drain_events (snd (drain_events a) @ b)))"
proof (induction a rule: drain_events.induct)
  case (1 a)
  show ?case
  proof (cases "find_event_end a")
    case None
    then have "drain_events a = ([], a)" by (subst drain_events.simps) simp
    then show ?thesis by simp
  next
    case (Some p)
    obtain i l where p: "p = (i, l)" by fastforce
    note fe = Some [unfolded p]
    have il: "i + l \<le> length a" using find_event_end_bounds(1) [OF fe] .
    note ih = 1 [OF Some p [symmetric]]
    have "drain_events (a @ b) =
        (parse_event (take (i + l) a) i # fst (drain_events (drop (i + l) a @ b)), snd (drain_events (drop (i + l) a @ b)))"
      using il by (subst drain_events.simps) (simp add: find_event_end_append [OF fe] case_prod_beta)
    moreover have "drain_events a =
        (parse_event (take (i + l) a) i # fst (drain_events (drop (i + l) a)), snd (drain_events (drop (i + l) a)))"
      by (subst drain_events.simps) (simp add: fe case_prod_beta)
    ultimately show ?thesis using ih by simp
  qed
qed

lemma feed_small:
  assumes "length (buf @ chunk) \<le> max_sse_event_bytes" and "find_event_end buf = None"
  shows "feed_loop False buf chunk =
    (fst (drain_events (buf @ chunk)), \<lparr>sp_buf = snd (drain_events (buf @ chunk)), sp_resyncing = False\<rparr>)"
proof -
  have buf: "drain_events buf = ([], buf)" using assms(2) by (subst drain_events.simps) simp
  have small: "\<not> max_sse_event_bytes < length (snd (drain_events (buf @ chunk)))"
    using drain_events_length [of "buf @ chunk"] assms(1) by linarith
  show ?thesis
  proof (cases "chunk = []")
    case True
    with small show ?thesis by (simp add: feed_parse_done)
  next
    case False
    have n: "min (room buf) (length chunk) = length chunk" using assms(1) by (simp add: room_def)
    have "\<not> max_sse_event_bytes < length buf" using assms(1) by simp
    with feed_parse_more [OF _ False refl, of buf] show ?thesis
      using feed_parse_done [OF small] by (simp add: buf n)
  qed
qed

section \<open>The endpoint event\<close>

text \<open>
  A parsed \<open>http::Uri\<close>. The parser of the \<open>http\<close> crate, its authority parser and the printing
  of reassembled parts are parameters.
\<close>

record uri_parts =
  u_scheme :: "string option"
  u_authority :: "string option"
  u_path_and_query :: "string option"

definition rewrite_endpoint_uri ::
  "(string \<Rightarrow> uri_parts option) \<Rightarrow> (string \<Rightarrow> string option) \<Rightarrow> (uri_parts \<Rightarrow> string option) \<Rightarrow>
   string \<Rightarrow> string \<Rightarrow> string option" where
  "rewrite_endpoint_uri parse_uri parse_authority from_parts raw local_addr =
     (case parse_uri (trim raw) of None \<Rightarrow> None
      | Some parts \<Rightarrow>
          (case u_authority parts of None \<Rightarrow> None
           | Some _ \<Rightarrow>
               (case parse_authority local_addr of None \<Rightarrow> None
                | Some auth \<Rightarrow> from_parts \<lparr>u_scheme = Some ''http'', u_authority = Some auth,
                    u_path_and_query = (case u_path_and_query parts of None \<Rightarrow> Some ''/'' | Some q \<Rightarrow> Some q)\<rparr>)))"

definition endpoint_key :: "(string \<Rightarrow> uri_parts option) \<Rightarrow> string \<Rightarrow> string option" where
  "endpoint_key parse_uri uri = Option.bind (parse_uri (trim uri)) u_path_and_query"

text \<open>\<open>str::split_inclusive('\n')\<close>.\<close>

fun split_inclusive :: "string \<Rightarrow> string \<Rightarrow> string list" where
  "split_inclusive acc [] = (if acc = [] then [] else [rev acc])"
| "split_inclusive acc (c # s) =
     (if c = CHR 0x0A then rev (c # acc) # split_inclusive [] s else split_inclusive (c # acc) s)"

definition split_terminator :: "string \<Rightarrow> string \<times> string" where
  "split_terminator line =
     (if ends_with line [CHR 0x0D, CHR 0x0A] then (take (length line - 2) line, [CHR 0x0D, CHR 0x0A])
      else if ends_with line [CHR 0x0A] then (take (length line - 1) line, [CHR 0x0A])
      else (line, []))"

fun replace_lines :: "string \<Rightarrow> bool \<Rightarrow> string list \<Rightarrow> string" where
  "replace_lines new_data replaced [] = []"
| "replace_lines new_data replaced (line # ls) =
     (let (content, terminator) = split_terminator line
      in if starts_with content ''data:''
         then (if replaced then [] else ''data: '' @ new_data @ terminator) @ replace_lines new_data True ls
         else content @ terminator @ replace_lines new_data replaced ls)"

definition replace_event_data :: "bytes \<Rightarrow> string \<Rightarrow> bytes" where
  "replace_event_data raw new_data =
     (if \<not> utf8_valid raw then raw else replace_lines new_data False (split_inclusive [] raw))"

text \<open>Where the lines of an event are cut, and what is put back together.\<close>

definition data_line :: "string \<Rightarrow> bool" where
  "data_line line \<longleftrightarrow> starts_with (fst (split_terminator line)) ''data:''"

lemma split_terminator_whole: "fst (split_terminator line) @ snd (split_terminator line) = line"
proof -
  have "ends_with line t \<Longrightarrow> take (length line - length t) line @ t = line" for t
    unfolding ends_with_def by (metis append_take_drop_id)
  from this [of "[CHR 0x0D, CHR 0x0A]"] this [of "[CHR 0x0A]"] show ?thesis
    by (simp add: split_terminator_def numeral_2_eq_2)
qed

lemma concat_split_inclusive: "concat (split_inclusive acc s) = rev acc @ s"
  by (induction acc s rule: split_inclusive.induct) auto

definition lf_line :: "string \<Rightarrow> bool" where
  "lf_line l \<longleftrightarrow> (\<exists>b. l = b @ [CHR 0x0A] \<and> CHR 0x0A \<notin> set b)"

fun lf_lines :: "string list \<Rightarrow> bool" where
  "lf_lines [] = True"
| "lf_lines [l] = (lf_line l \<or> (l \<noteq> [] \<and> CHR 0x0A \<notin> set l))"
| "lf_lines (l # m # ls) = (lf_line l \<and> lf_lines (m # ls))"

lemma lf_lines_Cons: "lf_lines (l # ls) \<longleftrightarrow> (lf_line l \<and> lf_lines ls) \<or> (ls = [] \<and> l \<noteq> [] \<and> CHR 0x0A \<notin> set l)"
  by (cases ls) auto

lemma split_inclusive_lf_lines: "CHR 0x0A \<notin> set acc \<Longrightarrow> lf_lines (split_inclusive acc s)"
proof (induction acc s rule: split_inclusive.induct)
  case (2 acc c s)
  then show ?case by (auto simp: lf_lines_Cons lf_line_def)
qed simp

lemma split_inclusive_line: "CHR 0x0A \<notin> set b \<Longrightarrow> split_inclusive acc (b @ CHR 0x0A # s) = (rev acc @ b @ [CHR 0x0A]) # split_inclusive [] s"
  by (induction b arbitrary: acc) auto

lemma split_inclusive_rest: "CHR 0x0A \<notin> set b \<Longrightarrow> split_inclusive acc b = (if acc = [] \<and> b = [] then [] else [rev acc @ b])"
  by (induction b arbitrary: acc) auto

lemma split_inclusive_concat: "lf_lines ls \<Longrightarrow> split_inclusive [] (concat ls) = ls"
proof (induction ls)
  case (Cons l ls)
  then show ?case by (auto simp: lf_lines_Cons lf_line_def split_inclusive_line split_inclusive_rest)
qed simp

text \<open>The lines the rewritten event consists of.\<close>

fun new_lines :: "string \<Rightarrow> bool \<Rightarrow> string list \<Rightarrow> string list" where
  "new_lines new_data replaced [] = []"
| "new_lines new_data replaced (l # ls) =
     (if data_line l then (if replaced then [] else [''data: '' @ new_data @ snd (split_terminator l)]) @ new_lines new_data True ls
      else l # new_lines new_data replaced ls)"

lemma replace_lines_eq: "replace_lines new_data r ls = concat (new_lines new_data r ls)"
proof (induction ls arbitrary: r)
  case (Cons l ls)
  have "fst (split_terminator l) @ snd (split_terminator l) @ x = l @ x" for x
    using split_terminator_whole [of l] by (metis append_assoc)
  with Cons show ?case by (simp add: data_line_def case_prod_beta)
qed simp

lemma split_terminator_lf: "lf_line l \<Longrightarrow> snd (split_terminator l) \<in> {[CHR 0x0D, CHR 0x0A], [CHR 0x0A]}"
  by (auto simp: lf_line_def split_terminator_def ends_with_def)

lemma split_terminator_rest: "CHR 0x0A \<notin> set l \<Longrightarrow> split_terminator l = (l, [])"
proof -
  assume lf: "CHR 0x0A \<notin> set l"
  have "\<not> ends_with l (t @ [CHR 0x0A])" for t
  proof
    assume "ends_with l (t @ [CHR 0x0A])"
    then have "CHR 0x0A \<in> set (drop (length l - length (t @ [CHR 0x0A])) l)" by (simp add: ends_with_def)
    with lf show False by (meson in_set_dropD)
  qed
  from this [of "[CHR 0x0D]"] this [of "[]"] show ?thesis by (simp add: split_terminator_def)
qed

lemma new_lines_lf_lines:
  assumes "CHR 0x0A \<notin> set new_data" and "lf_lines ls"
  shows "lf_lines (new_lines new_data r ls)"
  using assms(2)
proof (induction ls arbitrary: r)
  case (Cons l ls)
  from Cons.prems consider "lf_line l" "lf_lines ls" | "ls = []" "l \<noteq> []" "CHR 0x0A \<notin> set l"
    by (auto simp: lf_lines_Cons)
  then show ?case
  proof cases
    case 1
    then have "lf_line (''data: '' @ new_data @ snd (split_terminator l))"
      using split_terminator_lf [OF 1(1)] assms(1)
      by (auto simp: lf_line_def intro: exI [of _ "''data: '' @ new_data @ [CHR 0x0D]"] exI [of _ "''data: '' @ new_data"])
    with 1 Cons.IH show ?thesis by (simp add: lf_lines_Cons)
  next
    case 2
    with assms(1) show ?thesis by (simp add: split_terminator_rest)
  qed
qed simp

lemma data_line_new: "data_line (''data: '' @ r)"
proof -
  have st: "starts_with (take k (''data: '' @ r)) ''data:''" if "5 \<le> k" for k
  proof -
    have l: "length ''data:'' = 5" and p: "take 5 (''data: '' @ r) = ''data:''" by simp_all
    have "take 5 (take k (''data: '' @ r)) = take 5 (''data: '' @ r)" using that by (simp only: take_take min_absorb1)
    then show ?thesis by (simp only: starts_with_def l p)
  qed
  have "r \<noteq> []" if "ends_with (''data: '' @ r) [CHR 0x0D, CHR 0x0A]"
    using that by (auto simp: ends_with_def)
  with st [of "length (''data: '' @ r) - 2"] st [of "length (''data: '' @ r) - 1"] st [of "length (''data: '' @ r)"]
  show ?thesis by (auto simp: data_line_def split_terminator_def neq_Nil_conv simp del: take_Cons_numeral)
qed

lemma new_lines_others: "filter (\<lambda>l. \<not> data_line l) (new_lines new_data r ls) = filter (\<lambda>l. \<not> data_line l) ls"
  by (induction new_data r ls rule: new_lines.induct) (simp_all add: data_line_new [simplified])

lemma new_lines_data:
  "filter data_line (new_lines new_data r ls) =
     (if r then [] else case filter data_line ls of [] \<Rightarrow> [] | l # _ \<Rightarrow> [''data: '' @ new_data @ snd (split_terminator l)])"
  by (induction new_data r ls rule: new_lines.induct) (auto simp: data_line_new [simplified])

section \<open>Properties\<close>

text \<open>Feeding a stream chunk by chunk, with the events of every chunk in order.\<close>

fun feed_all :: "sse_parser \<Rightarrow> bytes list \<Rightarrow> sse_event list \<times> sse_parser" where
  "feed_all p [] = ([], p)"
| "feed_all p (c # cs) =
     (let (events, p') = feed p c; (more, p'') = feed_all p' cs in (events @ more, p''))"

lemma feed_all_run:
  "sse.run p cs = (concat (map ev_raw (fst (feed_all p cs))), snd (feed_all p cs))"
  by (induction cs arbitrary: p) (auto simp: Let_def case_prod_beta)

text \<open>
  C22. Byte transparency: over any stream, cut into chunks in any way, the raw bytes of the events
  handed out followed by the remainder flushed at the end are exactly the bytes received.
\<close>

theorem sse_stream_transparent:
  "concat (map ev_raw (fst (feed_all new_parser cs))) @ fst (take_remainder (snd (feed_all new_parser cs))) = concat cs"
  using sse.flushed [of new_parser cs] by (simp add: feed_all_run take_remainder_def new_parser_def)

text \<open>
  Bounded memory and no interpretation above the cap: after any stream the parser holds at
  most one mebibyte, and no event longer than that is ever given a name or data.
\<close>

theorem sse_bounded:
  "length (sp_buf (snd (feed p chunk))) \<le> max_sse_event_bytes \<and>
   list_all (\<lambda>e. (ev_name e = None \<and> ev_data e = None) \<or> length (ev_raw e) \<le> max_sse_event_bytes) (fst (feed p chunk))"
  using feed_loop_bounded feed_loop_within_cap by (simp add: feed_def within_cap_def [abs_def])

lemma feed_all_small:
  assumes "length (buf @ concat cs) \<le> max_sse_event_bytes" and "find_event_end buf = None"
  shows "feed_all \<lparr>sp_buf = buf, sp_resyncing = False\<rparr> cs =
    (fst (drain_events (buf @ concat cs)), \<lparr>sp_buf = snd (drain_events (buf @ concat cs)), sp_resyncing = False\<rparr>)"
  using assms
proof (induction cs arbitrary: buf)
  case Nil
  then have "drain_events buf = ([], buf)" by (subst drain_events.simps) simp
  then show ?case by simp
next
  case (Cons c cs)
  let ?r = "snd (drain_events (buf @ c))"
  have f: "feed \<lparr>sp_buf = buf, sp_resyncing = False\<rparr> c = (fst (drain_events (buf @ c)), \<lparr>sp_buf = ?r, sp_resyncing = False\<rparr>)"
    using feed_small [of buf c] Cons.prems by (simp add: feed_def)
  have "length ?r \<le> length (buf @ c)" by (rule drain_events_length)
  then have "feed_all \<lparr>sp_buf = ?r, sp_resyncing = False\<rparr> cs =
      (fst (drain_events (?r @ concat cs)), \<lparr>sp_buf = snd (drain_events (?r @ concat cs)), sp_resyncing = False\<rparr>)"
    using Cons.prems by (intro Cons.IH drain_events_end) simp
  with f drain_events_append [of "buf @ c" "concat cs"] show ?case by simp
qed

text \<open>
  What is audited does not depend on how the network cuts the stream: two chunkings of the
  same bytes, up to the parse cap, give the same events with the same names and data, and leave
  the same bytes held back.
\<close>

theorem sse_chunking_irrelevant:
  assumes "concat cs = concat ds" and "length (concat cs) \<le> max_sse_event_bytes"
  shows "feed_all new_parser cs = feed_all new_parser ds"
proof -
  have "find_event_end [] = None" by (simp add: find_event_end_def terminators_def)
  then show ?thesis
    using feed_all_small [of "[]" cs] feed_all_small [of "[]" ds] assms by (simp add: new_parser_def)
qed

theorem sse_chunking_irrelevant_witness:
  "feed_all new_parser [''data: a'' @ [CHR 0x0A], [CHR 0x0A]] = feed_all new_parser [''dat'', ''a: a'' @ [CHR 0x0A, CHR 0x0A]]"
  by (rule sse_chunking_irrelevant) (simp_all add: max_sse_event_bytes_def)

text \<open>
  The one deliberate alteration of forwarded bytes: rewriting the \<open>data\<close> of an event leaves
  every other line of it, in order and with its own line ending, byte for byte as it was, and
  turns all data lines into one line carrying the new payload where the first one stood.
\<close>

theorem replace_event_data_local:
  assumes "utf8_valid raw" and "CHR 0x0A \<notin> set new_data"
  shows "filter (\<lambda>l. \<not> data_line l) (split_inclusive [] (replace_event_data raw new_data)) =
           filter (\<lambda>l. \<not> data_line l) (split_inclusive [] raw) \<and>
         filter data_line (split_inclusive [] (replace_event_data raw new_data)) =
           (case filter data_line (split_inclusive [] raw) of [] \<Rightarrow> []
            | l # _ \<Rightarrow> [''data: '' @ new_data @ snd (split_terminator l)])"
  using assms split_inclusive_concat [OF new_lines_lf_lines [OF assms(2) split_inclusive_lf_lines], of "[]" False raw]
  by (simp add: replace_event_data_def replace_lines_eq new_lines_others new_lines_data)

theorem replace_event_data_local_witness:
  "filter data_line (split_inclusive [] (replace_event_data (''event: endpoint'' @ [CHR 0x0D, CHR 0x0A] @ ''data: http://a/m'' @ [CHR 0x0A]) ''/m'')) =
     [''data: /m'' @ [CHR 0x0A]]"
  by (subst replace_event_data_local [THEN conjunct2])
     (simp_all add: data_line_def split_terminator_def ends_with_def starts_with_def utf8_valid_ascii in_range_def)

end
