(* ===== verification/Extract.thy ===== *)
theory Extract
  imports Json
begin

text \<open>
  \<open>src/extract.rs\<close>: the destination of a tool call, read off its top-level arguments.
\<close>

datatype destination_kind = Filesystem | Network

record destination =
  dest_value :: string
  dest_kind :: destination_kind

definition destination_keys :: "(string \<times> destination_kind) list" where
  "destination_keys =
     [(''path'', Filesystem), (''file'', Filesystem), (''url'', Network), (''host'', Network),
      (''uri'', Network), (''target'', Network)]"

fun first_destination :: "(string \<times> destination_kind) list \<Rightarrow> (string \<times> json) list \<Rightarrow> destination option" where
  "first_destination [] obj = None"
| "first_destination ((key, kind) # keys) obj =
     (case map_of obj key of
        Some (JString s) \<Rightarrow> if s \<noteq> [] then Some \<lparr>dest_value = s, dest_kind = kind\<rparr> else first_destination keys obj
      | _ \<Rightarrow> first_destination keys obj)"

fun destination_from_args :: "json \<Rightarrow> destination option" where
  "destination_from_args (JObject obj) = first_destination destination_keys obj"
| "destination_from_args _ = None"

text \<open>A destination is never invented: it is the non-empty text of a recognised key.\<close>

lemma first_destination_Some:
  "first_destination keys obj = Some d \<Longrightarrow>
     \<exists>k. (k, dest_kind d) \<in> set keys \<and> map_of obj k = Some (JString (dest_value d)) \<and> dest_value d \<noteq> []"
  by (induction keys obj rule: first_destination.induct) (auto split: option.splits json.splits if_splits)

lemma destination_from_args_Some:
  "destination_from_args args = Some d \<Longrightarrow>
     \<exists>k. (k, dest_kind d) \<in> set destination_keys \<and> json_get args k = Some (JString (dest_value d)) \<and> dest_value d \<noteq> []"
  by (cases args) (auto dest: first_destination_Some)

end
