(* ===== verification/Anomaly.thy ===== *)
theory Anomaly
  imports Extract
begin

text \<open>
  \<open>src/anomaly.rs\<close>: the four rules scored against the per-session baseline.

  Sizes are \<open>i64\<close> values held as \<open>int\<close>, with the saturation of \<open>saturating_mul\<close> written out.
  Instants are nanoseconds on the monotonic clock, so \<open>saturating_duration_since\<close> is
  subtraction on \<open>nat\<close>. Formatting a span to one decimal is a parameter. The hash maps are maps,
  the set of seen destinations is a set.
\<close>

definition min_samples_for_size_rule :: nat where "min_samples_for_size_rule = 5"
definition size_spike_multiplier :: int where "size_spike_multiplier = 5"
definition size_bootstrap_spike_bytes :: int where "size_bootstrap_spike_bytes = 1000000"
definition size_baseline_capacity :: nat where "size_baseline_capacity = 31"
definition size_baseline_floor_bytes :: int where "size_baseline_floor_bytes = 1024"
definition size_band_numerator :: int where "size_band_numerator = 5"
definition size_band_denominator :: int where "size_band_denominator = 4"
definition rapid_repeat_count :: nat where "rapid_repeat_count = 5"
definition rapid_repeat_window :: nat where "rapid_repeat_window = 10 * 1000000000"
definition rapid_fanout_count :: nat where "rapid_fanout_count = 25"
definition rapid_event_capacity :: nat where "rapid_event_capacity = 256"

lemmas anomaly_consts = min_samples_for_size_rule_def size_spike_multiplier_def
  size_bootstrap_spike_bytes_def size_baseline_capacity_def size_baseline_floor_bytes_def
  size_band_numerator_def size_band_denominator_def rapid_repeat_count_def
  rapid_repeat_window_def rapid_fanout_count_def rapid_event_capacity_def

definition i64_max :: int where "i64_max = 2 ^ 63 - 1"
definition i64_min :: int where "i64_min = - (2 ^ 63)"

definition saturating_mul :: "int \<Rightarrow> int \<Rightarrow> int" where
  "saturating_mul a b = max i64_min (min i64_max (a * b))"

record reason =
  r_rule :: string
  r_detail :: string

record anomaly_report =
  score :: real
  reasons :: "reason list"

section \<open>The size rule\<close>

record tool_stats =
  baseline :: "int list"
  known_spike_bands :: "(int \<times> int) list"

definition default_tool_stats :: tool_stats where
  "default_tool_stats = \<lparr>baseline = [], known_spike_bands = []\<rparr>"

definition median :: "tool_stats \<Rightarrow> int option" where
  "median s =
     (if length (baseline s) < min_samples_for_size_rule then None
      else let values = sort (baseline s) in Some (values ! (length values div 2)))"

definition in_band :: "int \<Rightarrow> int \<times> int \<Rightarrow> bool" where
  "in_band bytes band \<longleftrightarrow> fst band \<le> bytes \<and> bytes \<le> snd band"

definition size_detail :: "int \<Rightarrow> int option \<Rightarrow> string" where
  "size_detail bytes m =
     (case m of
        Some md \<Rightarrow> ''bytes_out='' @ show_int bytes @ '' exceeds '' @ show_int size_spike_multiplier @
          [CHR 0xC3, CHR 0x97] @ '' median baseline ('' @ show_int md @ '' bytes) for this tool; known size band recorded''
      | None \<Rightarrow> ''bytes_out='' @ show_int bytes @ '' exceeds the '' @ show_int size_bootstrap_spike_bytes @
          ''-byte warmup threshold; known size band recorded'')"

definition size_band :: "int \<Rightarrow> int \<times> int" where
  "size_band bytes =
     (saturating_mul bytes size_band_denominator div size_band_numerator,
      saturating_mul bytes size_band_numerator div size_band_denominator)"

definition observe_size :: "tool_stats \<Rightarrow> int \<Rightarrow> reason option \<times> tool_stats" where
  "observe_size s bytes =
     (if bytes < 0 then (None, s)
      else if list_ex (in_band bytes) (known_spike_bands s) then (None, s)
      else
        let m = median s;
            bootstrap_spike = m = None \<and> size_bootstrap_spike_bytes \<le> bytes;
            baseline_spike = (case m of None \<Rightarrow> False
              | Some md \<Rightarrow> saturating_mul md size_spike_multiplier < bytes \<and> size_baseline_floor_bytes < bytes)
        in if bootstrap_spike \<or> baseline_spike
           then (Some \<lparr>r_rule = ''size_spike'', r_detail = size_detail bytes m\<rparr>,
                 s\<lparr>known_spike_bands := known_spike_bands s @ [size_band bytes]\<rparr>)
           else (let b = baseline s @ [bytes]
                 in (None, s\<lparr>baseline := drop (length b - size_baseline_capacity) b\<rparr>)))"

section \<open>All rules\<close>

record session_stats =
  tool_stats_of :: "string \<rightharpoonup> tool_stats"
  tool_events :: "string \<rightharpoonup> (nat \<times> bytes) list"
  seen_network_destinations :: "string set"
  last_rapid_fire :: "string \<rightharpoonup> nat"
  last_fanout_fire :: "string \<rightharpoonup> nat"

definition new_stats :: session_stats where
  "new_stats = \<lparr>tool_stats_of = Map.empty, tool_events = Map.empty, seen_network_destinations = {},
     last_rapid_fire = Map.empty, last_fanout_fire = Map.empty\<rparr>"

text \<open>\<open>entry(..).or_default()\<close>.\<close>

definition or_default :: "'v \<Rightarrow> 'v option \<Rightarrow> 'v" where
  "or_default d x = (case x of None \<Rightarrow> d | Some v \<Rightarrow> v)"

definition size_rule :: "session_stats \<Rightarrow> string \<Rightarrow> int option \<Rightarrow> reason list \<times> session_stats" where
  "size_rule s tool bytes_out =
     (case bytes_out of None \<Rightarrow> ([], s)
      | Some bytes \<Rightarrow>
          (let (r, ts) = observe_size (or_default default_tool_stats (tool_stats_of s tool)) bytes
           in (case r of None \<Rightarrow> [] | Some x \<Rightarrow> [x], s\<lparr>tool_stats_of := (tool_stats_of s)(tool \<mapsto> ts)\<rparr>)))"

definition novel_rule :: "session_stats \<Rightarrow> destination option \<Rightarrow> reason list" where
  "novel_rule s dest =
     (case dest of None \<Rightarrow> []
      | Some d \<Rightarrow>
          if dest_kind d = Network \<and> seen_network_destinations s \<noteq> {} \<and> dest_value d \<notin> seen_network_destinations s
          then [\<lparr>r_rule = ''novel_destination'',
                 r_detail = ''network destination '' @ CHR 0x27 # dest_value d @ CHR 0x27 # '' not seen in this session ('' @
                   show_nat (card (seen_network_destinations s)) @ '' prior distinct network destinations)''\<rparr>]
          else [])"

definition record_event :: "(nat \<times> bytes) list \<Rightarrow> nat \<Rightarrow> bytes \<Rightarrow> (nat \<times> bytes) list" where
  "record_event events now fingerprint =
     (let kept = dropWhile (\<lambda>(w, _). rapid_repeat_window < now - w) events @ [(now, fingerprint)]
      in drop (length kept - rapid_event_capacity) kept)"

definition cooling :: "(string \<rightharpoonup> nat) \<Rightarrow> string \<Rightarrow> nat \<Rightarrow> bool" where
  "cooling last_fire tool now \<longleftrightarrow> (case last_fire tool of None \<Rightarrow> False | Some t \<Rightarrow> now - t < rapid_repeat_window)"

definition repeats_rule ::
  "(nat \<Rightarrow> string) \<Rightarrow> session_stats \<Rightarrow> (nat \<times> bytes) list \<Rightarrow> string \<Rightarrow> bytes \<Rightarrow> nat \<Rightarrow> reason list \<times> session_stats" where
  "repeats_rule fmt_secs s events tool fingerprint now =
     (let matching = map fst (filter (\<lambda>(_, seen). seen = fingerprint) events)
      in if rapid_repeat_count \<le> length matching \<and> \<not> cooling (last_rapid_fire s) tool now
         then ([\<lparr>r_rule = ''rapid_repeats'',
                 r_detail = show_nat rapid_repeat_count @ '' identical argument payloads for '' @ tool @ '' within '' @
                   fmt_secs (now - matching ! (length matching - rapid_repeat_count)) @ ''s (window: 10s)''\<rparr>],
               s\<lparr>last_rapid_fire := (last_rapid_fire s)(tool \<mapsto> now)\<rparr>)
         else ([], s))"

definition fanout_rule :: "session_stats \<Rightarrow> (nat \<times> bytes) list \<Rightarrow> string \<Rightarrow> nat \<Rightarrow> reason list \<times> session_stats" where
  "fanout_rule s events tool now =
     (let distinct_count = card (set (map snd events))
      in if rapid_fanout_count \<le> distinct_count \<and> \<not> cooling (last_fanout_fire s) tool now
         then ([\<lparr>r_rule = ''rapid_fanout'',
                 r_detail = show_nat distinct_count @ '' distinct argument payloads for '' @ tool @ '' within 10s''\<rparr>],
               s\<lparr>last_fanout_fire := (last_fanout_fire s)(tool \<mapsto> now)\<rparr>)
         else ([], s))"

definition remember_destination :: "session_stats \<Rightarrow> destination option \<Rightarrow> session_stats" where
  "remember_destination s dest =
     (case dest of None \<Rightarrow> s
      | Some d \<Rightarrow> if dest_kind d = Network
          then s\<lparr>seen_network_destinations := insert (dest_value d) (seen_network_destinations s)\<rparr> else s)"

definition observe_with_fingerprint ::
  "(nat \<Rightarrow> string) \<Rightarrow> session_stats \<Rightarrow> string \<Rightarrow> int option \<Rightarrow> destination option \<Rightarrow> bytes \<Rightarrow> nat \<Rightarrow>
   anomaly_report option \<times> session_stats" where
  "observe_with_fingerprint fmt_secs s tool bytes_out dest fingerprint now =
     (let (size_reasons, s1) = size_rule s tool bytes_out;
          novel_reasons = novel_rule s1 dest;
          events = record_event (or_default [] (tool_events s1 tool)) now fingerprint;
          s2 = s1\<lparr>tool_events := (tool_events s1)(tool \<mapsto> events)\<rparr>;
          (repeat_reasons, s3) = repeats_rule fmt_secs s2 events tool fingerprint now;
          (fanout_reasons, s4) = fanout_rule s3 events tool now;
          s5 = remember_destination s4 dest;
          rs = size_reasons @ novel_reasons @ repeat_reasons @ fanout_reasons
      in (if rs = [] then None else Some \<lparr>score = real (length rs), reasons = rs\<rparr>, s5))"

text \<open>
  \<open>fingerprint_args\<close>: the digest and the text of a value are parameters; \<open>None\<close> stands for a
  value that fails to encode, which leaves the digest of the tag alone.
\<close>

definition fingerprint_args :: "(bytes \<Rightarrow> bytes) \<Rightarrow> (json \<Rightarrow> bytes option) \<Rightarrow> json option \<Rightarrow> bytes" where
  "fingerprint_args sha to_vec args =
     sha (''auditmcp-argument-fingerprint-v1'' @ [CHR 0x00] @
       (case args of
          Some v \<Rightarrow> CHR 0x01 # (case to_vec v of Some encoded \<Rightarrow> encoded | None \<Rightarrow> [])
        | None \<Rightarrow> [CHR 0x00]))"

section \<open>A session's observations\<close>

record observation =
  ob_tool :: string
  ob_bytes :: "int option"
  ob_dest :: "destination option"
  ob_fingerprint :: bytes
  ob_now :: nat

fun observe_all :: "(nat \<Rightarrow> string) \<Rightarrow> session_stats \<Rightarrow> observation list \<Rightarrow> session_stats" where
  "observe_all f s [] = s"
| "observe_all f s (c # cs) =
     observe_all f (snd (observe_with_fingerprint f s (ob_tool c) (ob_bytes c) (ob_dest c) (ob_fingerprint c) (ob_now c))) cs"

definition fired :: "anomaly_report option \<Rightarrow> string \<Rightarrow> bool" where
  "fired r rule \<longleftrightarrow> (case r of None \<Rightarrow> False | Some rep \<Rightarrow> rule \<in> r_rule ` set (reasons rep))"

text \<open>The instants at which a rule fired for a tool.\<close>

fun fire_times :: "(nat \<Rightarrow> string) \<Rightarrow> session_stats \<Rightarrow> string \<Rightarrow> string \<Rightarrow> observation list \<Rightarrow> nat list" where
  "fire_times f s rule tool [] = []"
| "fire_times f s rule tool (c # cs) =
     (let (r, s') = observe_with_fingerprint f s (ob_tool c) (ob_bytes c) (ob_dest c) (ob_fingerprint c) (ob_now c)
      in (if ob_tool c = tool \<and> fired r rule then [ob_now c] else []) @ fire_times f s' rule tool cs)"

section \<open>What one observation does to each part of the state\<close>

lemma size_rule_other [simp]:
  "tool_events (snd (size_rule s t b)) = tool_events s"
  "seen_network_destinations (snd (size_rule s t b)) = seen_network_destinations s"
  "last_rapid_fire (snd (size_rule s t b)) = last_rapid_fire s"
  "last_fanout_fire (snd (size_rule s t b)) = last_fanout_fire s"
  by (simp_all add: size_rule_def split: option.splits prod.splits)

lemma repeats_rule_other [simp]:
  "tool_stats_of (snd (repeats_rule f s e t p n)) = tool_stats_of s"
  "tool_events (snd (repeats_rule f s e t p n)) = tool_events s"
  "seen_network_destinations (snd (repeats_rule f s e t p n)) = seen_network_destinations s"
  "last_fanout_fire (snd (repeats_rule f s e t p n)) = last_fanout_fire s"
  by (simp_all add: repeats_rule_def Let_def)

lemma fanout_rule_other [simp]:
  "tool_stats_of (snd (fanout_rule s e t n)) = tool_stats_of s"
  "tool_events (snd (fanout_rule s e t n)) = tool_events s"
  "seen_network_destinations (snd (fanout_rule s e t n)) = seen_network_destinations s"
  "last_rapid_fire (snd (fanout_rule s e t n)) = last_rapid_fire s"
  by (simp_all add: fanout_rule_def Let_def)

lemma remember_other [simp]:
  "tool_stats_of (remember_destination s d) = tool_stats_of s"
  "tool_events (remember_destination s d) = tool_events s"
  "last_rapid_fire (remember_destination s d) = last_rapid_fire s"
  "last_fanout_fire (remember_destination s d) = last_fanout_fire s"
  by (simp_all add: remember_destination_def split: option.splits)

lemma rule_names:
  "r \<in> set (fst (size_rule s t b)) \<Longrightarrow> r_rule r = ''size_spike''"
  "r \<in> set (novel_rule s d) \<Longrightarrow> r_rule r = ''novel_destination''"
  "r \<in> set (fst (repeats_rule f s e t p n)) \<Longrightarrow> r_rule r = ''rapid_repeats''"
  "r \<in> set (fst (fanout_rule s e t n)) \<Longrightarrow> r_rule r = ''rapid_fanout''"
  by (auto simp: size_rule_def observe_size_def novel_rule_def repeats_rule_def fanout_rule_def Let_def
      split: option.splits prod.splits if_splits)

end
