(* ===== verification/AnomalyProps.thy ===== *)
theory AnomalyProps
  imports Anomaly
begin

text \<open>
  What the anomaly rules guarantee over a whole session: bounded state, one report per burst, one
  report per size regime, and the exact meaning of a novel destination.
\<close>

abbreviation ob_step :: "(nat \<Rightarrow> string) \<Rightarrow> session_stats \<Rightarrow> observation \<Rightarrow> anomaly_report option \<times> session_stats" where
  "ob_step f s c \<equiv>
     observe_with_fingerprint f s (ob_tool c) (ob_bytes c) (ob_dest c) (ob_fingerprint c) (ob_now c)"

lemma observe_all_append: "observe_all f s (cs @ ds) = observe_all f (observe_all f s cs) ds"
  by (induction cs arbitrary: s) auto

text \<open>The state after one observation, field by field.\<close>

lemma obs_events:
  "tool_events (snd (ob_step f s c)) =
     (tool_events s)(ob_tool c \<mapsto> record_event (or_default [] (tool_events s (ob_tool c))) (ob_now c) (ob_fingerprint c))"
  by (simp add: observe_with_fingerprint_def Let_def case_prod_beta)

lemma obs_tools:
  "tool_stats_of (snd (ob_step f s c)) =
     (case ob_bytes c of None \<Rightarrow> tool_stats_of s
      | Some b \<Rightarrow> (tool_stats_of s)(ob_tool c \<mapsto> snd (observe_size (or_default default_tool_stats (tool_stats_of s (ob_tool c))) b)))"
  by (simp add: observe_with_fingerprint_def Let_def case_prod_beta size_rule_def split: option.splits)

lemma obs_seen:
  "seen_network_destinations (snd (ob_step f s c)) =
     (case ob_dest c of None \<Rightarrow> seen_network_destinations s
      | Some d \<Rightarrow> if dest_kind d = Network then insert (dest_value d) (seen_network_destinations s)
                   else seen_network_destinations s)"
  by (simp add: observe_with_fingerprint_def Let_def case_prod_beta remember_destination_def split: option.splits)

text \<open>The rules see only their own part of the state.\<close>

abbreviation ob_events :: "session_stats \<Rightarrow> observation \<Rightarrow> (nat \<times> bytes) list" where
  "ob_events s c \<equiv> record_event (or_default [] (tool_events s (ob_tool c))) (ob_now c) (ob_fingerprint c)"

lemma novel_rule_local: "novel_rule (snd (size_rule s t b)) d = novel_rule s d"
  unfolding novel_rule_def size_rule_other by (rule refl)

lemma repeats_rule_local:
  "fst (repeats_rule f ((snd (size_rule s t b))\<lparr>tool_events := e\<rparr>) ev t fp n) = fst (repeats_rule f s ev t fp n)"
  "last_rapid_fire (snd (repeats_rule f ((snd (size_rule s t b))\<lparr>tool_events := e\<rparr>) ev t fp n)) =
     last_rapid_fire (snd (repeats_rule f s ev t fp n))"
  by (simp_all add: repeats_rule_def Let_def)

lemma fanout_rule_local:
  "fst (fanout_rule (snd (repeats_rule f ((snd (size_rule s t b))\<lparr>tool_events := e\<rparr>) ev t fp n)) ev' t n) =
     fst (fanout_rule s ev' t n)"
  "last_fanout_fire (snd (fanout_rule (snd (repeats_rule f ((snd (size_rule s t b))\<lparr>tool_events := e\<rparr>) ev t fp n)) ev' t n)) =
     last_fanout_fire (snd (fanout_rule s ev' t n))"
  by (simp_all add: fanout_rule_def Let_def)

lemma obs_last_fires:
  "last_rapid_fire (snd (ob_step f s c)) =
     last_rapid_fire (snd (repeats_rule f s (ob_events s c) (ob_tool c) (ob_fingerprint c) (ob_now c)))"
  "last_fanout_fire (snd (ob_step f s c)) = last_fanout_fire (snd (fanout_rule s (ob_events s c) (ob_tool c) (ob_now c)))"
  by (simp_all add: observe_with_fingerprint_def Let_def case_prod_beta repeats_rule_local fanout_rule_local)

text \<open>Which rules a report names.\<close>

lemma uniform_names: "\<forall>r \<in> set xs. r_rule r = n \<Longrightarrow> m \<in> r_rule ` set xs \<longleftrightarrow> m = n \<and> xs \<noteq> []"
  by (cases xs) auto

lemma report_names:
  "m \<in> r_rule ` set (fst (size_rule s t b)) \<longleftrightarrow> m = ''size_spike'' \<and> fst (size_rule s t b) \<noteq> []"
  "m \<in> r_rule ` set (novel_rule s d) \<longleftrightarrow> m = ''novel_destination'' \<and> novel_rule s d \<noteq> []"
  "m \<in> r_rule ` set (fst (repeats_rule f s e t p n)) \<longleftrightarrow> m = ''rapid_repeats'' \<and> fst (repeats_rule f s e t p n) \<noteq> []"
  "m \<in> r_rule ` set (fst (fanout_rule s e t n)) \<longleftrightarrow> m = ''rapid_fanout'' \<and> fst (fanout_rule s e t n) \<noteq> []"
  by (rule uniform_names; blast intro: rule_names)+

lemma fired_append: "fired (if rs = [] then None else Some \<lparr>score = x, reasons = rs\<rparr>) m \<longleftrightarrow> m \<in> r_rule ` set rs"
  by (simp add: fired_def)

lemma fired_iff:
  "fired (fst (ob_step f s c)) m \<longleftrightarrow>
     (m = ''size_spike'' \<and> fst (size_rule s (ob_tool c) (ob_bytes c)) \<noteq> []) \<or>
     (m = ''novel_destination'' \<and> novel_rule s (ob_dest c) \<noteq> []) \<or>
     (m = ''rapid_repeats'' \<and> fst (repeats_rule f s (ob_events s c) (ob_tool c) (ob_fingerprint c) (ob_now c)) \<noteq> []) \<or>
     (m = ''rapid_fanout'' \<and> fst (fanout_rule s (ob_events s c) (ob_tool c) (ob_now c)) \<noteq> [])"
  unfolding observe_with_fingerprint_def Let_def case_prod_beta fst_conv fired_append set_append image_Un Un_iff report_names
    novel_rule_local repeats_rule_local fanout_rule_local size_rule_other
  by blast

section \<open>Bounded state\<close>

definition stats_bounded :: "session_stats \<Rightarrow> bool" where
  "stats_bounded s \<longleftrightarrow>
     (\<forall>t ts. tool_stats_of s t = Some ts \<longrightarrow> length (baseline ts) \<le> size_baseline_capacity \<and> (\<forall>b \<in> set (baseline ts). 0 \<le> b)) \<and>
     (\<forall>t ev. tool_events s t = Some ev \<longrightarrow> length ev \<le> rapid_event_capacity)"

lemma observe_size_bounded:
  assumes "length (baseline ts) \<le> size_baseline_capacity" and "\<forall>b \<in> set (baseline ts). 0 \<le> b"
  shows "length (baseline (snd (observe_size ts bytes))) \<le> size_baseline_capacity \<and>
    (\<forall>b \<in> set (baseline (snd (observe_size ts bytes))). 0 \<le> b)"
proof -
  have "0 \<le> b" if "b \<in> set (drop n (baseline ts @ [bytes]))" and "\<not> bytes < 0" for b n
    using in_set_dropD [OF that(1)] assms(2) that(2) by auto
  moreover have "length (drop (Suc (length (baseline ts)) - size_baseline_capacity) (baseline ts @ [bytes])) \<le> size_baseline_capacity"
    by simp
  ultimately show ?thesis
    using assms by (auto simp: observe_size_def Let_def simp del: drop_append length_drop split: option.splits)
qed

lemma stats_bounded_step: "stats_bounded s \<Longrightarrow> stats_bounded (snd (ob_step f s c))"
proof -
  assume s: "stats_bounded s"
  have e: "length (record_event ev n p) \<le> rapid_event_capacity" for ev n p
    by (simp add: record_event_def Let_def)
  have d: "length (baseline (snd (observe_size (or_default default_tool_stats (tool_stats_of s t)) b))) \<le> size_baseline_capacity \<and>
      (\<forall>x \<in> set (baseline (snd (observe_size (or_default default_tool_stats (tool_stats_of s t)) b))). 0 \<le> x)" for t b
  proof (rule observe_size_bounded)
    show "length (baseline (or_default default_tool_stats (tool_stats_of s t))) \<le> size_baseline_capacity"
      and "\<forall>b \<in> set (baseline (or_default default_tool_stats (tool_stats_of s t))). 0 \<le> b"
      using s by (auto simp: stats_bounded_def or_default_def default_tool_stats_def split: option.splits)
  qed
  show ?thesis
    using s d e by (auto simp: stats_bounded_def obs_events obs_tools split: option.splits if_splits)
qed

lemma stats_bounded_all: "stats_bounded s \<Longrightarrow> stats_bounded (observe_all f s cs)"
  by (induction cs arbitrary: s) (auto intro: stats_bounded_step)

text \<open>
  However long a session runs, the state kept per tool stays bounded: at most 31 baseline
  sizes, none negative, and at most 256 recent events.
\<close>

theorem anomaly_state_bounded: "stats_bounded (observe_all f new_stats cs)"
  by (rule stats_bounded_all) (simp add: stats_bounded_def new_stats_def)

section \<open>One report per burst\<close>

lemma repeats_fire:
  assumes "fired (fst (ob_step f s c)) ''rapid_repeats''"
  shows "\<not> cooling (last_rapid_fire s) (ob_tool c) (ob_now c)"
    and "last_rapid_fire (snd (ob_step f s c)) = (last_rapid_fire s)(ob_tool c \<mapsto> ob_now c)"
  using assms by (auto simp: fired_iff obs_last_fires repeats_rule_def Let_def split: if_splits)

lemma repeats_quiet:
  assumes "\<not> fired (fst (ob_step f s c)) ''rapid_repeats''"
  shows "last_rapid_fire (snd (ob_step f s c)) = last_rapid_fire s"
  using assms by (auto simp: fired_iff obs_last_fires repeats_rule_def Let_def split: if_splits)

lemma fanout_fire:
  assumes "fired (fst (ob_step f s c)) ''rapid_fanout''"
  shows "\<not> cooling (last_fanout_fire s) (ob_tool c) (ob_now c)"
    and "last_fanout_fire (snd (ob_step f s c)) = (last_fanout_fire s)(ob_tool c \<mapsto> ob_now c)"
  using assms by (auto simp: fired_iff obs_last_fires fanout_rule_def Let_def split: if_splits)

lemma fanout_quiet:
  assumes "\<not> fired (fst (ob_step f s c)) ''rapid_fanout''"
  shows "last_fanout_fire (snd (ob_step f s c)) = last_fanout_fire s"
  using assms by (auto simp: fired_iff obs_last_fires fanout_rule_def Let_def split: if_splits)

text \<open>Both cooldowns are one argument about a rule that remembers when it fired last.\<close>

definition last_fire :: "string \<Rightarrow> session_stats \<Rightarrow> string \<rightharpoonup> nat" where
  "last_fire rule = (if rule = ''rapid_repeats'' then last_rapid_fire else last_fanout_fire)"

lemma cooled_fire:
  assumes "rule \<in> {''rapid_repeats'', ''rapid_fanout''}"
  shows "fired (fst (ob_step f s c)) rule \<Longrightarrow> \<not> cooling (last_fire rule s) (ob_tool c) (ob_now c)"
    and "fired (fst (ob_step f s c)) rule \<Longrightarrow> last_fire rule (snd (ob_step f s c)) = (last_fire rule s)(ob_tool c \<mapsto> ob_now c)"
    and "\<not> fired (fst (ob_step f s c)) rule \<Longrightarrow> last_fire rule (snd (ob_step f s c)) = last_fire rule s"
  using assms repeats_fire [of f s c] repeats_quiet [of f s c] fanout_fire [of f s c] fanout_quiet [of f s c]
  by (auto simp: last_fire_def)

definition spaced :: "nat \<Rightarrow> nat list \<Rightarrow> bool" where
  "spaced w ts \<longleftrightarrow> sorted_wrt (\<lambda>a b. a + w \<le> b) ts"

lemma fire_times_spaced:
  assumes rule: "rule \<in> {''rapid_repeats'', ''rapid_fanout''}"
  shows "spaced rapid_repeat_window (fire_times f s rule tool cs) \<and>
    (\<forall>l. last_fire rule s tool = Some l \<longrightarrow> (\<forall>t \<in> set (fire_times f s rule tool cs). l + rapid_repeat_window \<le> t))"
proof (induction cs arbitrary: s)
  case (Cons c cs)
  let ?s = "snd (ob_step f s c)"
  note ih = Cons [of ?s]
  show ?case
  proof (cases "ob_tool c = tool \<and> fired (fst (ob_step f s c)) rule")
    case True
    then have l: "last_fire rule ?s tool = Some (ob_now c)" and cool: "\<not> cooling (last_fire rule s) tool (ob_now c)"
      using cooled_fire(1,2) [OF rule, of f s c] by auto
    have "0 < rapid_repeat_window" by (simp add: rapid_repeat_window_def)
    then have "last_fire rule s tool = Some k \<Longrightarrow> k + rapid_repeat_window \<le> ob_now c" for k
      using cool by (simp add: cooling_def)
    with True ih l show ?thesis
      by (fastforce simp: case_prod_beta spaced_def)
  next
    case False
    then have "last_fire rule ?s tool = last_fire rule s tool"
      using cooled_fire(2,3) [OF rule, of f s c] by (cases "fired (fst (ob_step f s c)) rule") auto
    with False ih show ?thesis by (auto simp: case_prod_beta)
  qed
qed (simp add: spaced_def)

text \<open>
  A burst is reported once: over any session, two reports of \<open>rapid_repeats\<close> for one tool, and
  likewise two of \<open>rapid_fanout\<close>, are at least the ten-second window apart.
\<close>

theorem bursts_reported_once:
  "spaced rapid_repeat_window (fire_times f new_stats ''rapid_repeats'' tool cs) \<and>
   spaced rapid_repeat_window (fire_times f new_stats ''rapid_fanout'' tool cs)"
  using fire_times_spaced [of "''rapid_repeats''"] fire_times_spaced [of "''rapid_fanout''"] by simp

section \<open>Novel destinations\<close>

definition network_values :: "observation list \<Rightarrow> string set" where
  "network_values cs = {dest_value d |d c. c \<in> set cs \<and> ob_dest c = Some d \<and> dest_kind d = Network}"

lemma seen_all: "seen_network_destinations (observe_all f s cs) = seen_network_destinations s \<union> network_values cs"
proof (induction cs arbitrary: s)
  case (Cons c cs)
  have "network_values (c # cs) = network_values [c] \<union> network_values cs"
    by (auto simp: network_values_def)
  moreover have "seen_network_destinations (snd (ob_step f s c)) = seen_network_destinations s \<union> network_values [c]"
    by (auto simp: obs_seen network_values_def split: option.splits)
  ultimately show ?case using Cons by auto
qed (simp add: network_values_def)

lemma novel_fired:
  "fired (fst (ob_step f s c)) ''novel_destination'' \<longleftrightarrow>
     (case ob_dest c of None \<Rightarrow> False
      | Some d \<Rightarrow> dest_kind d = Network \<and> seen_network_destinations s \<noteq> {} \<and> dest_value d \<notin> seen_network_destinations s)"
  by (simp add: fired_iff novel_rule_def split: option.splits)

text \<open>
  After any earlier calls, \<open>novel_destination\<close> is reported exactly for a network destination
  that none of them had, provided some earlier call had one. Filesystem destinations never fire it.
\<close>

theorem novel_destination_exact:
  "fired (fst (ob_step f (observe_all f new_stats cs) c)) ''novel_destination'' \<longleftrightarrow>
     (\<exists>d. ob_dest c = Some d \<and> dest_kind d = Network \<and> network_values cs \<noteq> {} \<and> dest_value d \<notin> network_values cs)"
  by (simp add: novel_fired seen_all new_stats_def split: option.splits)

section \<open>One report per size regime\<close>

lemma size_fired:
  "fired (fst (ob_step f s c)) ''size_spike'' \<longleftrightarrow>
     (case ob_bytes c of None \<Rightarrow> False
      | Some b \<Rightarrow> fst (observe_size (or_default default_tool_stats (tool_stats_of s (ob_tool c))) b) \<noteq> None)"
  by (simp add: fired_iff size_rule_def case_prod_beta split: option.splits)

lemma bands_grow: "set (known_spike_bands ts) \<subseteq> set (known_spike_bands (snd (observe_size ts b)))"
  by (auto simp: observe_size_def Let_def split: option.splits)

definition band_known :: "session_stats \<Rightarrow> string \<Rightarrow> int \<times> int \<Rightarrow> bool" where
  "band_known s tool band \<longleftrightarrow> (\<exists>ts. tool_stats_of s tool = Some ts \<and> band \<in> set (known_spike_bands ts))"

lemma band_known_all: "band_known s tool band \<Longrightarrow> band_known (observe_all f s cs) tool band"
proof (induction cs arbitrary: s)
  case (Cons c cs)
  have "band_known (snd (ob_step f s c)) tool band"
    using Cons.prems bands_grow by (fastforce simp: band_known_def obs_tools or_default_def split: option.splits)
  with Cons.IH show ?case by simp
qed simp

lemma size_band_member:
  assumes "0 \<le> b" and "b \<le> i64_max div 5"
  shows "in_band b (size_band b)"
proof -
  have "b * 5 \<le> i64_max" using assms by (simp add: i64_max_def)
  moreover have "b * 4 \<le> b * 5" using assms(1) by simp
  moreover have "i64_min \<le> b * 4" "i64_min \<le> b * 5" using assms(1) by (simp_all add: i64_min_def)
  ultimately have "saturating_mul b 4 = b * 4" "saturating_mul b 5 = b * 5"
    by (simp_all add: saturating_mul_def)
  moreover have "b * 4 div 5 \<le> b" "b \<le> b * 5 div 4" using assms(1) by presburger+
  ultimately show ?thesis by (simp add: in_band_def size_band_def anomaly_consts)
qed

text \<open>
  A size regime is reported once: after a spike of a tool has been reported, no later output
  of that tool whose size lies in the recorded band is reported again, and the reported size
  itself lies in its band (sizes up to a fifth of the \<open>i64\<close> range, where nothing saturates).
\<close>

theorem size_regime_reported_once:
  assumes "fired (fst (ob_step f s c)) ''size_spike''" and "ob_bytes c = Some b" and "b \<le> i64_max div 5"
    and "ob_tool c' = ob_tool c" and "ob_bytes c' = Some b'" and "in_band b' (size_band b)"
  shows "in_band b (size_band b) \<and>
    \<not> fired (fst (ob_step f (observe_all f s (c # cs)) c')) ''size_spike''"
proof -
  let ?ts = "or_default default_tool_stats (tool_stats_of s (ob_tool c))"
  have fire: "fst (observe_size ?ts b) \<noteq> None" using assms(1) [unfolded size_fired] assms(2) by simp
  then have pos: "0 \<le> b" and band: "size_band b \<in> set (known_spike_bands (snd (observe_size ?ts b)))"
    by (auto simp: observe_size_def Let_def split: if_splits option.splits)
  have "band_known (snd (ob_step f s c)) (ob_tool c) (size_band b)"
    unfolding band_known_def obs_tools using band assms(2) by simp
  then have "band_known (observe_all f s (c # cs)) (ob_tool c) (size_band b)"
    by (simp add: band_known_all)
  then have "\<not> fired (fst (ob_step f (observe_all f s (c # cs)) c')) ''size_spike''"
    using assms(4,5,6)
    unfolding size_fired by (auto simp: band_known_def or_default_def observe_size_def Let_def list_ex_iff)
  with size_band_member [OF pos assms(3)] show ?thesis by simp
qed

definition spike_at :: "int \<Rightarrow> observation" where
  "spike_at b = \<lparr>ob_tool = ''read'', ob_bytes = Some b, ob_dest = None, ob_fingerprint = [], ob_now = 0\<rparr>"

theorem size_regime_reported_once_witness:
  "in_band 2000000 (size_band 2000000) \<and>
   \<not> fired (fst (ob_step show_nat (observe_all show_nat new_stats (spike_at 2000000 # [spike_at 10])) (spike_at 2400000))) ''size_spike''"
proof (rule size_regime_reported_once)
  show "fired (fst (ob_step show_nat new_stats (spike_at 2000000))) ''size_spike''"
    unfolding size_fired
    by (simp add: spike_at_def observe_size_def new_stats_def or_default_def default_tool_stats_def median_def anomaly_consts)
  show "in_band 2400000 (size_band 2000000)"
    by (simp only: in_band_def size_band_def saturating_mul_def anomaly_consts i64_max_def i64_min_def) simp
qed (simp_all add: spike_at_def i64_max_def)

end
