(* ===== verification/Secrets.thy ===== *)
theory Secrets
  imports Json Utf8 Hex Truncate "HOL-Library.Multiset"
begin

text \<open>
  \<open>src/secrets.rs\<close>: detection of secrets by pattern and entropy, and their redaction in text and
  in JSON values.

  The regular expression engine (\<open>Regex::new\<close>, \<open>find_iter\<close>), SHA-256 and the TOML parser are
  libraries and therefore parameters. Entropy is a real number here, an \<open>f64\<close> in the code, so
  the comparison with a threshold is exact. \<open>to_lowercase\<close> is modelled on ASCII letters and leaves
  other characters alone.
\<close>

datatype severity = Low | Medium | High

fun severity_rank :: "severity \<Rightarrow> nat" where
  "severity_rank Low = 0"
| "severity_rank Medium = 1"
| "severity_rank High = 2"

instantiation severity :: linorder
begin

definition less_eq_severity :: "severity \<Rightarrow> severity \<Rightarrow> bool" where
  "less_eq_severity a b \<longleftrightarrow> severity_rank a \<le> severity_rank b"

definition less_severity :: "severity \<Rightarrow> severity \<Rightarrow> bool" where
  "less_severity a b \<longleftrightarrow> severity_rank a < severity_rank b"

instance
proof
  fix x y z :: severity
  show "x < y \<longleftrightarrow> x \<le> y \<and> \<not> y \<le> x" by (auto simp: less_eq_severity_def less_severity_def)
  show "x \<le> x" by (simp add: less_eq_severity_def)
  show "x \<le> y \<Longrightarrow> y \<le> z \<Longrightarrow> x \<le> z" by (simp add: less_eq_severity_def)
  show "x \<le> y \<Longrightarrow> y \<le> x \<Longrightarrow> x = y" by (cases x; cases y) (simp_all add: less_eq_severity_def)
  show "x \<le> y \<or> y \<le> x" by (auto simp: less_eq_severity_def)
qed

end

section \<open>Patterns\<close>

record pattern =
  pt_name :: string
  pt_regex :: string
  pt_severity :: severity
  pt_requires_entropy_check :: bool
  pt_key_name_hints :: "string list"

text \<open>\<open>from_str\<close> on the records the TOML parser yields; \<open>compiles\<close> says which expressions are valid.\<close>

fun load_patterns :: "(string \<Rightarrow> bool) \<Rightarrow> pattern list \<Rightarrow> pattern list result" where
  "load_patterns compiles [] = Inr []"
| "load_patterns compiles (p # ps) =
     (if \<not> compiles (pt_regex p) then Inl (Invalid (''pattern has invalid regex: '' @ pt_name p))
      else if \<not> pt_requires_entropy_check p \<and> pt_key_name_hints p \<noteq> []
      then Inl (Invalid (''pattern sets key_name_hints but not requires_entropy_check: '' @ pt_name p))
      else and_then (load_patterns compiles ps) (\<lambda>qs.
        Inr (p\<lparr>pt_key_name_hints := map to_lower (pt_key_name_hints p)\<rparr> # qs)))"

definition from_str ::
  "(string \<Rightarrow> pattern list option) \<Rightarrow> (string \<Rightarrow> bool) \<Rightarrow> string \<Rightarrow> pattern list result" where
  "from_str parse_toml compiles raw =
     (case parse_toml raw of
        None \<Rightarrow> Inl (Invalid ''failed to parse patterns file'')
      | Some ps \<Rightarrow> load_patterns compiles ps)"

section \<open>Entropy\<close>

definition max_entropy_scan_chars :: nat where "max_entropy_scan_chars = 1024"

definition shannon_entropy :: "string \<Rightarrow> real" where
  "shannon_entropy s =
     (let cs = take max_entropy_scan_chars (chars s)
      in if cs = [] then 0
         else - (\<Sum>c \<leftarrow> remdups cs. let p = real (count_list cs c) / real (length cs) in p * log 2 p))"

definition entropy_threshold_with_key_context :: real where "entropy_threshold_with_key_context = 3.5"
definition entropy_threshold_no_key_context :: real where "entropy_threshold_no_key_context = 4.3"

definition looks_token_like :: "string \<Rightarrow> bool" where
  "looks_token_like s \<longleftrightarrow> \<not> list_ex char_is_whitespace (chars s)"

definition is_ascii_alphabetic :: "char \<Rightarrow> bool" where
  "is_ascii_alphabetic c \<longleftrightarrow> in_range 65 90 c \<or> in_range 97 122 c"

definition is_ascii_alphanumeric :: "char \<Rightarrow> bool" where
  "is_ascii_alphanumeric c \<longleftrightarrow> is_ascii_alphabetic c \<or> in_range 48 57 c"

text \<open>The bytes after the last dot, if there is one.\<close>

definition after_last_dot :: "string \<Rightarrow> string option" where
  "after_last_dot s =
     (if CHR ''.'' \<in> set s then Some (rev (takeWhile (\<lambda>c. c \<noteq> CHR ''.'') (rev s))) else None)"

definition looks_structured_identifier :: "string \<Rightarrow> bool" where
  "looks_structured_identifier s \<longleftrightarrow>
     starts_with s ''/'' \<or> starts_with s [CHR 0x5C] \<or> starts_with s ''./'' \<or> starts_with s ''../'' \<or>
     starts_with s ''~/'' \<or>
     (3 \<le> length s \<and> is_ascii_alphabetic (s ! 0) \<and> s ! 1 = CHR '':'' \<and> (s ! 2 = CHR ''/'' \<or> s ! 2 = CHR 0x5C)) \<or>
     contains s ''://'' \<or>
     (case after_last_dot s of
        None \<Rightarrow> False
      | Some ext \<Rightarrow> 1 \<le> length ext \<and> length ext \<le> 6 \<and> list_all is_ascii_alphanumeric ext \<and>
          list_ex is_ascii_alphabetic ext)"

definition passes_entropy_gate :: "pattern \<Rightarrow> string \<Rightarrow> string option \<Rightarrow> bool" where
  "passes_entropy_gate p candidate key_lower =
     (if \<not> pt_requires_entropy_check p then True
      else if pt_key_name_hints p = [] then shannon_entropy candidate \<ge> entropy_threshold_with_key_context
      else if (case key_lower of None \<Rightarrow> False | Some k \<Rightarrow> list_ex (contains k) (pt_key_name_hints p))
      then shannon_entropy candidate \<ge> entropy_threshold_with_key_context
      else if key_lower \<noteq> None then False
      else looks_token_like candidate \<and> \<not> looks_structured_identifier candidate \<and>
           shannon_entropy candidate \<ge> entropy_threshold_no_key_context)"

section \<open>Hits\<close>

record hit =
  h_pattern :: string
  h_severity :: severity
  h_sha256 :: string
  h_start :: nat
  h_end :: nat
  h_allowlisted :: bool
  h_heuristic :: bool

text \<open>What a scan is given: the matcher, the digest, the compiled patterns and the allowlist.\<close>

record scanner =
  sc_find :: "string \<Rightarrow> string \<Rightarrow> (nat \<times> nat) list"
  sc_sha256 :: "bytes \<Rightarrow> bytes"
  sc_patterns :: "pattern list"
  sc_allowlist :: "string set"

definition sha256_hex :: "scanner \<Rightarrow> string \<Rightarrow> string" where
  "sha256_hex sc s = hex_encode (sc_sha256 sc s)"

definition pattern_hits :: "scanner \<Rightarrow> string \<Rightarrow> string option \<Rightarrow> pattern \<Rightarrow> hit list" where
  "pattern_hits sc val key_lower p =
     concat (map (\<lambda>(a, b).
       let candidate = take (b - a) (drop a val) in
       if passes_entropy_gate p candidate key_lower
       then [\<lparr>h_pattern = pt_name p, h_severity = pt_severity p, h_sha256 = sha256_hex sc candidate,
              h_start = a, h_end = b, h_allowlisted = sha256_hex sc candidate \<in> sc_allowlist sc,
              h_heuristic = pt_requires_entropy_check p\<rparr>]
       else []) (sc_find sc (pt_regex p) val))"

definition raw_hits :: "scanner \<Rightarrow> string \<Rightarrow> string option \<Rightarrow> hit list" where
  "raw_hits sc val key_name = concat (map (pattern_hits sc val (map_option to_lower key_name)) (sc_patterns sc))"

definition pick_preferred :: "hit \<Rightarrow> hit \<Rightarrow> hit" where
  "pick_preferred a b =
     (if h_allowlisted a \<noteq> h_allowlisted b then (if h_allowlisted a then b else a)
      else if h_heuristic a \<noteq> h_heuristic b then (if h_heuristic a then b else a)
      else if h_severity a < h_severity b then b else a)"

text \<open>The loop over the hits sorted by start, with the running group and its winner.\<close>

fun merge_from :: "nat \<Rightarrow> nat \<Rightarrow> hit \<Rightarrow> hit list \<Rightarrow> hit list" where
  "merge_from group_start group_end winner [] = [winner\<lparr>h_start := group_start, h_end := group_end\<rparr>]"
| "merge_from group_start group_end winner (h # hs) =
     (if h_start h < group_end
      then merge_from group_start (max group_end (h_end h)) (pick_preferred winner h) hs
      else winner\<lparr>h_start := group_start, h_end := group_end\<rparr> # merge_from (h_start h) (h_end h) h hs)"

definition merge_overlapping_hits :: "hit list \<Rightarrow> hit list" where
  "merge_overlapping_hits hs =
     (if length hs \<le> 1 then hs
      else case sort_key h_start hs of [] \<Rightarrow> [] | h # rest \<Rightarrow> merge_from (h_start h) (h_end h) h rest)"

definition scan_str :: "scanner \<Rightarrow> string \<Rightarrow> string option \<Rightarrow> hit list" where
  "scan_str sc val key_name = merge_overlapping_hits (raw_hits sc val key_name)"

section \<open>Redaction\<close>

definition range_ok :: "string \<Rightarrow> nat \<Rightarrow> hit \<Rightarrow> bool" where
  "range_ok s cursor h \<longleftrightarrow> cursor \<le> h_start h \<and> h_end h \<le> length s \<and> h_start h \<le> h_end h \<and>
     is_char_boundary s (h_start h) \<and> is_char_boundary s (h_end h)"

fun splice :: "string \<Rightarrow> nat \<Rightarrow> hit list \<Rightarrow> string" where
  "splice s cursor [] = drop cursor s"
| "splice s cursor (h # hs) =
     (if range_ok s cursor h
      then take (h_start h - cursor) (drop cursor s) @ ''[REDACTED:'' @ h_pattern h @ '']'' @ splice s (h_end h) hs
      else splice s cursor hs)"

definition redact_ranges :: "string \<Rightarrow> hit list \<Rightarrow> string" where
  "redact_ranges s hs =
     (let active = filter (\<lambda>h. \<not> h_allowlisted h) hs
      in if active = [] then s else splice s 0 (sort_key h_start active))"

definition scan_and_redact_text :: "scanner \<Rightarrow> string \<Rightarrow> string \<times> hit list" where
  "scan_and_redact_text sc text =
     (let hs = scan_str sc text None in if hs = [] then (text, hs) else (redact_ranges text hs, hs))"

section \<open>JSON\<close>

text \<open>The suffix loop; the fuel is the number of keys in the way plus one, which is enough.\<close>

fun suffix_loop :: "nat \<Rightarrow> string \<Rightarrow> string list \<Rightarrow> string \<Rightarrow> nat \<Rightarrow> string option" where
  "suffix_loop 0 new_key keys candidate n = None"
| "suffix_loop (Suc fuel) new_key keys candidate n =
     (if candidate \<in> set keys then suffix_loop fuel new_key keys (new_key @ '' #'' @ show_nat n) (n + 1)
      else Some candidate)"

definition rename_key :: "(string \<times> json) list \<Rightarrow> string \<times> string \<Rightarrow> (string \<times> json) list" where
  "rename_key ms r =
     (let (old_key, new_key) = r in
      case map_of ms old_key of
        None \<Rightarrow> ms
      | Some v \<Rightarrow>
          (let rest = filter (\<lambda>m. fst m \<noteq> old_key) ms
           in case suffix_loop (Suc (length rest)) new_key (map fst rest) new_key 2 of
                None \<Rightarrow> rest
              | Some candidate \<Rightarrow> obj_insert candidate v rest))"

text \<open>The first loop over the keys: the hits in them and the renames they ask for.\<close>

definition key_renames :: "scanner \<Rightarrow> string option \<Rightarrow> string list \<Rightarrow> (string \<times> string) list" where
  "key_renames sc key_name keys =
     concat (map (\<lambda>k. let found = scan_str sc k key_name in
       if found = [] then []
       else let redacted = redact_ranges k found in if redacted \<noteq> k then [(k, redacted)] else []) keys)"

definition redact_keys :: "scanner \<Rightarrow> string option \<Rightarrow> (string \<times> json) list \<Rightarrow> (string \<times> json) list" where
  "redact_keys sc key_name ms = foldl rename_key ms (key_renames sc key_name (map fst ms))"

lemma set_obj_insert: "set (obj_insert k v ms) \<subseteq> insert (k, v) (set ms)"
  by (induction k v ms rule: obj_insert.induct) auto

lemma rename_key_values: "snd ` set (rename_key ms r) \<subseteq> snd ` set ms"
proof (cases "map_of ms (fst r)")
  case (Some v)
  let ?rest = "filter (\<lambda>m. fst m \<noteq> fst r) ms"
  have v: "v \<in> snd ` set ms" using map_of_SomeD [OF Some] by force
  have "snd ` set (obj_insert c v ?rest) \<subseteq> snd ` set ms" for c
  proof -
    have "snd ` set (obj_insert c v ?rest) \<subseteq> insert v (snd ` set ?rest)"
      using image_mono [OF set_obj_insert [of c v ?rest], of snd] by simp
    with v show ?thesis by auto
  qed
  then show ?thesis using Some
    by (auto simp: rename_key_def Let_def case_prod_beta split: option.splits)
qed (simp add: rename_key_def case_prod_beta)

lemma redact_keys_values: "snd ` set (redact_keys sc key_name ms) \<subseteq> snd ` set ms"
proof -
  have "snd ` set (foldl rename_key ms rs) \<subseteq> snd ` set ms" for rs
  proof (induction rs arbitrary: ms)
    case (Cons r rs)
    show ?case using Cons.IH [of "rename_key ms r"] rename_key_values [of ms r] by (simp add: subset_iff)
  qed simp
  then show ?thesis by (simp add: redact_keys_def)
qed

lemma size_member: "(k, v) \<in> set ms \<Longrightarrow> size v < size_list (size_prod (\<lambda>x. 0) size) ms" for v :: json
  by (induction ms) auto

lemma size_redacted_member:
  assumes "(k, v) \<in> set (redact_keys sc key_name ms)"
  shows "size v < size_list (size_prod (\<lambda>x. 0) size) ms"
proof -
  have "v \<in> snd ` set ms" using assms redact_keys_values by force
  then obtain k' where "(k', v) \<in> set ms" by auto
  then show ?thesis by (rule size_member)
qed

function walk_json :: "scanner \<Rightarrow> string option \<Rightarrow> json \<Rightarrow> json \<times> hit list" where
  "walk_json sc key_name (JString s) =
     (let found = scan_str sc s key_name
      in if found = [] then (JString s, []) else (JString (redact_ranges s found), found))"
| "walk_json sc key_name (JArray arr) =
     (let rs = map (walk_json sc None) arr in (JArray (map fst rs), concat (map snd rs)))"
| "walk_json sc key_name (JObject ms) =
     (let key_hits = concat (map (\<lambda>m. scan_str sc (fst m) key_name) ms);
          rs = map (\<lambda>(k, v). (k, walk_json sc (Some k) v)) (redact_keys sc key_name ms)
      in (JObject (map (\<lambda>(k, r). (k, fst r)) rs), key_hits @ concat (map (\<lambda>(k, r). snd r) rs)))"
| "walk_json sc key_name JNull = (JNull, [])"
| "walk_json sc key_name (JBool b) = (JBool b, [])"
| "walk_json sc key_name (JNumber n) = (JNumber n, [])"
  by pat_completeness auto
termination
  by (relation "measure (\<lambda>(sc, key_name, v). size v)") (auto intro: size_redacted_member size_json_item less_SucI)

definition scan_and_redact_json :: "scanner \<Rightarrow> json \<Rightarrow> json \<times> hit list" where
  "scan_and_redact_json sc val = walk_json sc None val"

end
