(* ===== verification/SecretsProps.thy ===== *)
theory SecretsProps
  imports Secrets
begin

text \<open>
  What redaction guarantees: the stored text does not depend on a single byte of a match that is
  not allowlisted, text without such a match is untouched, renaming keys never loses a member, and
  no string or key of a JSON value escapes the scan.
\<close>

section \<open>Merging\<close>

lemma pick_preferred_allowlisted [simp]:
  "h_allowlisted (pick_preferred a b) \<longleftrightarrow> h_allowlisted a \<and> h_allowlisted b"
  by (auto simp: pick_preferred_def)

definition covers :: "hit \<Rightarrow> hit \<Rightarrow> bool" where
  "covers m h \<longleftrightarrow> h_start m \<le> h_start h \<and> h_end h \<le> h_end m \<and> (\<not> h_allowlisted h \<longrightarrow> \<not> h_allowlisted m)"

definition disjoint_hits :: "hit list \<Rightarrow> bool" where
  "disjoint_hits hs \<longleftrightarrow> sorted_wrt (\<lambda>a b. h_end a \<le> h_start b) hs"

lemma merge_from_starts:
  "sorted (map h_start hs) \<Longrightarrow> \<forall>h \<in> set hs. gs \<le> h_start h \<Longrightarrow>
     \<forall>m \<in> set (merge_from gs ge w hs). gs \<le> h_start m"
proof (induction gs ge w hs rule: merge_from.induct)
  case (2 gs ge w h hs)
  have s: "sorted (map h_start hs)" "\<forall>x \<in> set hs. h_start h \<le> h_start x" using "2.prems"(1) by auto
  show ?case
  proof (cases "h_start h < ge")
    case True
    with "2.IH"(1) s "2.prems"(2) show ?thesis by simp
  next
    case False
    with "2.IH"(2) s "2.prems"(2) show ?thesis by fastforce
  qed
qed simp

lemma merge_from_disjoint:
  "sorted (map h_start hs) \<Longrightarrow> \<forall>h \<in> set hs. gs \<le> h_start h \<Longrightarrow> disjoint_hits (merge_from gs ge w hs)"
proof (induction gs ge w hs rule: merge_from.induct)
  case (2 gs ge w h hs)
  have s: "sorted (map h_start hs)" "\<forall>x \<in> set hs. h_start h \<le> h_start x" using "2.prems"(1) by auto
  show ?case
  proof (cases "h_start h < ge")
    case True
    with "2.IH"(1) s "2.prems"(2) show ?thesis by simp
  next
    case False
    have "\<forall>m \<in> set (merge_from (h_start h) (h_end h) h hs). ge \<le> h_start m"
      using merge_from_starts [OF s] False by fastforce
    with "2.IH"(2) s False show ?thesis by (simp add: disjoint_hits_def)
  qed
qed (simp add: disjoint_hits_def)

lemma merge_from_covers:
  "\<forall>h \<in> set hs. gs \<le> h_start h \<Longrightarrow> sorted (map h_start hs) \<Longrightarrow>
     (\<forall>h \<in> set (w\<lparr>h_start := gs, h_end := ge\<rparr> # hs). \<exists>m \<in> set (merge_from gs ge w hs). covers m h)"
proof (induction gs ge w hs rule: merge_from.induct)
  case (1 gs ge w)
  then show ?case by (simp add: covers_def)
next
  case (2 gs ge w h hs)
  have s: "sorted (map h_start hs)" "\<forall>x \<in> set hs. h_start h \<le> h_start x" using "2.prems"(2) by auto
  show ?case
  proof (cases "h_start h < ge")
    case True
    let ?M = "merge_from gs (max ge (h_end h)) (pick_preferred w h) hs"
    have ih: "\<exists>m \<in> set ?M. covers m ((pick_preferred w h)\<lparr>h_start := gs, h_end := max ge (h_end h)\<rparr>)"
      and ih': "\<forall>x \<in> set hs. \<exists>m \<in> set ?M. covers m x"
      using "2.IH"(1) [OF True] s "2.prems"(1) by simp_all
    from ih obtain m where "m \<in> set ?M" "covers m ((pick_preferred w h)\<lparr>h_start := gs, h_end := max ge (h_end h)\<rparr>)" by blast
    then have "m \<in> set ?M \<and> covers m (w\<lparr>h_start := gs, h_end := ge\<rparr>) \<and> covers m h"
      using "2.prems"(1) by (auto simp: covers_def)
    with ih' True show ?thesis by auto
  next
    case False
    have "h\<lparr>h_start := h_start h, h_end := h_end h\<rparr> = h" by simp
    with "2.IH"(2) [OF False] s False show ?thesis by (fastforce simp: covers_def)
  qed
qed

definition edges_from :: "nat set \<Rightarrow> nat set \<Rightarrow> hit list \<Rightarrow> bool" where
  "edges_from A B ms \<longleftrightarrow> (\<forall>m \<in> set ms. h_start m \<in> A \<and> h_end m \<in> B)"

lemma merge_from_edges:
  "edges_from (insert gs (h_start ` set hs)) (insert ge (h_end ` set hs)) (merge_from gs ge w hs)"
proof (induction gs ge w hs rule: merge_from.induct)
  case (2 gs ge w h hs)
  have mono: "edges_from A B ms \<Longrightarrow> A \<subseteq> A' \<Longrightarrow> B \<subseteq> B' \<Longrightarrow> edges_from A' B' ms" for A B A' B' ms
    unfolding edges_from_def by blast
  show ?case
  proof (cases "h_start h < ge")
    case True
    then have eq: "merge_from gs ge w (h # hs) = merge_from gs (max ge (h_end h)) (pick_preferred w h) hs" by simp
    have mx: "max ge (h_end h) \<in> insert ge (h_end ` set (h # hs))" by (simp add: max_def)
    show ?thesis unfolding eq
    proof (rule mono [OF "2.IH"(1) [OF True]])
      show "insert gs (h_start ` set hs) \<subseteq> insert gs (h_start ` set (h # hs))" by auto
      show "insert (max ge (h_end h)) (h_end ` set hs) \<subseteq> insert ge (h_end ` set (h # hs))"
        using mx by (simp only: insert_subset) auto
    qed
  next
    case False
    have "edges_from (insert gs (h_start ` set (h # hs))) (insert ge (h_end ` set (h # hs)))
        (merge_from (h_start h) (h_end h) h hs)"
      by (rule mono [OF "2.IH"(2) [OF False]]) auto
    with False show ?thesis by (simp add: edges_from_def)
  qed
qed (simp add: edges_from_def)

lemma merge_from_proper:
  "gs \<le> ge \<Longrightarrow> \<forall>h \<in> set hs. h_start h \<le> h_end h \<Longrightarrow> \<forall>m \<in> set (merge_from gs ge w hs). h_start m \<le> h_end m"
proof (induction gs ge w hs rule: merge_from.induct)
  case (2 gs ge w h hs)
  have p: "h_start h \<le> h_end h" "\<forall>x \<in> set hs. h_start x \<le> h_end x" using "2.prems"(2) by simp_all
  show ?case
  proof (cases "h_start h < ge")
    case True
    have "gs \<le> max ge (h_end h)" using "2.prems"(1) by linarith
    from "2.IH"(1) [OF True this p(2)] True show ?thesis by simp
  next
    case False
    from "2.IH"(2) [OF False p] False "2.prems"(1) show ?thesis by simp
  qed
qed simp

text \<open>The merged hits of any list of hits.\<close>

lemma merge_hits:
  assumes "\<forall>h \<in> set hs. h_start h \<le> h_end h"
  shows "disjoint_hits (merge_overlapping_hits hs)"
    and "\<forall>h \<in> set hs. \<exists>m \<in> set (merge_overlapping_hits hs). covers m h"
    and "edges_from (h_start ` set hs) (h_end ` set hs) (merge_overlapping_hits hs)"
    and "\<forall>m \<in> set (merge_overlapping_hits hs). h_start m \<le> h_end m"
proof -
  have "disjoint_hits (merge_overlapping_hits hs) \<and>
    (\<forall>h \<in> set hs. \<exists>m \<in> set (merge_overlapping_hits hs). covers m h) \<and>
    edges_from (h_start ` set hs) (h_end ` set hs) (merge_overlapping_hits hs) \<and>
    (\<forall>m \<in> set (merge_overlapping_hits hs). h_start m \<le> h_end m)"
  proof (cases "length hs \<le> 1")
    case True
    then consider "hs = []" | h where "hs = [h]" by (cases hs) auto
    then show ?thesis
      by cases (use assms in \<open>auto simp: merge_overlapping_hits_def disjoint_hits_def edges_from_def covers_def\<close>)
  next
    case False
    then obtain h rest where hr: "sort_key h_start hs = h # rest"
      by (metis length_0_conv length_sort list.exhaust zero_le_one nat_le_linear le_zero_eq)
    have set: "set (h # rest) = set hs" using hr by (metis set_sort)
    have "sorted (map h_start (h # rest))" using hr by (metis sorted_sort_key)
    then have s: "sorted (map h_start rest)" "\<forall>x \<in> set rest. h_start h \<le> h_start x" by auto
    have m: "merge_overlapping_hits hs = merge_from (h_start h) (h_end h) h rest"
      using False hr by (simp add: merge_overlapping_hits_def)
    have p: "h_start h \<le> h_end h" "\<forall>x \<in> set rest. h_start x \<le> h_end x" using assms set by auto
    have "\<forall>x \<in> set hs. \<exists>m \<in> set (merge_overlapping_hits hs). covers m x"
      unfolding set [symmetric] using merge_from_covers [OF s(2,1), where w = h and ge = "h_end h"] m by simp
    moreover have "edges_from (h_start ` set hs) (h_end ` set hs) (merge_overlapping_hits hs)"
      unfolding set [symmetric]
      using merge_from_edges [where gs = "h_start h" and hs = rest and ge = "h_end h" and w = h] m by simp
    ultimately show ?thesis
      using merge_from_disjoint [OF s, where ge = "h_end h" and w = h] merge_from_proper [OF p, where w = h] m set by simp
  qed
  then show "disjoint_hits (merge_overlapping_hits hs)"
    and "\<forall>h \<in> set hs. \<exists>m \<in> set (merge_overlapping_hits hs). covers m h"
    and "edges_from (h_start ` set hs) (h_end ` set hs) (merge_overlapping_hits hs)"
    and "\<forall>m \<in> set (merge_overlapping_hits hs). h_start m \<le> h_end m" by blast+
qed

section \<open>Splicing\<close>

text \<open>What the regular expression engine documents of the ranges it returns.\<close>

definition spans_ok :: "string \<Rightarrow> hit list \<Rightarrow> bool" where
  "spans_ok s hs \<longleftrightarrow> (\<forall>h \<in> set hs. h_start h \<le> h_end h \<and> h_end h \<le> length s \<and>
     is_char_boundary s (h_start h) \<and> is_char_boundary s (h_end h))"

definition find_ok :: "scanner \<Rightarrow> string \<Rightarrow> bool" where
  "find_ok sc s \<longleftrightarrow> (\<forall>p \<in> set (sc_patterns sc). \<forall>(a, b) \<in> set (sc_find sc (pt_regex p) s).
     a \<le> b \<and> b \<le> length s \<and> is_char_boundary s a \<and> is_char_boundary s b)"

lemma raw_hits_spans_ok: "find_ok sc s \<Longrightarrow> spans_ok s (raw_hits sc s key_name)"
  by (fastforce simp: find_ok_def spans_ok_def raw_hits_def pattern_hits_def Let_def split: if_splits)

lemma merged_spans_ok: "spans_ok s hs \<Longrightarrow> spans_ok s (merge_overlapping_hits hs)"
  using merge_hits [of hs] by (fastforce simp: spans_ok_def edges_from_def)

definition in_hit :: "hit list \<Rightarrow> nat \<Rightarrow> bool" where
  "in_hit hs i \<longleftrightarrow> (\<exists>h \<in> set hs. \<not> h_allowlisted h \<and> h_start h \<le> i \<and> i < h_end h)"

lemma splice_agree:
  assumes "length t = length s" and "\<forall>i. is_char_boundary t i = is_char_boundary s i"
    and "\<forall>i. c \<le> i \<and> i < length s \<and> (\<forall>h \<in> set hs. \<not> (h_start h \<le> i \<and> i < h_end h)) \<longrightarrow> t ! i = s ! i"
    and "disjoint_hits hs" and "\<forall>h \<in> set hs. range_ok s c h"
  shows "splice t c hs = splice s c hs"
  using assms(3-5)
proof (induction hs arbitrary: c)
  case Nil
  then show ?case using assms(1) by (auto intro!: nth_equalityI)
next
  case (Cons h hs)
  have ok: "range_ok s c h" using Cons.prems(3) by simp
  then have ok': "range_ok t c h" using assms(1,2) by (simp add: range_ok_def)
  have d: "disjoint_hits hs" "\<forall>h' \<in> set hs. h_end h \<le> h_start h'" using Cons.prems(2) by (auto simp: disjoint_hits_def)
  have le: "c \<le> h_start h" "h_start h \<le> h_end h" "h_end h \<le> length s" using ok by (auto simp: range_ok_def)
  have "take (h_start h - c) (drop c t) = take (h_start h - c) (drop c s)"
  proof (rule nth_equalityI)
    fix i assume "i < length (take (h_start h - c) (drop c t))"
    then have i: "c + i < h_start h" "c + i < length s" using assms(1) le by auto
    then have "\<forall>h' \<in> set (h # hs). \<not> (h_start h' \<le> c + i \<and> c + i < h_end h')" using d le by fastforce
    with i Cons.prems(1) show "take (h_start h - c) (drop c t) ! i = take (h_start h - c) (drop c s) ! i"
      using assms(1) by simp
  qed (use assms(1) in simp)
  moreover have "splice t (h_end h) hs = splice s (h_end h) hs"
  proof (rule Cons.IH [OF _ d(1)])
    show "\<forall>i. h_end h \<le> i \<and> i < length s \<and> (\<forall>h \<in> set hs. \<not> (h_start h \<le> i \<and> i < h_end h)) \<longrightarrow> t ! i = s ! i"
      using Cons.prems(1) le by auto
    show "\<forall>h' \<in> set hs. range_ok s (h_end h) h'" using Cons.prems(3) d(2) by (simp add: range_ok_def)
  qed
  ultimately show ?case using ok ok' by simp
qed

lemma disjoint_hits_filter: "disjoint_hits hs \<Longrightarrow> disjoint_hits (filter P hs)"
  by (simp add: disjoint_hits_def sorted_wrt_filter)

lemma disjoint_hits_sorted:
  assumes "disjoint_hits hs" and "\<forall>h \<in> set hs. h_start h \<le> h_end h"
  shows "sort_key h_start hs = hs"
proof -
  have "sorted (map h_start hs)" using assms
    by (induction hs) (auto simp: disjoint_hits_def intro: order_trans)
  then show ?thesis by (rule sort_key_id_if_sorted)
qed

section \<open>Keys\<close>

lemma suffix_loop_None:
  "suffix_loop fuel k keys c n = None \<Longrightarrow> 0 < fuel \<Longrightarrow>
     c \<in> set keys \<and> (\<forall>j < fuel - 1. k @ '' #'' @ show_nat (n + j) \<in> set keys)"
proof (induction fuel k keys c n rule: suffix_loop.induct)
  case (2 fuel k keys c n)
  show ?case
  proof (cases fuel)
    case 0
    with 2 show ?thesis by (simp split: if_splits)
  next
    case (Suc f)
    have c: "c \<in> set keys" using "2.prems" by (simp split: if_splits)
    with 2 Suc have ih: "k @ '' #'' @ show_nat n \<in> set keys"
      "\<forall>j < f. k @ '' #'' @ show_nat (n + 1 + j) \<in> set keys" by auto
    have "k @ '' #'' @ show_nat (n + j) \<in> set keys" if "j < Suc f" for j
      using ih that by (cases j) (auto simp: ac_simps)
    with c Suc show ?thesis by simp
  qed
qed simp

lemma suffix_loop_ends: "\<exists>c. suffix_loop (Suc (length keys)) k keys k 2 = Some c"
proof (rule ccontr)
  assume "\<nexists>c. suffix_loop (Suc (length keys)) k keys k 2 = Some c"
  then have none: "suffix_loop (Suc (length keys)) k keys k 2 = None" by (cases "suffix_loop (Suc (length keys)) k keys k 2") auto
  let ?f = "\<lambda>j. k @ '' #'' @ show_nat (2 + j)"
  let ?S = "insert k (?f ` {..<length keys})"
  have "?S \<subseteq> set keys" using suffix_loop_None [OF none] by auto
  moreover have "card ?S = Suc (length keys)"
  proof -
    have "inj_on ?f {..<length keys}" by (auto simp: inj_on_def)
    moreover have "k \<notin> ?f ` {..<length keys}" by auto
    ultimately show ?thesis by (simp add: card_image)
  qed
  ultimately have "Suc (length keys) \<le> card (set keys)" using card_mono [OF finite_set] by metis
  then show False using card_length [of keys] by simp
qed

lemma suffix_loop_fresh: "suffix_loop fuel k keys c n = Some c' \<Longrightarrow> c' \<notin> set keys"
  by (induction fuel k keys c n rule: suffix_loop.induct) (auto split: if_splits)

lemma suffix_loop_shape:
  "suffix_loop fuel k keys c n = Some c' \<Longrightarrow> c = k \<or> (\<exists>m. c = k @ '' #'' @ show_nat m) \<Longrightarrow>
     c' = k \<or> (\<exists>m. c' = k @ '' #'' @ show_nat m)"
  by (induction fuel k keys c n rule: suffix_loop.induct) (auto split: if_splits)

lemma mset_obj_insert: "k \<notin> fst ` set ms \<Longrightarrow> mset (map snd (obj_insert k v ms)) = add_mset v (mset (map snd ms))"
  by (induction k v ms rule: obj_insert.induct) auto

lemma keys_ascend_filter: "keys_ascend ms \<Longrightarrow> keys_ascend (filter P ms)"
proof (induction ms)
  case (Cons m ms)
  obtain k v where "m = (k, v)" by (cases m)
  with Cons show ?case by (auto simp: keys_ascend_Cons)
qed simp

lemma keys_ascend_distinct: "keys_ascend ms \<Longrightarrow> distinct (map fst ms)"
proof (induction ms)
  case (Cons m ms)
  obtain k v where "m = (k, v)" by (cases m)
  with Cons show ?case by (auto simp: keys_ascend_Cons)
qed simp

lemma remove_member:
  "distinct (map fst ms) \<Longrightarrow> map_of ms k = Some v \<Longrightarrow>
     mset (map snd ms) = add_mset v (mset (map snd (filter (\<lambda>m. fst m \<noteq> k) ms)))"
proof (induction ms)
  case (Cons m ms)
  show ?case
  proof (cases "fst m = k")
    case True
    with Cons.prems have "filter (\<lambda>m. fst m \<noteq> k) ms = ms" by (auto simp: filter_id_conv image_iff)
    with True Cons.prems show ?thesis by (cases m) simp
  next
    case False
    with Cons show ?thesis by (cases m) auto
  qed
qed simp

lemma rename_key_keeps:
  assumes "keys_ascend ms"
  shows "keys_ascend (rename_key ms r) \<and> mset (map snd (rename_key ms r)) = mset (map snd ms)"
proof (cases "map_of ms (fst r)")
  case (Some v)
  let ?rest = "filter (\<lambda>m. fst m \<noteq> fst r) ms"
  obtain c where c: "suffix_loop (Suc (length ?rest)) (snd r) (map fst ?rest) (snd r) 2 = Some c"
    using suffix_loop_ends [of "map fst ?rest" "snd r"] by auto
  have fresh: "c \<notin> fst ` set ?rest" using suffix_loop_fresh [OF c] by simp
  have "mset (map snd (obj_insert c v ?rest)) = mset (map snd ms)"
    using mset_obj_insert [OF fresh] remove_member [OF keys_ascend_distinct [OF assms] Some] by simp
  moreover have "keys_ascend (obj_insert c v ?rest)"
    using assms by (simp add: keys_ascend_filter keys_ascend_obj_insert)
  moreover have "rename_key ms r = obj_insert c v ?rest"
    using Some c by (simp add: rename_key_def Let_def case_prod_beta)
  ultimately show ?thesis by simp
qed (use assms in \<open>simp add: rename_key_def case_prod_beta\<close>)

lemma rename_keys_keep:
  "keys_ascend ms \<Longrightarrow> keys_ascend (foldl rename_key ms rs) \<and> mset (map snd (foldl rename_key ms rs)) = mset (map snd ms)"
  by (induction rs arbitrary: ms) (simp, metis foldl_Cons rename_key_keeps)

section \<open>Every string and key of a value\<close>

fun json_strings :: "json \<Rightarrow> string list" where
  "json_strings (JString s) = [s]"
| "json_strings (JArray arr) = concat (map json_strings arr)"
| "json_strings (JObject ms) = concat (map (\<lambda>(k, v). json_strings v) ms)"
| "json_strings JNull = []"
| "json_strings (JBool b) = []"
| "json_strings (JNumber n) = []"

fun json_keys :: "json \<Rightarrow> string list" where
  "json_keys (JArray arr) = concat (map json_keys arr)"
| "json_keys (JObject ms) = map fst ms @ concat (map (\<lambda>(k, v). json_keys v) ms)"
| "json_keys (JString s) = []"
| "json_keys JNull = []"
| "json_keys (JBool b) = []"
| "json_keys (JNumber n) = []"

text \<open>A text as it is stored: scanned in some key context, every reported range redacted.\<close>

definition redacted_text :: "scanner \<Rightarrow> string \<Rightarrow> string \<Rightarrow> bool" where
  "redacted_text sc s t \<longleftrightarrow> (\<exists>key_name. t = redact_ranges s (scan_str sc s key_name))"

definition redacted_key :: "scanner \<Rightarrow> string \<Rightarrow> string \<Rightarrow> bool" where
  "redacted_key sc k t \<longleftrightarrow> (\<exists>r. redacted_text sc k r \<and> (t = r \<or> (\<exists>n. t = r @ '' #'' @ show_nat n)))"

lemma redact_ranges_Nil [simp]: "redact_ranges s [] = s"
  by (simp add: redact_ranges_def)

lemma subset_step:
  "A \<subseteq> (M - {a}) \<union> N \<Longrightarrow> M \<subseteq> D \<union> T \<Longrightarrow> E = D - {a} \<Longrightarrow> T \<subseteq> U \<Longrightarrow> N \<subseteq> U \<Longrightarrow> A \<subseteq> E \<union> U"
  by blast

lemma renamed_keys:
  "fst ` set (foldl rename_key ms rs) \<subseteq>
    (fst ` set ms - fst ` set rs) \<union> {t. \<exists>(a, b) \<in> set rs. t = b \<or> (\<exists>n. t = b @ '' #'' @ show_nat n)}"
proof (induction rs rule: rev_induct)
  case (snoc r rs)
  obtain a b where r: "r = (a, b)" by fastforce
  let ?T = "{t. \<exists>(a, b) \<in> set (rs @ [r]). t = b \<or> (\<exists>n. t = b @ '' #'' @ show_nat n)}"
  let ?ms = "foldl rename_key ms rs"
  have step: "fst ` set (rename_key ?ms (a, b)) \<subseteq> (fst ` set ?ms - {a}) \<union> {t. t = b \<or> (\<exists>n. t = b @ '' #'' @ show_nat n)}"
  proof (cases "map_of ?ms a")
    case None
    then have "rename_key ?ms (a, b) = ?ms" "a \<notin> fst ` set ?ms" using None by (simp_all add: rename_key_def, simp add: map_of_eq_None_iff)
    then show ?thesis by auto
  next
    case (Some v)
    let ?rest = "filter (\<lambda>m. fst m \<noteq> a) ?ms"
    obtain c where c: "suffix_loop (Suc (length ?rest)) b (map fst ?rest) b 2 = Some c"
      using suffix_loop_ends [of "map fst ?rest" b] by auto
    have "c = b \<or> (\<exists>n. c = b @ '' #'' @ show_nat n)" using suffix_loop_shape [OF c] by simp
    moreover have "rename_key ?ms (a, b) = obj_insert c v ?rest"
      using Some c by (simp add: rename_key_def Let_def)
    ultimately show ?thesis by (auto simp: keys_obj_insert)
  qed
  have "foldl rename_key ms (rs @ [r]) = rename_key ?ms (a, b)" by (simp add: r)
  have e: "fst ` set ms - fst ` set (rs @ [r]) = (fst ` set ms - fst ` set rs) - {a}" by (auto simp: r)
  have t: "{t. \<exists>(a, b) \<in> set rs. t = b \<or> (\<exists>n. t = b @ '' #'' @ show_nat n)} \<subseteq> ?T"
    unfolding set_append by blast
  have n: "{t. t = b \<or> (\<exists>n. t = b @ '' #'' @ show_nat n)} \<subseteq> ?T"
  proof -
    have "(a, b) \<in> set (rs @ [r])" by (simp add: r)
    then show ?thesis by blast
  qed
  show ?case unfolding \<open>foldl rename_key ms (rs @ [r]) = rename_key ?ms (a, b)\<close>
    by (rule subset_step [OF step snoc e t n])
qed simp

lemma redact_keys_scanned:
  assumes "k' \<in> fst ` set (redact_keys sc key_name ms)"
  shows "\<exists>k \<in> fst ` set ms. redacted_key sc k k'"
proof -
  let ?rs = "key_renames sc key_name (map fst ms)"
  have rs: "(a, b) \<in> set ?rs \<longleftrightarrow> a \<in> fst ` set ms \<and> scan_str sc a key_name \<noteq> [] \<and>
      b = redact_ranges a (scan_str sc a key_name) \<and> b \<noteq> a" for a b
    by (auto simp: key_renames_def Let_def image_iff split: if_splits)
  have "k' \<in> (fst ` set ms - fst ` set ?rs) \<union> {t. \<exists>(a, b) \<in> set ?rs. t = b \<or> (\<exists>n. t = b @ '' #'' @ show_nat n)}"
    using assms renamed_keys [of ms ?rs] by (auto simp: redact_keys_def)
  then show ?thesis
  proof
    assume k: "k' \<in> fst ` set ms - fst ` set ?rs"
    have "k' = redact_ranges k' (scan_str sc k' key_name)"
    proof (rule ccontr)
      assume ne: "k' \<noteq> redact_ranges k' (scan_str sc k' key_name)"
      then have "scan_str sc k' key_name \<noteq> []" by (metis redact_ranges_Nil)
      with ne k have "(k', redact_ranges k' (scan_str sc k' key_name)) \<in> set ?rs" by (simp add: rs)
      then have "k' \<in> fst ` set ?rs" by force
      with k show False by blast
    qed
    with k show ?thesis unfolding redacted_key_def redacted_text_def by blast
  next
    assume "k' \<in> {t. \<exists>(a, b) \<in> set ?rs. t = b \<or> (\<exists>n. t = b @ '' #'' @ show_nat n)}"
    then obtain a b where "(a, b) \<in> set ?rs" "k' = b \<or> (\<exists>n. k' = b @ '' #'' @ show_nat n)" by blast
    with rs show ?thesis unfolding redacted_key_def redacted_text_def by blast
  qed
qed

lemma walk_strings:
  "t \<in> set (json_strings (fst (walk_json sc key_name v))) \<Longrightarrow> \<exists>s \<in> set (json_strings v). redacted_text sc s t"
proof (induction sc key_name v arbitrary: t rule: walk_json.induct)
  case (1 sc key_name s)
  then show ?case by (auto simp: Let_def redacted_text_def split: if_splits) (metis redact_ranges_Nil)
next
  case (2 sc key_name arr)
  then show ?case by (fastforce simp: Let_def)
next
  case (3 sc key_name ms)
  from "3.prems" obtain k v where kv: "(k, v) \<in> set (redact_keys sc key_name ms)"
      "t \<in> set (json_strings (fst (walk_json sc (Some k) v)))"
    by (auto simp: Let_def case_prod_beta)
  have "\<exists>s \<in> set (json_strings v). redacted_text sc s t"
    using "3.IH" kv by (metis (no_types, lifting))
  moreover have "v \<in> snd ` set ms" using redact_keys_values kv(1) by force
  ultimately show ?case by fastforce
qed simp_all

lemma walk_keys:
  "t \<in> set (json_keys (fst (walk_json sc key_name v))) \<Longrightarrow> \<exists>k \<in> set (json_keys v). redacted_key sc k t"
proof (induction sc key_name v arbitrary: t rule: walk_json.induct)
  case (1 sc key_name s)
  then show ?case by (auto simp: Let_def split: if_splits)
next
  case (2 sc key_name arr)
  then show ?case by (fastforce simp: Let_def)
next
  case (3 sc key_name ms)
  from "3.prems" consider "t \<in> fst ` set (redact_keys sc key_name ms)"
    | k v where "(k, v) \<in> set (redact_keys sc key_name ms)" "t \<in> set (json_keys (fst (walk_json sc (Some k) v)))"
    by (auto simp: Let_def case_prod_beta image_iff)
  then show ?case
  proof cases
    case 1
    then obtain k where "k \<in> fst ` set ms" "redacted_key sc k t" using redact_keys_scanned by blast
    then show ?thesis by (auto intro: bexI [of _ k])
  next
    case (2 k v)
    have "\<exists>k \<in> set (json_keys v). redacted_key sc k t" using "3.IH" 2 by (metis (no_types, lifting))
    moreover have "v \<in> snd ` set ms" using redact_keys_values 2(1) by force
    ultimately show ?thesis by fastforce
  qed
qed simp_all

section \<open>Properties\<close>


text \<open>Two overlapping matches, one of them allowlisted.\<close>

definition sample_scanner :: scanner where
  "sample_scanner = \<lparr>sc_find = (\<lambda>re s. if re = ''key'' then [(1, 4)] else [(2, 6)]), sc_sha256 = id,
     sc_patterns = [\<lparr>pt_name = ''key'', pt_regex = ''key'', pt_severity = High, pt_requires_entropy_check = False, pt_key_name_hints = []\<rparr>,
       \<lparr>pt_name = ''token'', pt_regex = ''token'', pt_severity = Low, pt_requires_entropy_check = False, pt_key_name_hints = []\<rparr>],
     sc_allowlist = {hex_encode ''bcd''}\<rparr>"

lemma sample_hits:
  "raw_hits sample_scanner ''abcdefg'' None =
     [\<lparr>h_pattern = ''key'', h_severity = High, h_sha256 = hex_encode ''bcd'', h_start = 1, h_end = 4, h_allowlisted = True, h_heuristic = False\<rparr>,
      \<lparr>h_pattern = ''token'', h_severity = Low, h_sha256 = hex_encode ''cdef'', h_start = 2, h_end = 6, h_allowlisted = False, h_heuristic = False\<rparr>]"
  by (simp add: sample_scanner_def raw_hits_def pattern_hits_def sha256_hex_def passes_entropy_gate_def
      hex_encode_inject)

lemma ascii_boundary: "ascii s \<Longrightarrow> is_char_boundary s i \<longleftrightarrow> i \<le> length s"
proof -
  assume "ascii s"
  have "\<not> (128 \<le> (of_char (s ! i) :: nat))" if "i < length s"
  proof -
    have "of_char (s ! i) \<le> (127 :: nat)" using \<open>ascii s\<close> that by (simp add: ascii_def in_range_def list_all_length)
    then show ?thesis by linarith
  qed
  then show ?thesis by (auto simp: is_char_boundary_def)
qed


text \<open>
  A text without a match, or whose matches are all allowlisted, is stored as it is: redaction
  alters nothing else.
\<close>

theorem unmatched_text_untouched:
  assumes "\<forall>h \<in> set (raw_hits sc s None). h_allowlisted h"
  shows "fst (scan_and_redact_text sc s) = s"
proof -
  have all: "\<forall>h \<in> set (merge_from gs ge w hs). h_allowlisted h" if "h_allowlisted w" "\<forall>h \<in> set hs. h_allowlisted h" for gs ge w hs
    using that by (induction gs ge w hs rule: merge_from.induct) auto
  have "\<forall>h \<in> set (scan_str sc s None). h_allowlisted h"
  proof (cases "sort_key h_start (raw_hits sc s None)")
    case (Cons h rest)
    then have "set (h # rest) = set (raw_hits sc s None)" by (metis set_sort)
    with assms have "h_allowlisted h" "\<forall>x \<in> set rest. h_allowlisted x" by auto
    then have "\<forall>x \<in> set (merge_from (h_start h) (h_end h) h rest). h_allowlisted x" using all by blast
    with Cons assms show ?thesis unfolding scan_str_def merge_overlapping_hits_def by simp
  qed (use assms in \<open>simp add: scan_str_def merge_overlapping_hits_def\<close>)
  then have "filter (\<lambda>h. \<not> h_allowlisted h) (scan_str sc s None) = []" by (simp add: filter_empty_conv)
  then show ?thesis by (simp add: scan_and_redact_text_def Let_def redact_ranges_def)
qed

theorem unmatched_text_untouched_witness: "fst (scan_and_redact_text (sample_scanner\<lparr>sc_patterns := []\<rparr>) ''hello'') = ''hello''"
  by (rule unmatched_text_untouched) (simp add: raw_hits_def)

text \<open>
  C24. Nothing of a value escapes the scan: every string of the redacted value is a string of the
  original one with all its hits redacted, and every key is an original key redacted, with a
  number appended at most.
\<close>

theorem json_redaction_complete:
  "(\<forall>t \<in> set (json_strings (fst (scan_and_redact_json sc v))). \<exists>s \<in> set (json_strings v). redacted_text sc s t) \<and>
   (\<forall>t \<in> set (json_keys (fst (scan_and_redact_json sc v))). \<exists>k \<in> set (json_keys v). redacted_key sc k t)"
  by (simp add: scan_and_redact_json_def walk_strings walk_keys)

text \<open>A bounded quantifier counts as a hypothesis: an object with one string.\<close>

theorem json_redaction_complete_witness:
  "\<exists>s \<in> set (json_strings (JObject [(''a'', JString ''b'')])).
     redacted_text (sample_scanner\<lparr>sc_patterns := []\<rparr>) s ''b''"
proof -
  let ?sc = "sample_scanner\<lparr>sc_patterns := []\<rparr>"
  have "''b'' \<in> set (json_strings (fst (scan_and_redact_json ?sc (JObject [(''a'', JString ''b'')]))))"
    by (simp add: scan_and_redact_json_def redact_keys_def key_renames_def scan_str_def raw_hits_def
        merge_overlapping_hits_def Let_def)
  then show ?thesis using json_redaction_complete [of ?sc "JObject [(''a'', JString ''b'')]"] by blast
qed

text \<open>
  C25. Renaming the keys that hold secrets never loses a member: the suffix loop always ends with a
  free key, the object stays in key order with distinct keys, and it holds the same values.
\<close>

theorem key_redaction_keeps_members:
  assumes "keys_ascend ms"
  shows "keys_ascend (redact_keys sc key_name ms) \<and>
    mset (map snd (redact_keys sc key_name ms)) = mset (map snd ms)"
  using rename_keys_keep [OF assms] by (simp add: redact_keys_def)

text \<open>Two keys with the same marker.\<close>

theorem key_redaction_keeps_members_witness:
  "length (redact_keys sample_scanner None [(''abcdefg'', JNull), (''bbcdefg'', JBool True)]) = 2"
proof -
  have "keys_ascend [(''abcdefg'', JNull), (''bbcdefg'', JBool True)]" by simp
  from key_redaction_keeps_members [OF this, of sample_scanner None]
  have "size (mset (map snd (redact_keys sample_scanner None [(''abcdefg'', JNull), (''bbcdefg'', JBool True)]))) = 2" by simp
  then show ?thesis by (metis length_map size_mset)
qed

end
