(* ===== verification/Jsonrpc.thy ===== *)
theory Jsonrpc
  imports Json
begin

text \<open>
  \<open>src/jsonrpc.rs\<close>: the view of a JSON-RPC message the audit takes, and how a wire payload is read
  as one message or a batch.

  \<open>read\<close> is the parameter for the \<open>serde_json\<close> reader: the syntax tree of a payload with every
  member of an object in document order, or \<open>None\<close> for text that is not JSON. Turning the tree into
  a \<open>Value\<close> (the last of equal keys wins) or into the derived \<open>Deserialize\<close> of the struct (an
  object with each field at most once, or a sequence of exactly its five fields, as serde derives it
  for every struct) is modelled here.
\<close>

record rpc_message =
  m_id :: "json option"
  m_method :: "string option"
  m_params :: "json option"
  m_result :: "json option"
  m_error :: "json option"

fun to_value :: "json \<Rightarrow> json" where
  "to_value (JArray arr) = JArray (map to_value arr)"
| "to_value (JObject ms) = JObject (foldl (\<lambda>out (k, v). obj_insert k v out) [] (map (\<lambda>(k, v). (k, to_value v)) ms))"
| "to_value v = v"

text \<open>An \<open>Option<Value>\<close> and an \<open>Option<String>\<close>; the outer option is the failure of the field.\<close>

definition optional_value :: "json \<Rightarrow> json option" where
  "optional_value v = (if v = JNull then None else Some (to_value v))"

fun optional_string :: "json \<Rightarrow> string option option" where
  "optional_string JNull = Some None"
| "optional_string (JString s) = Some (Some s)"
| "optional_string _ = None"

text \<open>The value of a field, \<open>null\<close> if it is missing; a repeated field is an error.\<close>

definition struct_field :: "(string \<times> json) list \<Rightarrow> string \<Rightarrow> json option" where
  "struct_field ms k =
     (case filter (\<lambda>m. fst m = k) ms of [] \<Rightarrow> Some JNull | [m] \<Rightarrow> Some (snd m) | _ \<Rightarrow> None)"

definition message_of_fields :: "json \<Rightarrow> json \<Rightarrow> json \<Rightarrow> json \<Rightarrow> json \<Rightarrow> rpc_message option" where
  "message_of_fields i m p r e =
     (case optional_string m of
        None \<Rightarrow> None
      | Some method \<Rightarrow> Some \<lparr>m_id = optional_value i, m_method = method, m_params = optional_value p,
          m_result = optional_value r, m_error = optional_value e\<rparr>)"

fun message_of_json :: "json \<Rightarrow> rpc_message option" where
  "message_of_json (JObject ms) =
     Option.bind (struct_field ms ''id'') (\<lambda>i.
     Option.bind (struct_field ms ''method'') (\<lambda>m.
     Option.bind (struct_field ms ''params'') (\<lambda>p.
     Option.bind (struct_field ms ''result'') (\<lambda>r.
     Option.bind (struct_field ms ''error'') (\<lambda>e.
       message_of_fields i m p r e)))))"
| "message_of_json (JArray [i, m, p, r, e]) = message_of_fields i m p r e"
| "message_of_json _ = None"

definition parse_batch :: "(bytes \<Rightarrow> json option) \<Rightarrow> bytes \<Rightarrow> rpc_message list" where
  "parse_batch read raw =
     (case read raw of
        None \<Rightarrow> []
      | Some tree \<Rightarrow>
          (case message_of_json tree of
             Some msg \<Rightarrow> [msg]
           | None \<Rightarrow> (case to_value tree of JArray items \<Rightarrow> List.map_filter message_of_json items | _ \<Rightarrow> [])))"

definition is_tool_call_request :: "rpc_message \<Rightarrow> bool" where
  "is_tool_call_request m \<longleftrightarrow> m_id m \<noteq> None \<and> m_method m = Some ''tools/call''"

definition tool_name :: "rpc_message \<Rightarrow> string option" where
  "tool_name m = Option.bind (m_params m) (\<lambda>p. Option.bind (json_get p ''name'') as_str)"

definition arguments :: "rpc_message \<Rightarrow> json option" where
  "arguments m = Option.bind (m_params m) (\<lambda>p. json_get p ''arguments'')"

text \<open>\<open>Value::to_string\<close> is the parameter \<open>show\<close>.\<close>

definition id_key :: "(json \<Rightarrow> string) \<Rightarrow> rpc_message \<Rightarrow> string option" where
  "id_key show_json m = map_option show_json (m_id m)"

definition is_error_response :: "rpc_message \<Rightarrow> bool" where
  "is_error_response m \<longleftrightarrow> m_error m \<noteq> None"

fun as_bool :: "json \<Rightarrow> bool option" where
  "as_bool (JBool b) = Some b"
| "as_bool _ = None"

definition is_mcp_tool_error :: "rpc_message \<Rightarrow> bool" where
  "is_mcp_tool_error m \<longleftrightarrow>
     Option.bind (m_result m) (\<lambda>r. Option.bind (json_get r ''isError'') as_bool) = Some True"

definition is_task_handle :: "rpc_message \<Rightarrow> bool" where
  "is_task_handle m \<longleftrightarrow>
     Option.bind (m_result m) (\<lambda>r. Option.bind (json_get r ''resultType'') as_str) = Some ''task''"

section \<open>Lemmas\<close>

lemma message_of_array: "message_of_json (JArray items) \<noteq> None \<Longrightarrow> length items = 5"
  by (cases "JArray items" rule: message_of_json.cases) auto

text \<open>A value the reader already normalised is read as it is.\<close>

fun json_sorted :: "json \<Rightarrow> bool" where
  "json_sorted (JArray arr) \<longleftrightarrow> list_all json_sorted arr"
| "json_sorted (JObject ms) \<longleftrightarrow> keys_ascend ms \<and> list_all (\<lambda>(k, v). json_sorted v) ms"
| "json_sorted v \<longleftrightarrow> True"

lemma to_value_sorted: "json_sorted v \<Longrightarrow> to_value v = v"
proof (induction v rule: to_value.induct)
  case (1 arr)
  then show ?case by (auto simp: list_all_iff intro: map_idI)
next
  case (2 ms)
  have "map (\<lambda>(k, v). (k, to_value v)) ms = ms"
    using 2 by (auto simp: list_all_iff intro!: map_idI)
  moreover have "foldl (\<lambda>out (k, v). obj_insert k v out) [] ms = ms"
    using obj_rebuild [of "[]" ms] "2.prems" by simp
  ultimately show ?case by simp
qed simp_all

lemma sorted_inserted:
  "keys_ascend out \<Longrightarrow> list_all (\<lambda>(k, v). json_sorted v) out \<Longrightarrow> list_all (\<lambda>(k, v). json_sorted v) ms \<Longrightarrow>
     keys_ascend (foldl (\<lambda>out (k, v). obj_insert k v out) out ms) \<and>
     list_all (\<lambda>(k, v). json_sorted v) (foldl (\<lambda>out (k, v). obj_insert k v out) out ms)"
proof (induction ms arbitrary: out)
  case (Cons m ms)
  obtain k v where m: "m = (k, v)" by (cases m)
  have "list_all (\<lambda>(k, v). json_sorted v) (obj_insert k v out)" if "json_sorted v" "list_all (\<lambda>(k, v). json_sorted v) out"
    using that by (induction k v out rule: obj_insert.induct) auto
  with Cons m show ?case by (simp add: keys_ascend_obj_insert)
qed simp

lemma json_sorted_to_value: "json_sorted (to_value v)"
proof (induction v rule: to_value.induct)
  case (2 ms)
  then have "list_all (\<lambda>(k, v). json_sorted v) (map (\<lambda>(k, v). (k, to_value v)) ms)"
    by (fastforce simp: list_all_iff)
  then show ?case using sorted_inserted [of "[]"] by simp
qed (simp_all add: list_all_iff)

section \<open>Properties\<close>

text \<open>
  A batch is read element by element: every well-formed element gives its message, in order,
  and a malformed one is skipped without costing its siblings, for every batch that does not have
  exactly five elements.
\<close>

theorem batch_elements_read:
  assumes "read raw = Some (JArray items)" and "length items \<noteq> 5"
  shows "parse_batch read raw = List.map_filter message_of_json (map to_value items)"
proof -
  have "message_of_json (JArray items) = None" using message_of_array [of items] assms(2) by blast
  with assms(1) show ?thesis by (simp add: parse_batch_def)
qed

definition sample_call :: "string \<Rightarrow> json" where
  "sample_call i = JObject [(''id'', JNumber i), (''method'', JString ''tools/call''), (''params'', JObject [(''name'', JString ''rm'')])]"

theorem batch_elements_read_witness:
  "map is_tool_call_request (parse_batch (\<lambda>_. Some (JArray [sample_call ''1'', JNull, sample_call ''2''])) []) = [True, True]"
  by (subst batch_elements_read [OF refl])
     (simp_all add: sample_call_def List.map_filter_def struct_field_def message_of_fields_def optional_value_def is_tool_call_request_def)



end
