(* ===== verification/Session.thy ===== *)
theory Session
  imports Anomaly Store "HOL-Library.AList"
begin

text \<open>
  \<open>src/session.rs\<close>: the pending calls of one session and the gates its shutdown closes.

  The hash map of pending calls is an association list with distinct keys; \<open>drain\<close> returns the
  calls in some order, so the lemmas speak of multisets. Each operation takes the session's lock
  for its whole duration, and a permit holds it over a line: a run of a session is therefore a
  sequence of whole steps.
\<close>

record pending_call =
  pc_tool_name :: string
  pc_args :: "json option"
  pc_bytes_in :: int
  pc_started :: nat

type_synonym calls = "(string \<times> pending_call) list"

text \<open>\<open>HashMap::insert\<close>, \<open>remove\<close> and \<open>drain\<close>.\<close>

definition calls_insert :: "string \<Rightarrow> pending_call \<Rightarrow> calls \<Rightarrow> pending_call option \<times> calls" where
  "calls_insert k c m = (map_of m k, AList.update k c m)"

definition calls_remove :: "string \<Rightarrow> calls \<Rightarrow> pending_call option \<times> calls" where
  "calls_remove k m = (map_of m k, AList.delete k m)"

definition calls_drain :: "calls \<Rightarrow> pending_call list \<times> calls" where
  "calls_drain m = (map snd m, [])"

record pending_state =
  ps_accepting :: bool
  ps_accepting_responses :: bool
  ps_calls :: calls

record session =
  s_id :: string
  s_pending :: pending_state
  s_stats :: session_stats

definition new_session :: "string \<Rightarrow> session" where
  "new_session sid =
     \<lparr>s_id = sid, s_pending = \<lparr>ps_accepting = True, ps_accepting_responses = True, ps_calls = []\<rparr>, s_stats = new_stats\<rparr>"

definition set_calls :: "session \<Rightarrow> calls \<Rightarrow> session" where
  "set_calls s m = s\<lparr>s_pending := (s_pending s)\<lparr>ps_calls := m\<rparr>\<rparr>"

text \<open>The two permits: given only while the gate is open, and then unconditional.\<close>

definition begin_input :: "session \<Rightarrow> bool" where
  "begin_input s = ps_accepting (s_pending s)"

definition begin_response :: "session \<Rightarrow> bool" where
  "begin_response s = ps_accepting_responses (s_pending s)"

definition permit_register :: "session \<Rightarrow> string \<Rightarrow> pending_call \<Rightarrow> pending_call option \<times> session" where
  "permit_register s id_key call =
     (let (old, m) = calls_insert id_key call (ps_calls (s_pending s)) in (old, set_calls s m))"

definition permit_resolve :: "session \<Rightarrow> string \<Rightarrow> pending_call option \<times> session" where
  "permit_resolve s id_key =
     (let (c, m) = calls_remove id_key (ps_calls (s_pending s)) in (c, set_calls s m))"

definition register :: "session \<Rightarrow> string \<Rightarrow> pending_call \<Rightarrow> pending_call option \<times> session" where
  "register s id_key call = (if \<not> ps_accepting (s_pending s) then (None, s) else permit_register s id_key call)"

definition resolve :: "session \<Rightarrow> string \<Rightarrow> pending_call option \<times> session" where
  "resolve s id_key = (if ps_accepting_responses (s_pending s) then permit_resolve s id_key else (None, s))"

definition stop_accepting :: "session \<Rightarrow> session" where
  "stop_accepting s = s\<lparr>s_pending := (s_pending s)\<lparr>ps_accepting := False\<rparr>\<rparr>"

definition stop_responses :: "session \<Rightarrow> session" where
  "stop_responses s = s\<lparr>s_pending := (s_pending s)\<lparr>ps_accepting_responses := False\<rparr>\<rparr>"

definition drain_abandoned :: "session \<Rightarrow> pending_call list \<times> session" where
  "drain_abandoned s = (let (cs, m) = calls_drain (ps_calls (s_pending s)) in (cs, set_calls s m))"

text \<open>The text of the reasons is a parameter; failing to encode them leaves the column NULL.\<close>

definition attach_anomaly ::
  "(nat \<Rightarrow> string) \<Rightarrow> (reason list \<Rightarrow> string option) \<Rightarrow> session \<Rightarrow> tool_call_entry \<Rightarrow> destination option \<Rightarrow> bytes \<Rightarrow> nat \<Rightarrow>
   tool_call_entry \<times> session" where
  "attach_anomaly fmt_secs reasons_json s entry dest args_fingerprint now =
     (let (report, st) = observe_with_fingerprint fmt_secs (s_stats s) (e_tool_name entry) (e_bytes_out entry) dest args_fingerprint now
      in (case report of
            None \<Rightarrow> entry
          | Some r \<Rightarrow> entry\<lparr>e_anomaly_score := Some (score r), e_anomaly_reasons := reasons_json (reasons r)\<rparr>,
          s\<lparr>s_stats := st\<rparr>))"

section \<open>What a map of pending calls promises\<close>

text \<open>
  The contract the correlation needs of its container: nothing put in is lost or duplicated, each
  operation accounts for what it returns.
\<close>

locale pending_calls =
  fixes ins :: "'k \<Rightarrow> 'c \<Rightarrow> 'm \<Rightarrow> 'c option \<times> 'm"
    and rem :: "'k \<Rightarrow> 'm \<Rightarrow> 'c option \<times> 'm"
    and drain :: "'m \<Rightarrow> 'c list \<times> 'm"
    and content :: "'m \<Rightarrow> 'c multiset"
    and invar :: "'m \<Rightarrow> bool"
  assumes ins_content: "invar m \<Longrightarrow> content (snd (ins k c m)) + mset (case fst (ins k c m) of None \<Rightarrow> [] | Some d \<Rightarrow> [d]) = add_mset c (content m)"
    and rem_content: "invar m \<Longrightarrow> content (snd (rem k m)) + mset (case fst (rem k m) of None \<Rightarrow> [] | Some d \<Rightarrow> [d]) = content m"
    and drain_content: "invar m \<Longrightarrow> mset (fst (drain m)) = content m \<and> content (snd (drain m)) = {#}"
    and ins_invar: "invar m \<Longrightarrow> invar (snd (ins k c m))"
    and rem_invar: "invar m \<Longrightarrow> invar (snd (rem k m))"
    and drain_invar: "invar m \<Longrightarrow> invar (snd (drain m))"
begin

text \<open>A step of a client: what it logs, and the new content. A refused request is not accepted.\<close>

fun step :: "'m \<Rightarrow> ('k \<times> 'c) + 'k option \<Rightarrow> 'c list \<times> 'm" where
  "step m (Inl (k, c)) = (let (d, m') = ins k c m in (case d of None \<Rightarrow> [] | Some x \<Rightarrow> [x], m'))"
| "step m (Inr (Some k)) = (let (d, m') = rem k m in (case d of None \<Rightarrow> [] | Some x \<Rightarrow> [x], m'))"
| "step m (Inr None) = drain m"

fun put_in :: "('k \<times> 'c) + 'k option \<Rightarrow> 'c list" where
  "put_in (Inl (k, c)) = [c]"
| "put_in (Inr x) = []"

fun run :: "'m \<Rightarrow> (('k \<times> 'c) + 'k option) list \<Rightarrow> 'c list \<times> 'm" where
  "run m [] = ([], m)"
| "run m (e # es) = (let (out, m') = step m e; (outs, m'') = run m' es in (out @ outs, m''))"

lemma step_invar: "invar m \<Longrightarrow> invar (snd (step m e))"
  using ins_invar rem_invar drain_invar
  by (cases "(m, e)" rule: step.cases) (simp_all add: case_prod_beta)

lemma step_accounts: "invar m \<Longrightarrow> mset (fst (step m e)) + content (snd (step m e)) = mset (put_in e) + content m"
  using ins_content rem_content drain_content
  by (cases "(m, e)" rule: step.cases) (simp_all add: case_prod_beta ac_simps)

lemma run_accounts:
  "invar m \<Longrightarrow> mset (fst (run m es)) + content (snd (run m es)) = mset (concat (map put_in es)) + content m"
proof (induction es arbitrary: m)
  case (Cons e es)
  have "mset (fst (run (snd (step m e)) es)) + content (snd (run (snd (step m e)) es)) =
      mset (concat (map put_in es)) + content (snd (step m e))"
    by (rule Cons.IH [OF step_invar [OF Cons.prems]])
  then show ?case
    using step_accounts [OF Cons.prems, of e] by (simp add: case_prod_beta ac_simps)
qed simp

end

section \<open>The interface holds of the session's map\<close>

lemma mset_update:
  assumes "distinct (map fst m)"
  shows "mset (map snd (AList.update k c m)) + mset (case map_of m k of None \<Rightarrow> [] | Some d \<Rightarrow> [d]) =
    add_mset c (mset (map snd m))"
  using assms
proof (induction m)
  case (Cons p m)
  then show ?case by (cases p) (auto simp: map_of_eq_None_iff)
qed simp

lemma mset_delete:
  assumes "distinct (map fst m)"
  shows "mset (map snd (AList.delete k m)) + mset (case map_of m k of None \<Rightarrow> [] | Some d \<Rightarrow> [d]) = mset (map snd m)"
  using assms
proof (induction m)
  case (Cons p m)
  show ?case
  proof (cases "fst p = k")
    case True
    with Cons.prems have "AList.delete k m = m" by (auto intro: delete_id)
    with True show ?thesis by (cases p) simp
  next
    case False
    with Cons show ?thesis by (cases p) auto
  qed
qed simp

interpretation calls: pending_calls calls_insert calls_remove calls_drain "\<lambda>m. mset (map snd m)" "\<lambda>m. distinct (map fst m)"
proof
  fix m :: calls and k c
  assume d: "distinct (map fst m)"
  show "mset (map snd (snd (calls_insert k c m))) + mset (case fst (calls_insert k c m) of None \<Rightarrow> [] | Some d \<Rightarrow> [d]) =
      add_mset c (mset (map snd m))"
    using mset_update [OF d] by (simp add: calls_insert_def)
  show "distinct (map fst (snd (calls_insert k c m)))" using d by (simp add: calls_insert_def distinct_update)
next
  fix m :: calls and k
  assume d: "distinct (map fst m)"
  show "mset (map snd (snd (calls_remove k m))) + mset (case fst (calls_remove k m) of None \<Rightarrow> [] | Some d \<Rightarrow> [d]) =
      mset (map snd m)"
    using mset_delete [OF d] by (simp add: calls_remove_def)
  show "distinct (map fst (snd (calls_remove k m)))" using d by (simp add: calls_remove_def distinct_delete)
qed (simp_all add: calls_drain_def)

section \<open>A session's life\<close>

text \<open>
  What can happen to a session, one locked section at a time: a request line, a response line,
  the closing of either gate, the drain. Every call a step hands out is logged by its caller:
  displaced by a request with the same id, answered by a response, or abandoned.
\<close>

datatype session_event =
    Request string pending_call
  | Response string
  | CloseInput
  | CloseResponses
  | Drain

fun session_step :: "session \<Rightarrow> session_event \<Rightarrow> pending_call list \<times> session" where
  "session_step s (Request k c) =
     (if begin_input s then (let (d, s') = permit_register s k c in (case d of None \<Rightarrow> [] | Some x \<Rightarrow> [x], s')) else ([], s))"
| "session_step s (Response k) =
     (if begin_response s then (let (d, s') = permit_resolve s k in (case d of None \<Rightarrow> [] | Some x \<Rightarrow> [x], s')) else ([], s))"
| "session_step s CloseInput = ([], stop_accepting s)"
| "session_step s CloseResponses = ([], stop_responses s)"
| "session_step s Drain = drain_abandoned s"

fun session_run :: "session \<Rightarrow> session_event list \<Rightarrow> pending_call list \<times> session" where
  "session_run s [] = ([], s)"
| "session_run s (e # es) = (let (out, s') = session_step s e; (outs, s'') = session_run s' es in (out @ outs, s''))"

text \<open>The requests that were let in: those before the input gate closes.\<close>

fun accepted :: "bool \<Rightarrow> session_event list \<Rightarrow> pending_call list" where
  "accepted opened [] = []"
| "accepted opened (Request k c # es) = (if opened then [c] else []) @ accepted opened es"
| "accepted opened (CloseInput # es) = accepted False es"
| "accepted opened (_ # es) = accepted opened es"

abbreviation pending_of :: "session \<Rightarrow> calls" where
  "pending_of s \<equiv> ps_calls (s_pending s)"

text \<open>A step of the session is a step of its map, or none.\<close>

lemma session_step_accounts:
  assumes "distinct (map fst (pending_of s))"
  shows "mset (fst (session_step s e)) + mset (map snd (pending_of (snd (session_step s e)))) =
      mset (accepted (ps_accepting (s_pending s)) [e]) + mset (map snd (pending_of s)) \<and>
    distinct (map fst (pending_of (snd (session_step s e))))"
proof (cases e)
  case (Request k c)
  with calls.step_accounts [OF assms, of "Inl (k, c)"] calls.step_invar [OF assms, of "Inl (k, c)"] assms show ?thesis
    by (simp add: begin_input_def permit_register_def set_calls_def case_prod_beta)
next
  case (Response k)
  with calls.step_accounts [OF assms, of "Inr (Some k)"] calls.step_invar [OF assms, of "Inr (Some k)"] assms show ?thesis
    by (simp add: begin_response_def permit_resolve_def set_calls_def case_prod_beta)
next
  case Drain
  with calls.step_accounts [OF assms, of "Inr None"] calls.step_invar [OF assms, of "Inr None"] show ?thesis
    by (simp add: drain_abandoned_def set_calls_def case_prod_beta)
qed (use assms in \<open>simp_all add: stop_accepting_def stop_responses_def\<close>)

lemma session_gate:
  "ps_accepting (s_pending (snd (session_step s e))) = (ps_accepting (s_pending s) \<and> e \<noteq> CloseInput)"
  by (cases e) (auto simp: permit_register_def permit_resolve_def set_calls_def case_prod_beta stop_accepting_def
      stop_responses_def drain_abandoned_def)

lemma accepted_Cons: "accepted opened (e # es) = accepted opened [e] @ accepted (opened \<and> e \<noteq> CloseInput) es"
  by (cases e) auto

lemma session_run_accounts:
  assumes "distinct (map fst (pending_of s))"
  shows "mset (fst (session_run s es)) + mset (map snd (pending_of (snd (session_run s es)))) =
    mset (accepted (ps_accepting (s_pending s)) es) + mset (map snd (pending_of s))"
  using assms
proof (induction es arbitrary: s)
  case (Cons e es)
  let ?s = "snd (session_step s e)"
  note st = session_step_accounts [OF Cons.prems, of e]
  have ih: "mset (fst (session_run ?s es)) + mset (map snd (pending_of (snd (session_run ?s es)))) =
      mset (accepted (ps_accepting (s_pending s) \<and> e \<noteq> CloseInput) es) + mset (map snd (pending_of ?s))"
    using Cons.IH [of ?s] st by (simp only: session_gate)
  show ?case
    using st ih by (simp add: case_prod_beta accepted_Cons [of _ e es] ac_simps del: accepted.simps)
qed simp

section \<open>Properties\<close>

text \<open>
  C8. Every accepted tool call is accounted for exactly once: whatever sequence of requests,
  responses, duplicated ids and shutdown steps a session sees, the calls handed to the audit log
  together with those still pending are, as a multiset, the calls that were accepted. After a
  final drain none is pending, so each accepted call was logged exactly once.
\<close>

theorem session_logs_each_call_once:
  "mset (fst (session_run (new_session sid) es)) + mset (map snd (pending_of (snd (session_run (new_session sid) es)))) =
     mset (accepted True es) \<and>
   mset (fst (session_run (new_session sid) (es @ [Drain]))) = mset (accepted True es)"
proof
  have d: "distinct (map fst (pending_of (new_session sid)))" by (simp add: new_session_def)
  show "mset (fst (session_run (new_session sid) es)) + mset (map snd (pending_of (snd (session_run (new_session sid) es)))) =
      mset (accepted True es)"
    using session_run_accounts [OF d, of es] by (simp add: new_session_def)
  have app: "snd (session_run s (es @ [Drain])) = snd (session_step (snd (session_run s es)) Drain)" for s
    by (induction es arbitrary: s) (simp_all add: case_prod_beta)
  have acc: "accepted opened (es @ [Drain]) = accepted opened es" for opened
    by (induction opened es rule: accepted.induct) auto
  have "pending_of (snd (session_run (new_session sid) (es @ [Drain]))) = []"
    by (simp add: app drain_abandoned_def calls_drain_def set_calls_def)
  then show "mset (fst (session_run (new_session sid) (es @ [Drain]))) = mset (accepted True es)"
    using session_run_accounts [OF d, of "es @ [Drain]"] by (simp add: acc new_session_def)
qed

text \<open>The call a response with a given id resolves, read off the events alone.\<close>

fun open_call :: "bool \<Rightarrow> bool \<Rightarrow> string \<Rightarrow> pending_call option \<Rightarrow> session_event list \<Rightarrow> pending_call option" where
  "open_call i r k cur [] = cur"
| "open_call i r k cur (Request k' c # es) = open_call i r k (if i \<and> k' = k then Some c else cur) es"
| "open_call i r k cur (Response k' # es) = open_call i r k (if r \<and> k' = k then None else cur) es"
| "open_call i r k cur (CloseInput # es) = open_call False r k cur es"
| "open_call i r k cur (CloseResponses # es) = open_call i False k cur es"
| "open_call i r k cur (Drain # es) = open_call i r k None es"

lemma open_call_map:
  "map_of (pending_of (snd (session_run s es))) k =
     open_call (ps_accepting (s_pending s)) (ps_accepting_responses (s_pending s)) k (map_of (pending_of s) k) es"
proof (induction es arbitrary: s)
  case (Cons e es)
  show ?case
    by (cases e) (auto simp: case_prod_beta Cons begin_input_def begin_response_def permit_register_def permit_resolve_def
        set_calls_def calls_insert_def calls_remove_def calls_drain_def drain_abandoned_def stop_accepting_def
        stop_responses_def update_conv' delete_conv')
qed simp

text \<open>
  A response resolves exactly the last accepted request of its own session with the same id
  that no response has resolved yet, and a replayed response resolves nothing.
\<close>

theorem response_resolves_its_request:
  "fst (resolve (snd (session_run (new_session sid) es)) k) =
     (if CloseResponses \<in> set es then None else open_call True True k None es) \<and>
   fst (resolve (snd (resolve s k)) k) = None"
proof
  have gate: "ps_accepting_responses (s_pending (snd (session_run s es))) =
      (ps_accepting_responses (s_pending s) \<and> CloseResponses \<notin> set es)" for s
  proof (induction es arbitrary: s)
    case (Cons e es)
    show ?case
      by (cases e) (auto simp: case_prod_beta Cons permit_register_def permit_resolve_def set_calls_def
          stop_accepting_def stop_responses_def drain_abandoned_def)
  qed simp
  show "fst (resolve (snd (session_run (new_session sid) es)) k) =
      (if CloseResponses \<in> set es then None else open_call True True k None es)"
    by (simp add: resolve_def permit_resolve_def calls_remove_def gate open_call_map new_session_def)
  show "fst (resolve (snd (resolve s k)) k) = None"
    by (simp add: resolve_def permit_resolve_def calls_remove_def set_calls_def delete_conv')
qed

end
