(* ===== verification/Config.thy ===== *)
theory Config
  imports Keys Utf8
begin

text \<open>
  \<open>src/config.rs\<close> and \<open>src/paths.rs\<close>: the configuration, its validation and the paths derived from
  it, as compiled for Linux.

  The TOML parser, the URI parser of the \<open>http\<close> crate, the text form of socket addresses,
  \<open>std::path::absolute\<close> (which reads the working directory) and SHA-256 are parameters.
\<close>

datatype tier = Minimal | Standard | Full

record target_config =
  tg_command :: "string list"
  tg_server_name :: "string option"

record server_config =
  sv_name :: string
  sv_upstream :: string
  sv_listen :: string
  sv_request_timeout_secs :: nat
  sv_allowed_origins :: "string list option"

record logging_config =
  lg_db_path :: string
  lg_default_tier :: tier
  lg_tool_overrides :: "(string \<times> tier) list"

record heartbeat_config =
  hc_enabled :: bool
  hc_cadence_min_secs :: nat
  hc_cadence_max_secs :: nat

record anchor_config =
  ac_enabled :: bool
  ac_path :: string
  ac_cadence_secs :: nat

record config =
  cf_target :: target_config
  cf_server :: "server_config list"
  cf_logging :: logging_config
  cf_key_path :: string
  cf_heartbeat :: heartbeat_config
  cf_anchor :: anchor_config

definition default_heartbeat :: heartbeat_config where
  "default_heartbeat = \<lparr>hc_enabled = True, hc_cadence_min_secs = 30, hc_cadence_max_secs = 90\<rparr>"

definition default_anchor :: anchor_config where
  "default_anchor = \<lparr>ac_enabled = True, ac_path = [], ac_cadence_secs = 300\<rparr>"

definition default_request_timeout_secs :: nat where "default_request_timeout_secs = 60"

definition default_tier :: tier where "default_tier = Minimal"

section \<open>Addresses and upstreams\<close>

text \<open>\<open>SocketAddr\<close>: four or eight address groups, the port, and the scope of an IPv6 address.\<close>

datatype socket_addr = V4 "nat list" nat | V6 "nat list" nat nat

fun is_loopback :: "socket_addr \<Rightarrow> bool" where
  "is_loopback (V4 ip port) \<longleftrightarrow> ip \<noteq> [] \<and> hd ip = 127"
| "is_loopback (V6 ip port scope) \<longleftrightarrow> ip = [0, 0, 0, 0, 0, 0, 0, 1]"

record parsers =
  px_addr :: "string \<Rightarrow> socket_addr option"
  px_scheme_host :: "string \<Rightarrow> (string option \<times> bool) option"

definition socket_addr_of :: "parsers \<Rightarrow> server_config \<Rightarrow> socket_addr result" where
  "socket_addr_of px s =
     (case px_addr px (sv_listen s) of
        None \<Rightarrow> Inl (Invalid ''unparseable listen address'')
      | Some a \<Rightarrow> Inr a)"

text \<open>\<open>px_scheme_host\<close> gives the scheme of a URI that parses, and whether it has an authority.\<close>

definition upstream_uri :: "parsers \<Rightarrow> server_config \<Rightarrow> unit result" where
  "upstream_uri px s =
     (case px_scheme_host px (sv_upstream s) of
        None \<Rightarrow> Inl (Invalid ''unparseable upstream'')
      | Some (scheme, host) \<Rightarrow>
          if scheme \<noteq> Some ''http'' \<and> scheme \<noteq> Some ''https'' then Inl (Invalid ''expected http or https'')
          else if \<not> host then Inl (Invalid ''upstream has no host'')
          else Inr ())"

section \<open>Validation\<close>

text \<open>The loop over the servers with the names and the addresses seen so far.\<close>

fun validate_servers :: "parsers \<Rightarrow> string list \<Rightarrow> socket_addr list \<Rightarrow> server_config list \<Rightarrow> unit result" where
  "validate_servers px names addrs [] = Inr ()"
| "validate_servers px names addrs (s # ss) =
     (if blank_text (sv_name s) then Inl (Invalid ''a server has an empty name'')
      else if sv_name s \<in> set names then Inl (Invalid ''two servers with one name'')
      else if sv_request_timeout_secs s = 0 then Inl (Invalid ''request_timeout_secs = 0'')
      else and_then (socket_addr_of px s) (\<lambda>addr.
        if \<not> is_loopback addr then Inl (Invalid ''not a loopback address'')
        else if addr \<in> set addrs then Inl (Invalid ''reused listen address'')
        else and_then (upstream_uri px s) (\<lambda>_. validate_servers px (sv_name s # names) (addr # addrs) ss)))"

definition validate :: "parsers \<Rightarrow> config \<Rightarrow> unit result" where
  "validate px c =
     (let h = cf_heartbeat c; a = cf_anchor c in
      if blank_text (lg_db_path (cf_logging c)) then Inl (Invalid ''db_path cannot be empty'')
      else if cf_key_path c \<noteq> [] \<and> blank_text (cf_key_path c) then Inl (Invalid ''key_path cannot contain only whitespace'')
      else if ac_path a \<noteq> [] \<and> blank_text (ac_path a) then Inl (Invalid ''anchor path cannot contain only whitespace'')
      else if hc_cadence_min_secs h = 0 \<or> hc_cadence_max_secs h = 0
      then Inl (Invalid ''heartbeat cadence values must be greater than zero'')
      else if hc_cadence_min_secs h > hc_cadence_max_secs h
      then Inl (Invalid ''cadence_min_secs cannot exceed cadence_max_secs'')
      else if ac_cadence_secs a = 0 then Inl (Invalid ''anchor cadence_secs must be greater than zero'')
      else if (case tg_server_name (cf_target c) of None \<Rightarrow> False | Some n \<Rightarrow> blank_text n)
      then Inl (Invalid ''server_name cannot be empty'')
      else if list_ex (\<lambda>(n, t). blank_text n) (lg_tool_overrides (cf_logging c))
      then Inl (Invalid ''tool_overrides cannot contain an empty tool name'')
      else validate_servers px [] [] (cf_server c))"

section \<open>What the rest of the program asks\<close>

definition http_servers :: "config \<Rightarrow> server_config list result" where
  "http_servers c = (if cf_server c = [] then Inl (Invalid ''no server entries in the config'') else Inr (cf_server c))"

definition tier_for_tool :: "config \<Rightarrow> string \<Rightarrow> tier" where
  "tier_for_tool c tool_name =
     (case map_of (lg_tool_overrides (cf_logging c)) tool_name of
        Some t \<Rightarrow> t | None \<Rightarrow> lg_default_tier (cf_logging c))"

definition resolve_target :: "config \<Rightarrow> string list \<Rightarrow> string list result" where
  "resolve_target c cli_target =
     (if cli_target \<noteq> [] then Inr cli_target
      else if tg_command (cf_target c) \<noteq> [] then Inr (tg_command (cf_target c))
      else Inl (Invalid ''no target command''))"

text \<open>\<open>rsplit\<close> at either path separator, last piece first.\<close>

definition path_separator :: "char \<Rightarrow> bool" where
  "path_separator c \<longleftrightarrow> c = CHR ''/'' \<or> c = CHR 0x5C"

fun split_paths :: "string \<Rightarrow> string \<Rightarrow> string list" where
  "split_paths acc [] = [rev acc]"
| "split_paths acc (c # s) = (if path_separator c then rev acc # split_paths [] s else split_paths (c # acc) s)"

definition server_name_for :: "config \<Rightarrow> string \<Rightarrow> string" where
  "server_name_for c program =
     (case tg_server_name (cf_target c) of
        Some n \<Rightarrow> n
      | None \<Rightarrow> (case find (\<lambda>part. part \<noteq> []) (rev (split_paths [] program)) of Some b \<Rightarrow> b | None \<Rightarrow> program))"

section \<open>Paths\<close>

record platform =
  pf_xdg_state_home :: "string option"
  pf_home :: "string option"
  pf_absolute :: "string \<Rightarrow> string result"
  pf_sha256 :: "bytes \<Rightarrow> bytes"

definition state_dir :: "platform \<Rightarrow> string result" where
  "state_dir pf =
     (case pf_xdg_state_home pf of
        Some xdg \<Rightarrow> Inr (path_join xdg ''auditmcp'')
      | None \<Rightarrow>
          (case pf_home pf of
             None \<Rightarrow> Inl (Invalid ''HOME is not set'')
           | Some home \<Rightarrow> Inr (path_join (path_join (path_join home ''.local'') ''state'') ''auditmcp'')))"

definition database_path_id :: "platform \<Rightarrow> string \<Rightarrow> string result" where
  "database_path_id pf db_path =
     and_then (pf_absolute pf db_path) (\<lambda>p. Inr (take 16 (hex_encode (pf_sha256 pf (utf8_lossy p)))))"

definition default_db_path :: "platform \<Rightarrow> string result" where
  "default_db_path pf = and_then (state_dir pf) (\<lambda>d. Inr (path_join d ''audit.db''))"

definition default_key_path :: "platform \<Rightarrow> string \<Rightarrow> string result" where
  "default_key_path pf db_path =
     and_then (state_dir pf) (\<lambda>d. and_then (database_path_id pf db_path) (\<lambda>i.
       Inr (path_join (path_join d ''keys'') (i @ ''.key''))))"

definition default_anchor_path :: "platform \<Rightarrow> string \<Rightarrow> string result" where
  "default_anchor_path pf db_path =
     and_then (state_dir pf) (\<lambda>d. and_then (database_path_id pf db_path) (\<lambda>i.
       Inr (path_join (path_join d ''anchors'') (i @ ''.log''))))"

definition resolve_config_path :: "platform \<Rightarrow> string \<Rightarrow> string \<Rightarrow> string result" where
  "resolve_config_path pf raw config_dir =
     and_then (expand_tilde (pf_home pf) raw) (\<lambda>expanded.
       pf_absolute pf (if starts_with expanded ''/'' then expanded else path_join config_dir expanded))"

text \<open>\<open>Path::parent\<close> of a normalised absolute path.\<close>

definition parent_dir :: "string \<Rightarrow> string" where
  "parent_dir p =
     (if p = ''/'' \<or> CHR ''/'' \<notin> set p then ''.''
      else case rev (dropWhile (\<lambda>c. c \<noteq> CHR ''/'') (rev p)) of
             [s] \<Rightarrow> [s] | d \<Rightarrow> butlast d)"

section \<open>Loading\<close>

definition config_at :: "platform \<Rightarrow> config" where
  "config_at pf =
     \<lparr>cf_target = \<lparr>tg_command = [], tg_server_name = None\<rparr>, cf_server = [],
      cf_logging = \<lparr>lg_db_path = [], lg_default_tier = default_tier, lg_tool_overrides = []\<rparr>,
      cf_key_path = [], cf_heartbeat = default_heartbeat, cf_anchor = default_anchor\<rparr>"

definition load_default :: "parsers \<Rightarrow> platform \<Rightarrow> config result" where
  "load_default px pf =
     and_then (default_db_path pf) (\<lambda>db_path.
     and_then (default_key_path pf db_path) (\<lambda>key_path.
     and_then (default_anchor_path pf db_path) (\<lambda>anchor_path.
     let c = (config_at pf)\<lparr>cf_logging := (cf_logging (config_at pf))\<lparr>lg_db_path := utf8_lossy db_path\<rparr>,
               cf_key_path := utf8_lossy key_path,
               cf_anchor := default_anchor\<lparr>ac_path := utf8_lossy anchor_path\<rparr>\<rparr>
     in and_then (validate px c) (\<lambda>_. Inr c))))"

definition load_file ::
  "parsers \<Rightarrow> platform \<Rightarrow> (string \<Rightarrow> config option) \<Rightarrow> string result \<Rightarrow> string \<Rightarrow> config result" where
  "load_file px pf parse_toml contents path =
     and_then contents (\<lambda>raw.
     case parse_toml raw of None \<Rightarrow> Inl (Invalid ''failed to parse config file'') | Some c \<Rightarrow>
     and_then (validate px c) (\<lambda>_.
     and_then (pf_absolute pf path) (\<lambda>absolute_config_path.
     let config_dir = parent_dir absolute_config_path in
     and_then (resolve_config_path pf (lg_db_path (cf_logging c)) config_dir) (\<lambda>db_path.
     and_then (if cf_key_path c = [] then default_key_path pf db_path
               else resolve_config_path pf (cf_key_path c) config_dir) (\<lambda>key_path.
     and_then (if ac_path (cf_anchor c) = [] then default_anchor_path pf db_path
               else resolve_config_path pf (ac_path (cf_anchor c)) config_dir) (\<lambda>anchor_path.
       Inr (c\<lparr>cf_logging := (cf_logging c)\<lparr>lg_db_path := utf8_lossy db_path\<rparr>,
              cf_key_path := utf8_lossy key_path,
              cf_anchor := (cf_anchor c)\<lparr>ac_path := utf8_lossy anchor_path\<rparr>\<rparr>)))))))"

definition load :: "parsers \<Rightarrow> platform \<Rightarrow> (string \<Rightarrow> config option) \<Rightarrow> (string \<Rightarrow> string result) \<Rightarrow> string \<Rightarrow> config result" where
  "load px pf parse_toml read_file path =
     (if path = [] then load_default px pf else load_file px pf parse_toml (read_file path) path)"

section \<open>Lemmas\<close>

definition server_ok :: "parsers \<Rightarrow> server_config \<Rightarrow> bool" where
  "server_ok px s \<longleftrightarrow> \<not> blank_text (sv_name s) \<and> sv_request_timeout_secs s \<noteq> 0 \<and>
     (\<exists>a. px_addr px (sv_listen s) = Some a \<and> is_loopback a) \<and>
     (\<exists>scheme. px_scheme_host px (sv_upstream s) = Some (Some scheme, True) \<and> scheme \<in> {''http'', ''https''})"

lemma upstream_uri_ok:
  "upstream_uri px s = Inr () \<longleftrightarrow>
     (\<exists>scheme. px_scheme_host px (sv_upstream s) = Some (Some scheme, True) \<and> scheme \<in> {''http'', ''https''})"
  by (auto simp: upstream_uri_def split: option.splits)

lemma validate_servers_ok:
  "validate_servers px names addrs ss = Inr () \<longleftrightarrow>
     list_all (server_ok px) ss \<and>
     distinct (map sv_name ss) \<and> set (map sv_name ss) \<inter> set names = {} \<and>
     distinct (map (\<lambda>s. px_addr px (sv_listen s)) ss) \<and>
     (\<lambda>s. px_addr px (sv_listen s)) ` set ss \<inter> Some ` set addrs = {}"
proof (induction ss arbitrary: names addrs)
  case (Cons s ss)
  show ?case
  proof (cases "px_addr px (sv_listen s)")
    case None
    then show ?thesis by (auto simp: socket_addr_of_def server_ok_def)
  next
    case (Some a)
    have "validate_servers px names addrs (s # ss) = Inr () \<longleftrightarrow>
        server_ok px s \<and> sv_name s \<notin> set names \<and> a \<notin> set addrs \<and> validate_servers px (sv_name s # names) (a # addrs) ss = Inr ()"
      using Some upstream_uri_ok [of px s]
      by (auto simp: socket_addr_of_def server_ok_def and_then_Inr)
    with Some Cons [of "sv_name s # names" "a # addrs"] show ?thesis by (auto simp: image_iff)
  qed
qed simp

section \<open>Properties\<close>

text \<open>
  \<open>validate\<close> accepts exactly the configurations that satisfy every startup rule: non-blank paths
  and names, a positive ordered cadence, and servers with distinct names on distinct loopback
  addresses, each with a positive timeout and an http(s) upstream that names a host.
\<close>

theorem validate_exact:
  "validate px c = Inr () \<longleftrightarrow>
     (\<not> blank_text (lg_db_path (cf_logging c)) \<and>
      \<not> (cf_key_path c \<noteq> [] \<and> blank_text (cf_key_path c)) \<and>
      \<not> (ac_path (cf_anchor c) \<noteq> [] \<and> blank_text (ac_path (cf_anchor c))) \<and>
      0 < hc_cadence_min_secs (cf_heartbeat c) \<and>
      hc_cadence_min_secs (cf_heartbeat c) \<le> hc_cadence_max_secs (cf_heartbeat c) \<and>
      0 < ac_cadence_secs (cf_anchor c) \<and>
      \<not> (\<exists>n. tg_server_name (cf_target c) = Some n \<and> blank_text n) \<and>
      list_all (\<lambda>(n, t). \<not> blank_text n) (lg_tool_overrides (cf_logging c)) \<and>
      list_all (server_ok px) (cf_server c) \<and>
      distinct (map sv_name (cf_server c)) \<and>
      distinct (map (\<lambda>s. px_addr px (sv_listen s)) (cf_server c)))"
proof -
  have ov: "list_ex (\<lambda>(n, t). blank_text n) xs \<longleftrightarrow> \<not> list_all (\<lambda>(n, t). \<not> blank_text n) xs" for xs :: "(string \<times> tier) list"
    by (induction xs) auto
  have sv: "validate_servers px [] [] (cf_server c) = Inr () \<longleftrightarrow>
      list_all (server_ok px) (cf_server c) \<and> distinct (map sv_name (cf_server c)) \<and>
      distinct (map (\<lambda>s. px_addr px (sv_listen s)) (cf_server c))"
    by (simp add: validate_servers_ok)
  show ?thesis
    unfolding validate_def Let_def ov sv [symmetric] by (auto split: option.splits if_splits)
qed

end
