(* ===== verification/AuditRow.thy ===== *)
theory AuditRow
  imports Secrets Session Config Jsonrpc
begin

text \<open>
  \<open>src/audit.rs\<close>: from a completed call to the row that records it. The order of the pipeline is
  the code's: detect and redact, then decide the tier, then render.

  The text of a JSON value and of the redaction records, the clock and the digest are parameters,
  gathered in one record with the scanner and what the caller configured.
\<close>

datatype payload = Json json | Raw string

definition preview_bytes :: nat where "preview_bytes = 200"
definition max_redaction_records :: nat where "max_redaction_records = 256"

record audit_env =
  ae_scanner :: scanner
  ae_show :: "json \<Rightarrow> string"
  ae_records_json :: "(string \<times> severity \<times> string) list \<Rightarrow> string option"
  ae_to_vec :: "json \<Rightarrow> bytes option"
  ae_session_id :: string
  ae_server_name :: string
  ae_tier :: tier

definition payload_redact :: "scanner \<Rightarrow> payload \<Rightarrow> payload \<times> hit list" where
  "payload_redact sc p =
     (case p of
        Json v \<Rightarrow> (let (v', hs) = scan_and_redact_json sc v in (Json v', hs))
      | Raw s \<Rightarrow> (let (s', hs) = scan_and_redact_text sc s in (Raw s', hs)))"

definition truncate_preview :: "string \<Rightarrow> string" where
  "truncate_preview s =
     (if length s \<le> preview_bytes then s
      else take (snap_boundary s preview_bytes) s @ ''... [truncated, '' @ show_nat (length s) @ '' bytes total]'')"

definition render :: "(json \<Rightarrow> string) \<Rightarrow> tier \<Rightarrow> payload \<Rightarrow> string" where
  "render show_json t p =
     (case p of
        Json v \<Rightarrow>
          (case t of Minimal \<Rightarrow> truncate_json_preview show_json v preview_bytes
           | Standard \<Rightarrow> show_json (truncate_json_semantic v)
           | Full \<Rightarrow> show_json v)
      | Raw s \<Rightarrow>
          (case t of Minimal \<Rightarrow> truncate_preview s | Standard \<Rightarrow> truncate_raw_sampled s | Full \<Rightarrow> s))"

section \<open>How a call ended\<close>

datatype call_status = Success | Failure | Timeout | Deferred

fun status_str :: "call_status \<Rightarrow> string" where
  "status_str Success = ''success''"
| "status_str Failure = ''error''"
| "status_str Timeout = ''timeout''"
| "status_str Deferred = ''deferred''"

definition escalates :: "call_status \<Rightarrow> bool" where
  "escalates s \<longleftrightarrow> s \<noteq> Success"

record call_outcome =
  co_status :: call_status
  co_result :: "payload option"
  co_error :: "payload option"
  co_bytes_out :: "int option"

definition from_rpc :: "rpc_message \<Rightarrow> int \<Rightarrow> call_outcome" where
  "from_rpc msg bytes_out =
     \<lparr>co_status = (if is_error_response msg \<or> is_mcp_tool_error msg then Failure
        else if is_task_handle msg then Deferred else Success),
      co_result = map_option Json (m_result msg), co_error = map_option Json (m_error msg),
      co_bytes_out = Some bytes_out\<rparr>"

definition timed_out :: call_outcome where
  "timed_out = \<lparr>co_status = Timeout, co_result = None, co_error = None, co_bytes_out = None\<rparr>"

definition non_json :: "string \<Rightarrow> int \<Rightarrow> call_outcome" where
  "non_json body bytes_out =
     \<lparr>co_status = Failure, co_result = None, co_error = Some (Raw body), co_bytes_out = Some bytes_out\<rparr>"

definition capture_truncated :: "bool \<Rightarrow> int \<Rightarrow> call_outcome" where
  "capture_truncated succeeded bytes_out =
     \<lparr>co_status = (if succeeded then Success else Failure),
      co_result = Some (Json (JObject
        [(''__auditmcp_truncated'', JBool True),
         (''message'', JString ''Response exceeded the audit capture limit; the full response was forwarded to the client but is not recorded here.''),
         (''original_bytes'', JNumber (show_int bytes_out))])),
      co_error = None, co_bytes_out = Some bytes_out\<rparr>"

section \<open>The row\<close>

text \<open>
  The loop over the active hits: duplicates are skipped, and beyond the cap only counted. The first
  list holds the records so far, the second the pairs seen.
\<close>

fun redaction_records ::
  "(string \<times> severity \<times> string) list \<Rightarrow> (string \<times> string) list \<Rightarrow> nat \<Rightarrow> hit list \<Rightarrow>
   (string \<times> severity \<times> string) list \<times> nat" where
  "redaction_records records seen truncated [] = (records, truncated)"
| "redaction_records records seen truncated (h # hs) =
     (if (h_pattern h, h_sha256 h) \<in> set seen then redaction_records records seen truncated hs
      else if length records = max_redaction_records
      then redaction_records records ((h_pattern h, h_sha256 h) # seen) (truncated + 1) hs
      else redaction_records (records @ [(h_pattern h, h_severity h, h_sha256 h)])
             ((h_pattern h, h_sha256 h) # seen) truncated hs)"

definition redact_option :: "scanner \<Rightarrow> payload option \<Rightarrow> payload option \<times> hit list" where
  "redact_option sc p = (case p of None \<Rightarrow> (None, []) | Some q \<Rightarrow> (let (q', hs) = payload_redact sc q in (Some q', hs)))"

definition payload_destination :: "payload option \<Rightarrow> destination option" where
  "payload_destination p = (case p of Some (Json v) \<Rightarrow> destination_from_args v | _ \<Rightarrow> None)"

definition build_entry ::
  "audit_env \<Rightarrow> string \<Rightarrow> int \<Rightarrow> pending_call \<Rightarrow> call_outcome \<Rightarrow> tool_call_entry \<times> destination option \<times> bytes" where
  "build_entry env now elapsed_ms call outcome =
     (let args_fingerprint = fingerprint_args (sc_sha256 (ae_scanner env)) (ae_to_vec env) (pc_args call);
          (args, args_hits) = redact_option (ae_scanner env) (map_option Json (pc_args call));
          (result, result_hits) = redact_option (ae_scanner env) (co_result outcome);
          (error, error_hits) = redact_option (ae_scanner env) (co_error outcome);
          active = filter (\<lambda>h. \<not> h_allowlisted h) (args_hits @ result_hits @ error_hits);
          secrets_fired = 0 < length active;
          dest = payload_destination args;
          effective_tier = (if secrets_fired \<or> escalates (co_status outcome) then Full else ae_tier env);
          rendered = map_option (render (ae_show env) effective_tier);
          redaction_flags = (if secrets_fired then ae_records_json env (fst (redaction_records [] [] 0 active)) else None);
          entry = \<lparr>e_timestamp = now, e_session_id = ae_session_id env, e_agent_id = None,
            e_tool_name = pc_tool_name call, e_server_name = Some (ae_server_name env),
            e_args_json = rendered args, e_result_json = rendered result,
            e_status = status_str (co_status outcome), e_error_message = rendered error,
            e_duration_ms = Some elapsed_ms, e_bytes_in = Some (pc_bytes_in call),
            e_bytes_out = co_bytes_out outcome, e_source = None,
            e_destination = map_option dest_value dest, e_redaction_flags = redaction_flags,
            e_redaction_count = int (length active), e_anomaly_score = None, e_anomaly_reasons = None\<rparr>
      in (entry, dest, args_fingerprint))"

section \<open>Lemmas\<close>

lemma redaction_records_bounds:
  "length records \<le> max_redaction_records \<Longrightarrow>
   length (fst (redaction_records records seen t hs)) \<le> max_redaction_records"
  by (induction records seen t hs rule: redaction_records.induct) auto

definition record_pair :: "string \<times> severity \<times> string \<Rightarrow> string \<times> string" where
  "record_pair r = (fst r, snd (snd r))"

lemma redaction_records_distinct:
  "distinct (map record_pair records) \<Longrightarrow> record_pair ` set records \<subseteq> set seen \<Longrightarrow>
     distinct (map record_pair (fst (redaction_records records seen t hs)))"
  by (induction records seen t hs rule: redaction_records.induct) (auto simp: record_pair_def)

text \<open>Below the cap nothing is dropped: every pair of an active hit has its record.\<close>

lemma redaction_records_complete:
  "snd (redaction_records records seen t hs) = t \<Longrightarrow> set seen = record_pair ` set records \<Longrightarrow>
     record_pair ` set (fst (redaction_records records seen t hs)) =
       record_pair ` set records \<union> (\<lambda>h. (h_pattern h, h_sha256 h)) ` set hs"
proof (induction records seen t hs rule: redaction_records.induct)
  case (2 records seen truncated h hs)
  have mono: "t \<le> snd (redaction_records rs sn t xs)" for rs sn t xs
    by (induction rs sn t xs rule: redaction_records.induct) (auto intro: le_trans)
  show ?case
  proof (cases "(h_pattern h, h_sha256 h) \<in> set seen")
    case True
    with 2 show ?thesis by auto
  next
    case False
    have "length records \<noteq> max_redaction_records"
    proof
      assume "length records = max_redaction_records"
      with False "2.prems"(1) mono [of "truncated + 1" records "(h_pattern h, h_sha256 h) # seen" hs] show False by simp
    qed
    with 2 False show ?thesis by (auto simp: record_pair_def)
  qed
qed auto

lemma redaction_records_truncated:
  "snd (redaction_records records seen t hs) \<noteq> t \<Longrightarrow> length records \<le> max_redaction_records \<Longrightarrow>
     length (fst (redaction_records records seen t hs)) = max_redaction_records"
proof (induction records seen t hs rule: redaction_records.induct)
  case (2 records seen truncated h hs)
  have full: "length rs = max_redaction_records \<Longrightarrow> length (fst (redaction_records rs sn t xs)) = max_redaction_records"
    for rs sn t xs
    by (induction rs sn t xs rule: redaction_records.induct) auto
  show ?case using 2 full by (auto split: if_splits)
qed simp

section \<open>Properties\<close>

text \<open>The hits of a call that are not allowlisted, over all three payloads.\<close>

definition active_hits :: "scanner \<Rightarrow> pending_call \<Rightarrow> call_outcome \<Rightarrow> hit list" where
  "active_hits sc call outcome = filter (\<lambda>h. \<not> h_allowlisted h)
     (snd (redact_option sc (map_option Json (pc_args call))) @ snd (redact_option sc (co_result outcome)) @
      snd (redact_option sc (co_error outcome)))"

text \<open>
  A row never understates what was found: its count is the number of active hits; its flags are
  NULL exactly when there is none, and otherwise list distinct pairs of pattern and digest, every
  one of them unless the cap of 256 is reached.
\<close>

theorem row_records_redactions:
  "let entry = fst (build_entry env now ms call outcome);
       active = active_hits (ae_scanner env) call outcome;
       records = fst (redaction_records [] [] 0 active)
   in e_redaction_count entry = int (length active) \<and>
      e_redaction_flags entry = (if active = [] then None else ae_records_json env records) \<and>
      length records \<le> max_redaction_records \<and> distinct (map record_pair records) \<and>
      (length records = max_redaction_records \<or>
       record_pair ` set records = (\<lambda>h. (h_pattern h, h_sha256 h)) ` set active)"
proof -
  let ?a = "active_hits (ae_scanner env) call outcome"
  let ?r = "redaction_records [] [] 0 ?a"
  have "length (fst ?r) = max_redaction_records \<or>
      record_pair ` set (fst ?r) = (\<lambda>h. (h_pattern h, h_sha256 h)) ` set ?a"
    using redaction_records_complete [of "[]" "[]" 0 ?a] redaction_records_truncated [of "[]" "[]" 0 ?a]
    by (cases "snd ?r = 0") (simp_all add: max_redaction_records_def)
  moreover have "length (fst ?r) \<le> max_redaction_records" by (rule redaction_records_bounds) simp
  moreover have "distinct (map record_pair (fst ?r))" by (rule redaction_records_distinct) simp_all
  ultimately show ?thesis
    by (simp add: build_entry_def active_hits_def Let_def case_prod_beta)
qed

text \<open>
  What needs investigation is stored whole, and only in redacted form: when a secret was found
  or the call did not plainly succeed, the arguments, the result and the error of the row are the
  complete texts of the redacted payloads; otherwise they are their renderings under the
  configured tier.
\<close>

theorem row_renders_redacted:
  "let entry = fst (build_entry env now ms call outcome);
       t = (if active_hits (ae_scanner env) call outcome \<noteq> [] \<or> co_status outcome \<noteq> Success then Full else ae_tier env);
       redacted = (\<lambda>p. map_option (\<lambda>q. render (ae_show env) t (fst (payload_redact (ae_scanner env) q))) p)
   in e_args_json entry = redacted (map_option Json (pc_args call)) \<and>
      e_result_json entry = redacted (co_result outcome) \<and>
      e_error_message entry = redacted (co_error outcome) \<and>
      e_status entry = status_str (co_status outcome)"
  by (simp add: build_entry_def active_hits_def redact_option_def Let_def case_prod_beta escalates_def
      option.map_comp comp_def split: option.splits)

end
