(* ===== verification/Registry.thy ===== *)
theory Registry
  imports AuditRow Sse
begin

text \<open>
  \<open>src/http/session_registry.rs\<close>, the listener of \<open>src/http/mod.rs\<close> and \<open>log_entry\<close> of
  \<open>src/http/server.rs\<close>.

  Sessions are shared (\<open>Arc<Session>\<close>) between the registry, the connections and the response
  bodies, and one function compares them by identity. They therefore live in a store: an address is
  the number of the allocation, and the registry's maps hold addresses. The rows handed to the
  database handle are kept in the order of the calls of \<open>DbHandle::log\<close>; what becomes of each is
  the subject of \<open>Writer\<close>. Every reading of the clock takes the next of an arbitrary sequence.
\<close>

record listener =
  li_server_name :: string
  li_upstream :: uri_parts
  li_local_addr :: string
  li_allowed_origins :: "string list"
  li_config :: config
  li_env :: audit_env
  li_fmt_secs :: "nat \<Rightarrow> string"
  li_reasons_json :: "reason list \<Rightarrow> string option"
  li_clock :: "nat \<Rightarrow> string \<times> nat"
  li_uuid :: "nat \<Rightarrow> string"
  li_parse_json :: "bytes \<Rightarrow> json option"
  li_parse_uri :: "string \<Rightarrow> uri_parts option"
  li_parse_authority :: "string \<Rightarrow> string option"
  li_from_parts :: "uri_parts \<Rightarrow> string option"
  li_header_str :: "bytes \<Rightarrow> string option"

type_synonym addr = nat

record http =
  hp_heap :: "addr \<Rightarrow> session"
  hp_fresh :: addr
  rg_next_id :: nat
  rg_open :: "(nat \<times> addr) list"
  rg_endpoints :: "(string \<times> addr) list"
  hp_ticks :: nat
  hp_logged :: "tool_call_entry list"

definition new_http :: http where
  "new_http = \<lparr>hp_heap = (\<lambda>_. new_session []), hp_fresh = 0, rg_next_id = 0, rg_open = [], rg_endpoints = [],
     hp_ticks = 0, hp_logged = []\<rparr>"

definition set_session :: "addr \<Rightarrow> session \<Rightarrow> http \<Rightarrow> http" where
  "set_session a s h = h\<lparr>hp_heap := (hp_heap h)(a := s)\<rparr>"

text \<open>\<open>Arc::new(Session::new(..))\<close>\<close>

definition alloc :: "string \<Rightarrow> http \<Rightarrow> addr \<times> http" where
  "alloc sid h = (hp_fresh h, (set_session (hp_fresh h) (new_session sid) h)\<lparr>hp_fresh := hp_fresh h + 1\<rparr>)"

section \<open>The registry\<close>

definition open_session :: "listener \<Rightarrow> http \<Rightarrow> (nat \<times> addr) \<times> http" where
  "open_session l h =
     (let key = rg_next_id h;
          (a, h1) = alloc (''conn:'' @ li_uuid l (hp_fresh h)) (h\<lparr>rg_next_id := (key + 1) mod 2 ^ 64\<rparr>)
      in ((key, a), h1\<lparr>rg_open := AList.update key a (rg_open h1)\<rparr>))"

definition drain_session :: "addr \<Rightarrow> http \<Rightarrow> pending_call list \<times> http" where
  "drain_session a h = (let (cs, s) = drain_abandoned (hp_heap h a) in (cs, set_session a s h))"

definition close_session :: "nat \<Rightarrow> http \<Rightarrow> pending_call list \<times> http" where
  "close_session key h =
     (case map_of (rg_open h) key of
        Some a \<Rightarrow> drain_session a (h\<lparr>rg_open := AList.delete key (rg_open h)\<rparr>)
      | None \<Rightarrow> ([], h))"

definition take_all :: "http \<Rightarrow> addr list \<times> http" where
  "take_all h = (map snd (rg_open h) @ map snd (rg_endpoints h), h\<lparr>rg_open := [], rg_endpoints := []\<rparr>)"

definition bind_endpoint :: "string \<Rightarrow> addr \<Rightarrow> http \<Rightarrow> http" where
  "bind_endpoint key a h = h\<lparr>rg_endpoints := AList.update key a (rg_endpoints h)\<rparr>"

definition session_for_endpoint :: "string \<Rightarrow> http \<Rightarrow> addr option" where
  "session_for_endpoint key h = map_of (rg_endpoints h) key"

definition unbind_endpoint_if :: "string \<Rightarrow> addr \<Rightarrow> http \<Rightarrow> bool \<times> http" where
  "unbind_endpoint_if key expected h =
     (case map_of (rg_endpoints h) key of
        Some current \<Rightarrow>
          (if current = expected then (True, h\<lparr>rg_endpoints := AList.delete key (rg_endpoints h)\<rparr>) else (False, h))
      | None \<Rightarrow> (False, h))"

section \<open>Correlation and logging on a shared session\<close>

definition register_at :: "addr \<Rightarrow> string \<Rightarrow> pending_call \<Rightarrow> http \<Rightarrow> pending_call option \<times> http" where
  "register_at a k call h = (let (old, s) = register (hp_heap h a) k call in (old, set_session a s h))"

definition resolve_at :: "addr \<Rightarrow> string \<Rightarrow> http \<Rightarrow> pending_call option \<times> http" where
  "resolve_at a k h = (let (c, s) = resolve (hp_heap h a) k in (c, set_session a s h))"

definition clock :: "listener \<Rightarrow> http \<Rightarrow> (string \<times> nat) \<times> http" where
  "clock l h = (li_clock l (hp_ticks h), h\<lparr>hp_ticks := hp_ticks h + 1\<rparr>)"

text \<open>Instants are nanoseconds; \<open>elapsed().as_millis() as i64\<close> of a span below 300 million years.\<close>

definition log_entry :: "listener \<Rightarrow> addr \<Rightarrow> pending_call \<Rightarrow> call_outcome \<Rightarrow> http \<Rightarrow> http" where
  "log_entry l a call outcome h =
     (let t = tier_for_tool (li_config l) (pc_tool_name call);
          env = (li_env l)\<lparr>ae_session_id := s_id (hp_heap h a), ae_server_name := li_server_name l, ae_tier := t\<rparr>;
          (elapsed_at, h) = clock l h;
          (wall, h) = clock l h;
          (entry, dest, args_fingerprint) =
            build_entry env (fst wall) (int ((snd elapsed_at - pc_started call) div 1000000)) call outcome;
          (now, h) = clock l h;
          (entry, s) = attach_anomaly (li_fmt_secs l) (li_reasons_json l) (hp_heap h a) entry dest args_fingerprint (snd now);
          h = set_session a s h
      in h\<lparr>hp_logged := hp_logged h @ [entry]\<rparr>)"

definition log_timeout :: "listener \<Rightarrow> addr \<Rightarrow> pending_call \<Rightarrow> http \<Rightarrow> http" where
  "log_timeout l a call h = log_entry l a call timed_out h"

definition log_timeouts :: "listener \<Rightarrow> addr \<Rightarrow> pending_call list \<Rightarrow> http \<Rightarrow> http" where
  "log_timeouts l a cs h = fold (log_timeout l a) cs h"

end
