(* ===== verification/Tee.thy ===== *)
theory Tee
  imports Registry
begin

text \<open>
  \<open>src/http/tee.rs\<close>: the response body that forwards what the upstream sends and audits a bounded
  copy on the way past.

  One poll of the body takes the list of what the inner body delivers from now on; an empty list is
  an inner body that is not ready.
\<close>

definition max_capture_bytes :: nat where "max_capture_bytes = 1024 * 1024"

datatype tee_mode = Whole bytes bool | Events sse_parser

record tee =
  te_session :: addr
  te_endpoint_key :: "string option"
  te_pending_keys :: "string list"
  te_succeeded :: bool
  te_bytes_out :: int
  te_mode :: tee_mode

record tee_body =
  tb_tee :: "tee option"
  tb_pending_out :: "bytes list"

definition new_body :: "addr \<Rightarrow> string list \<Rightarrow> bool \<Rightarrow> bool \<Rightarrow> tee_body" where
  "new_body a pending_keys succeeded is_event_stream =
     \<lparr>tb_tee = Some \<lparr>te_session = a, te_endpoint_key = None, te_pending_keys = pending_keys, te_succeeded = succeeded,
        te_bytes_out = 0, te_mode = (if is_event_stream then Events new_parser else Whole [] False)\<rparr>,
      tb_pending_out = []\<rparr>"

definition capture_truncated_outcome :: "bool \<Rightarrow> bytes \<Rightarrow> int \<Rightarrow> call_outcome" where
  "capture_truncated_outcome http_succeeded captured bytes_out =
     (let text = utf8_lossy captured; q = [CHR 0x22];
          saw_tool_error = contains text (q @ ''isError'' @ q @ '':true'') \<or> contains text (q @ ''isError'' @ q @ '': true'')
      in capture_truncated (http_succeeded \<and> \<not> saw_tool_error) bytes_out)"

section \<open>Auditing what goes by\<close>

text \<open>The loop that resolves every message of a payload; the flag says whether any was.\<close>

definition message_key :: "listener \<Rightarrow> rpc_message \<Rightarrow> string option" where
  "message_key l msg = id_key (ae_show (li_env l)) msg"

fun resolve_messages :: "listener \<Rightarrow> addr \<Rightarrow> int \<Rightarrow> rpc_message list \<Rightarrow> http \<Rightarrow> bool \<times> http" where
  "resolve_messages l a n [] h = (False, h)"
| "resolve_messages l a n (msg # msgs) h =
     (case message_key l msg of
        None \<Rightarrow> resolve_messages l a n msgs h
      | Some k \<Rightarrow>
          (case resolve_at a k h of
             (None, h) \<Rightarrow> resolve_messages l a n msgs h
           | (Some call, h) \<Rightarrow>
               (let (any, h) = resolve_messages l a n msgs (log_entry l a call (from_rpc msg n) h) in (True, h))))"

definition rewrite_endpoint :: "listener \<Rightarrow> tee \<Rightarrow> bytes \<Rightarrow> string \<Rightarrow> http \<Rightarrow> bytes \<times> tee \<times> http" where
  "rewrite_endpoint l t raw_event advertised h =
     (let (a, h) = alloc (''sse:'' @ li_uuid l (hp_fresh h)) h;
          t = t\<lparr>te_session := a\<rparr>;
          rewritten = rewrite_endpoint_uri (li_parse_uri l) (li_parse_authority l) (li_from_parts l) advertised (li_local_addr l);
          effective = (case rewritten of Some uri \<Rightarrow> uri | None \<Rightarrow> advertised);
          (t, h) = (case endpoint_key (li_parse_uri l) effective of
             Some key \<Rightarrow> (t\<lparr>te_endpoint_key := Some key\<rparr>, bind_endpoint key a h)
           | None \<Rightarrow> (t, h))
      in (case rewritten of Some uri \<Rightarrow> replace_event_data raw_event uri | None \<Rightarrow> raw_event, t, h))"

definition handle_event :: "listener \<Rightarrow> tee \<Rightarrow> sse_event \<Rightarrow> http \<Rightarrow> bytes \<times> tee \<times> http" where
  "handle_event l t ev h =
     (case ev_data ev of
        None \<Rightarrow> (ev_raw ev, t, h)
      | Some payload \<Rightarrow>
          if ev_name ev = Some ''endpoint'' then rewrite_endpoint l t (ev_raw ev) payload h
          else (ev_raw ev, t,
            snd (resolve_messages l (te_session t) (int (length payload)) (parse_batch (li_parse_json l) payload) h)))"

fun handle_events :: "listener \<Rightarrow> tee \<Rightarrow> sse_event list \<Rightarrow> http \<Rightarrow> bytes list \<times> tee \<times> http" where
  "handle_events l t [] h = ([], t, h)"
| "handle_events l t (ev # evs) h =
     (let (out, t, h) = handle_event l t ev h; (outs, t, h) = handle_events l t evs h in (out # outs, t, h))"

definition observe :: "listener \<Rightarrow> tee \<Rightarrow> bytes \<Rightarrow> http \<Rightarrow> bytes list option \<times> tee \<times> http" where
  "observe l t chunk h =
     (let t = t\<lparr>te_bytes_out := te_bytes_out t + int (length chunk)\<rparr> in
      case te_mode t of
        Whole cap tr \<Rightarrow>
          (let room = max_capture_bytes - length cap in
           (None,
            t\<lparr>te_mode := (if room = 0 then Whole cap True
               else if room < length chunk then Whole (cap @ take room chunk) True
               else Whole (cap @ chunk) tr)\<rparr>, h))
      | Events parser \<Rightarrow>
          (let (events, parser) = feed parser chunk;
               (out, t, h) = handle_events l (t\<lparr>te_mode := Events parser\<rparr>) events h
           in (Some out, t, h)))"

definition tee_remainder :: "tee \<Rightarrow> bytes \<times> tee" where
  "tee_remainder t =
     (case te_mode t of
        Events parser \<Rightarrow> (let (r, parser) = take_remainder parser in (r, t\<lparr>te_mode := Events parser\<rparr>))
      | Whole cap tr \<Rightarrow> ([], t))"

section \<open>The end of a body\<close>

text \<open>A legacy stream takes its endpoint with it, if the endpoint is still its own.\<close>

definition release_endpoint :: "listener \<Rightarrow> tee \<Rightarrow> http \<Rightarrow> http" where
  "release_endpoint l t h =
     (case te_endpoint_key t of
        None \<Rightarrow> h
      | Some key \<Rightarrow>
          (case unbind_endpoint_if key (te_session t) h of
             (True, h) \<Rightarrow> (let (cs, h) = drain_session (te_session t) h in log_timeouts l (te_session t) cs h)
           | (False, h) \<Rightarrow> h))"

definition finish :: "listener \<Rightarrow> tee \<Rightarrow> http \<Rightarrow> http" where
  "finish l t h =
     (let h = release_endpoint l t h; a = te_session t in
      case te_mode t of
        Events parser \<Rightarrow> h
      | Whole cap tr \<Rightarrow>
          (let messages = parse_batch (li_parse_json l) cap;
               (any_resolved, h) = resolve_messages l a (te_bytes_out t) messages h
           in if any_resolved \<or> te_pending_keys t = [] then h
              else case resolve_at a (last (te_pending_keys t)) h of
                (None, h) \<Rightarrow> h
              | (Some call, h) \<Rightarrow>
                  log_entry l a call
                    (if tr then capture_truncated_outcome (te_succeeded t) cap (te_bytes_out t)
                     else case messages of
                       msg # _ \<Rightarrow> from_rpc msg (te_bytes_out t)
                     | [] \<Rightarrow> non_json (utf8_lossy cap) (te_bytes_out t)) h))"

section \<open>Polling\<close>

datatype inner = Data bytes | Trailers | EndOfBody | BodyError

datatype poll = Pending | Frame bytes | FrameTrailers | Finished | Failed

fun poll_frame :: "listener \<Rightarrow> tee_body \<Rightarrow> http \<Rightarrow> inner list \<Rightarrow> poll \<times> tee_body \<times> http \<times> inner list" where
  "poll_frame l b h [] =
     (case tb_pending_out b of
        ready # rest \<Rightarrow> (Frame ready, b\<lparr>tb_pending_out := rest\<rparr>, h, [])
      | [] \<Rightarrow> (Pending, b, h, []))"
| "poll_frame l b h (i # ups) =
     (case tb_pending_out b of
        ready # rest \<Rightarrow> (Frame ready, b\<lparr>tb_pending_out := rest\<rparr>, h, i # ups)
      | [] \<Rightarrow>
          (case i of
             Trailers \<Rightarrow> (FrameTrailers, b, h, ups)
           | Data chunk \<Rightarrow>
               (case tb_tee b of
                  None \<Rightarrow> (Frame chunk, b, h, ups)
                | Some t \<Rightarrow>
                    (case observe l t chunk h of
                       (None, t, h) \<Rightarrow> (Frame chunk, b\<lparr>tb_tee := Some t\<rparr>, h, ups)
                     | (Some events, t, h) \<Rightarrow> poll_frame l (b\<lparr>tb_tee := Some t, tb_pending_out := events\<rparr>) h ups))
           | _ \<Rightarrow>
               (let polled = (if i = EndOfBody then Finished else Failed) in
                case tb_tee b of
                  None \<Rightarrow> (polled, b, h, ups)
                | Some t \<Rightarrow>
                    (let (remainder, t) = tee_remainder t; h = finish l t h in
                     if remainder \<noteq> [] then poll_frame l (b\<lparr>tb_tee := None, tb_pending_out := [remainder]\<rparr>) h ups
                     else (polled, b\<lparr>tb_tee := None\<rparr>, h, ups)))))"

text \<open>A body that is dropped before its end.\<close>

definition drop_body :: "listener \<Rightarrow> tee_body \<Rightarrow> http \<Rightarrow> tee_body \<times> http" where
  "drop_body l b h =
     (case tb_tee b of None \<Rightarrow> (b, h) | Some t \<Rightarrow> (b\<lparr>tb_tee := None\<rparr>, finish l t h))"

end
