(* ===== verification/Server.thy ===== *)
theory Server
  imports Tee Writer
begin

text \<open>
  \<open>src/http/server.rs\<close>: one request through the proxy, and the life of a connection.

  A header list holds lower-case names and raw values; \<open>li_header_str\<close> is \<open>HeaderValue::to_str\<close>.
  The size-limiting body adapter of \<open>http_body_util\<close> is a parameter: it maps the frames of a body
  to those the handler reads.
\<close>

definition max_request_bytes :: nat where "max_request_bytes = 16 * 1024 * 1024"

datatype body_frame = FrameData bytes | FrameOther | FrameError

type_synonym headers = "(string \<times> bytes) list"

record request =
  rq_method :: string
  rq_headers :: headers
  rq_path_and_query :: "string option"
  rq_frames :: "body_frame list"

record upstream_request =
  up_method :: string
  up_uri :: uri_parts
  up_headers :: headers
  up_body :: bytes

record response =
  rs_status :: nat
  rs_headers :: headers

text \<open>Error replies carry a status and a message, which ends up in a JSON-RPC error body.\<close>

datatype refusal = Refusal (refusal_status: nat) (refusal_message: string)

section \<open>Origins\<close>

definition default_allowed_origins :: "string list" where
  "default_allowed_origins = [''http://localhost'', ''http://127.0.0.1'', ''http://[::1]'']"

definition origin_allowed :: "string \<Rightarrow> string list \<Rightarrow> bool" where
  "origin_allowed origin allowed =
     list_ex (\<lambda>a. origin = a \<or>
       (starts_with origin a \<and> starts_with (drop (length a) origin) '':'' \<and>
        list_all is_digit (drop (length a + 1) origin))) allowed"

section \<open>The request\<close>

text \<open>The loop over the frames that \<open>Limited\<close> lets through, with what was collected so far.\<close>

fun collect_body :: "bytes \<Rightarrow> body_frame list \<Rightarrow> refusal + bytes" where
  "collect_body collected [] = Inr collected"
| "collect_body collected (FrameOther # fs) = collect_body collected fs"
| "collect_body collected (FrameError # fs) = Inl (Refusal 502 ''auditmcp: request body could not be read'')"
| "collect_body collected (FrameData d # fs) =
     (if max_request_bytes < length collected + length d
      then Inl (Refusal 413 (''auditmcp: request body exceeds the proxy'' @ [CHR 0x27] @ ''s size limit''))
      else collect_body (collected @ d) fs)"

text \<open>The calls of a body are registered one by one; a displaced one is logged as timed out.\<close>

fun register_calls :: "listener \<Rightarrow> addr \<Rightarrow> int \<Rightarrow> rpc_message list \<Rightarrow> http \<Rightarrow> string list \<times> http" where
  "register_calls l a n [] h = ([], h)"
| "register_calls l a n (msg # msgs) h =
     (if \<not> is_tool_call_request msg then register_calls l a n msgs h
      else case (message_key l msg, tool_name msg) of
        (Some k, Some tool) \<Rightarrow>
          (let (started, h) = clock l h;
               (old, h) = register_at a k
                 \<lparr>pc_tool_name = tool, pc_args = arguments msg, pc_bytes_in = n, pc_started = snd started\<rparr> h;
               h = (case old of Some stale \<Rightarrow> log_timeout l a stale h | None \<Rightarrow> h);
               (keys, h) = register_calls l a n msgs h
           in (k # keys, h))
      | _ \<Rightarrow> register_calls l a n msgs h)"

definition register_if_tool_call :: "listener \<Rightarrow> addr \<Rightarrow> string \<Rightarrow> bytes \<Rightarrow> http \<Rightarrow> string list \<times> http" where
  "register_if_tool_call l a meth body h =
     (if meth \<noteq> ''POST'' then ([], h)
      else register_calls l a (int (length body)) (parse_batch (li_parse_json l) body) h)"

definition rewrite_uri :: "(uri_parts \<Rightarrow> string option) \<Rightarrow> uri_parts \<Rightarrow> string option \<Rightarrow> uri_parts" where
  "rewrite_uri from_parts upstream path_and_query =
     (let parts = upstream\<lparr>u_path_and_query := (case path_and_query of Some p \<Rightarrow> Some p | None \<Rightarrow> Some ''/'')\<rparr>
      in case from_parts parts of Some _ \<Rightarrow> parts | None \<Rightarrow> upstream)"

definition remove_header :: "string \<Rightarrow> headers \<Rightarrow> headers" where
  "remove_header name hs = filter (\<lambda>(n, v). n \<noteq> name) hs"

definition origin_ok :: "listener \<Rightarrow> headers \<Rightarrow> bool" where
  "origin_ok l hs =
     (case map_of hs ''origin'' of
        None \<Rightarrow> True
      | Some v \<Rightarrow> origin_allowed (case li_header_str l v of Some s \<Rightarrow> s | None \<Rightarrow> []) (li_allowed_origins l))"

text \<open>The session a request belongs to: that of its endpoint if one was advertised, else its connection's.\<close>

definition request_session :: "addr \<Rightarrow> string option \<Rightarrow> http \<Rightarrow> addr \<times> bool" where
  "request_session conn path_and_query h =
     (case path_and_query of
        None \<Rightarrow> (conn, False)
      | Some key \<Rightarrow> (case session_for_endpoint key h of Some bound \<Rightarrow> (bound, True) | None \<Rightarrow> (conn, False)))"

text \<open>
  \<open>proxy_once\<close> up to the upstream call: a refusal, or the request to send with the session, the
  registered keys and whether it came in over a legacy endpoint.
\<close>

definition proxy_request ::
  "(nat \<Rightarrow> body_frame list \<Rightarrow> body_frame list) \<Rightarrow> listener \<Rightarrow> addr \<Rightarrow> request \<Rightarrow> http \<Rightarrow>
   (refusal + upstream_request \<times> addr \<times> string list \<times> bool) \<times> http" where
  "proxy_request limited l conn req h =
     (if \<not> origin_ok l (rq_headers req) then (Inl (Refusal 403 ''auditmcp: Origin not allowed''), h)
      else case collect_body [] (limited max_request_bytes (rq_frames req)) of
        Inl e \<Rightarrow> (Inl e, h)
      | Inr body \<Rightarrow>
          (let (a, via_legacy_endpoint) = request_session conn (rq_path_and_query req) h;
               (keys, h) = register_if_tool_call l a (rq_method req) body h
           in (Inr (\<lparr>up_method = rq_method req,
                     up_uri = rewrite_uri (li_from_parts l) (li_upstream l) (rq_path_and_query req),
                     up_headers = remove_header ''host'' (rq_headers req), up_body = body\<rparr>,
                    a, keys, via_legacy_endpoint), h)))"

section \<open>The response\<close>

definition is_event_stream :: "listener \<Rightarrow> headers \<Rightarrow> bool" where
  "is_event_stream l hs =
     (case Option.bind (map_of hs ''content-type'') (li_header_str l) of
        None \<Rightarrow> False
      | Some v \<Rightarrow> to_lower (trim (takeWhile (\<lambda>c. c \<noteq> CHR '';'') v)) = ''text/event-stream'')"

definition is_success :: "nat \<Rightarrow> bool" where
  "is_success status \<longleftrightarrow> 200 \<le> status \<and> status < 300"

definition proxy_response :: "listener \<Rightarrow> addr \<Rightarrow> string list \<Rightarrow> bool \<Rightarrow> response \<Rightarrow> response \<times> tee_body" where
  "proxy_response l a keys via_legacy_endpoint resp =
     (let stream = is_event_stream l (rs_headers resp);
          answer_expected_here = (\<not> via_legacy_endpoint \<and> rs_status resp \<noteq> 202)
      in (\<lparr>rs_status = rs_status resp,
           rs_headers = (if stream then remove_header ''content-length'' (rs_headers resp) else rs_headers resp)\<rparr>,
          new_body a (if answer_expected_here then keys else []) (is_success (rs_status resp)) stream))"

text \<open>\<open>handle\<close> on a failed upstream call: the client is told; the registered calls stay pending.\<close>

definition upstream_failed :: "string \<Rightarrow> refusal" where
  "upstream_failed e = Refusal 502 (''auditmcp: upstream request failed: '' @ e)"

section \<open>Connections and shutdown\<close>

definition close_connection :: "listener \<Rightarrow> nat \<Rightarrow> addr \<Rightarrow> http \<Rightarrow> http" where
  "close_connection l key a h = (let (cs, h) = close_session key h in log_timeouts l a cs h)"

definition drain_and_log :: "listener \<Rightarrow> addr \<Rightarrow> http \<Rightarrow> http" where
  "drain_and_log l a h = (let (cs, h) = drain_session a h in log_timeouts l a cs h)"

text \<open>The end of \<open>serve\<close>: whatever is left open on any session of the registry is recorded.\<close>

definition shutdown_drain :: "listener \<Rightarrow> http \<Rightarrow> http" where
  "shutdown_drain l h = (let (as, h) = take_all h in fold (drain_and_log l) as h)"

definition serve_result :: "drain_outcome \<Rightarrow> unit result" where
  "serve_result d =
     (case d of
        Drained n \<Rightarrow>
          if n = 0 then Inr ()
          else Inl (Invalid (''audit log incomplete: '' @ show_nat n @ '' tool call(s) were not recorded''))
      | TimedOut n \<Rightarrow>
          Inl (Invalid (''audit log incomplete: the writer did not finish'' @
            (if 0 < n then '', on top of '' @ show_nat n @ '' already dropped'' else []))))"

end
