(* ===== verification/CallBooks.thy ===== *)
theory CallBooks
  imports AuditRow
begin

text \<open>
  Facts that both transports share: the tool names of the calls pending on a session, how the
  operations of the map change them, and what a row takes from its call.
\<close>

definition tool_names :: "calls \<Rightarrow> string multiset" where
  "tool_names m = mset (map (pc_tool_name \<circ> snd) m)"

definition session_wf :: "session \<Rightarrow> bool" where
  "session_wf s \<longleftrightarrow> ps_accepting (s_pending s) \<and> ps_accepting_responses (s_pending s) \<and> distinct (map fst (pending_of s))"

lemma tool_names_Nil [simp]: "tool_names [] = {#}"
  by (simp add: tool_names_def)

lemma tool_names_image: "tool_names m = image_mset pc_tool_name (mset (map snd m))"
  by (simp add: tool_names_def image_mset.compositionality comp_def)

lemma tool_names_delete:
  assumes "distinct (map fst m)"
  shows "tool_names (AList.delete k m) + mset (map pc_tool_name (case map_of m k of None \<Rightarrow> [] | Some d \<Rightarrow> [d])) = tool_names m"
  using arg_cong [OF mset_delete [OF assms, of k], of "image_mset pc_tool_name"] by (simp add: tool_names_image)

lemma tool_names_update:
  assumes "distinct (map fst m)"
  shows "tool_names (AList.update k c m) + mset (map pc_tool_name (case map_of m k of None \<Rightarrow> [] | Some d \<Rightarrow> [d])) =
    add_mset (pc_tool_name c) (tool_names m)"
  using arg_cong [OF mset_update [OF assms, of k c], of "image_mset pc_tool_name"] by (simp add: tool_names_image)

lemma set_calls_simps [simp]:
  "s_id (set_calls s m) = s_id s" "pending_of (set_calls s m) = m"
  "ps_accepting (s_pending (set_calls s m)) = ps_accepting (s_pending s)"
  "ps_accepting_responses (s_pending (set_calls s m)) = ps_accepting_responses (s_pending s)"
  "session_wf (set_calls s m) \<longleftrightarrow> ps_accepting (s_pending s) \<and> ps_accepting_responses (s_pending s) \<and> distinct (map fst m)"
  by (simp_all add: set_calls_def session_wf_def)

text \<open>The tool calls among the messages of a payload, by name.\<close>

fun requested_names :: "(json \<Rightarrow> string) \<Rightarrow> rpc_message list \<Rightarrow> string list" where
  "requested_names show_json [] = []"
| "requested_names show_json (msg # msgs) =
     (if is_tool_call_request msg
      then (case (id_key show_json msg, tool_name msg) of (Some k, Some tool) \<Rightarrow> [tool] | _ \<Rightarrow> []) else []) @
     requested_names show_json msgs"

lemma build_entry_tool_name [simp]: "e_tool_name (fst (build_entry env now ms c outcome)) = pc_tool_name c"
  by (simp add: build_entry_def Let_def case_prod_beta)

lemma attach_anomaly_simps [simp]:
  "e_tool_name (fst (attach_anomaly f r s e dest fp now)) = e_tool_name e"
  "s_id (snd (attach_anomaly f r s e dest fp now)) = s_id s"
  "s_pending (snd (attach_anomaly f r s e dest fp now)) = s_pending s"
  by (simp_all add: attach_anomaly_def case_prod_beta split: option.split)

end
