(* ===== verification/HttpBooks.thy ===== *)
theory HttpBooks
  imports Server CallBooks
begin

text \<open>
  The books of the HTTP transport: every handler of \<open>Tee\<close> and \<open>Server\<close> accounts for the calls it
  takes off a session with rows, and keeps the invariant of the registry.
\<close>

section \<open>The books of a listener\<close>

abbreviation calls_at :: "http \<Rightarrow> addr \<Rightarrow> calls" where
  "calls_at h a \<equiv> pending_of (hp_heap h a)"

definition pending_names :: "http \<Rightarrow> string multiset" where
  "pending_names h = (\<Sum>a<hp_fresh h. tool_names (calls_at h a))"

text \<open>The tool names of the rows logged so far and of the calls still pending on any session.\<close>

definition books :: "http \<Rightarrow> string multiset" where
  "books h = mset (map e_tool_name (hp_logged h)) + pending_names h"

text \<open>The state invariant: open gates, distinct ids, and a registry whose addresses are allocated.\<close>

definition legacy_id :: "session \<Rightarrow> bool" where
  "legacy_id s \<longleftrightarrow> starts_with (s_id s) ''sse:''"

definition http_wf :: "http \<Rightarrow> bool" where
  "http_wf h \<longleftrightarrow> (\<forall>a. session_wf (hp_heap h a)) \<and> (\<forall>a\<ge>hp_fresh h. calls_at h a = []) \<and>
     (\<forall>a\<in>snd ` set (rg_open h). a < hp_fresh h) \<and>
     (\<forall>a\<in>snd ` set (rg_endpoints h). a < hp_fresh h \<and> legacy_id (hp_heap h a))"

lemma http_wfD:
  "http_wf h \<Longrightarrow> session_wf (hp_heap h a)"
  "http_wf h \<Longrightarrow> hp_fresh h \<le> a \<Longrightarrow> calls_at h a = []"
  by (simp_all add: http_wf_def)

lemma pending_names_set_session:
  assumes "a < hp_fresh h"
  shows "pending_names (set_session a s h) + tool_names (calls_at h a) = pending_names h + tool_names (pending_of s)"
proof -
  have "pending_names (set_session a s h) = tool_names (pending_of s) + (\<Sum>b\<in>{..<hp_fresh h} - {a}. tool_names (calls_at h b))"
    using assms by (simp add: pending_names_def set_session_def sum.remove [where x = a])
  moreover have "pending_names h = tool_names (calls_at h a) + (\<Sum>b\<in>{..<hp_fresh h} - {a}. tool_names (calls_at h b))"
    using assms by (simp add: pending_names_def sum.remove [where x = a])
  ultimately show ?thesis by (simp add: ac_simps)
qed

text \<open>A session whose pending calls do not change can be anywhere in the store.\<close>

lemma pending_names_same_calls:
  "pending_of s = calls_at h a \<Longrightarrow> pending_names (set_session a s h) = pending_names h"
  by (auto simp: pending_names_def set_session_def intro: sum.cong)

section \<open>Steps that only audit\<close>

text \<open>
  A step that takes calls out of the pending ones and adds rows. Every handler but registration is
  such a step with equal sides: it keeps the invariant, the books and the open connections, and
  never makes a call pending on a session that had none.
\<close>

definition moves :: "string multiset \<Rightarrow> string multiset \<Rightarrow> http \<Rightarrow> http \<Rightarrow> bool" where
  "moves taken added h h' \<longleftrightarrow> http_wf h' \<and> books h' + taken = books h + added \<and> hp_fresh h \<le> hp_fresh h' \<and>
     rg_open h' = rg_open h \<and> rg_next_id h' = rg_next_id h \<and>
     (\<forall>a. calls_at h a = [] \<longrightarrow> calls_at h' a = []) \<and> (\<forall>a<hp_fresh h. s_id (hp_heap h' a) = s_id (hp_heap h a))"

abbreviation audit_step :: "http \<Rightarrow> http \<Rightarrow> bool" where
  "audit_step \<equiv> moves {#} {#}"

lemma moves_refl: "http_wf h \<Longrightarrow> audit_step h h"
  by (simp add: moves_def)

lemma moves_trans:
  assumes "moves t1 a1 h h'" and "moves t2 a2 h' h''"
  shows "moves (t1 + t2) (a1 + a2) h h''"
proof -
  have "books h'' + (t1 + t2) = books h + (a1 + a2)"
    using assms by (simp add: moves_def) (metis add.assoc add.commute)
  with assms show ?thesis by (auto simp: moves_def)
qed

lemma audit_step_trans: "audit_step h h' \<Longrightarrow> audit_step h' h'' \<Longrightarrow> audit_step h h''"
  using moves_trans [of "{#}" "{#}" h h' "{#}" "{#}" h''] by simp

lemma moves_settle: "moves t {#} h h' \<Longrightarrow> moves {#} t h' h'' \<Longrightarrow> audit_step h h''"
  using moves_trans [of t "{#}" h h' "{#}" t h''] by (auto simp: moves_def)

lemma moves_wf: "moves t a h h' \<Longrightarrow> http_wf h'"
  by (simp add: moves_def)

lemma moves_less: "moves t x h h' \<Longrightarrow> a < hp_fresh h \<Longrightarrow> a < hp_fresh h'"
  by (simp add: moves_def)

text \<open>Only the store's entry at one address changes, to a session with the same id.\<close>

lemma moves_set_session:
  assumes wf: "http_wf h" and a: "a < hp_fresh h" and s: "session_wf s" "s_id s = s_id (hp_heap h a)"
    and c: "calls_at h a = [] \<longrightarrow> pending_of s = []" "tool_names (pending_of s) + taken = tool_names (calls_at h a)"
  shows "moves taken {#} h (set_session a s h)"
proof -
  have "pending_names (set_session a s h) + taken + tool_names (pending_of s) = pending_names h + tool_names (pending_of s)"
    using pending_names_set_session [OF a, of s] unfolding c(2) [symmetric] by (simp only: ac_simps)
  then have "pending_names (set_session a s h) + taken = pending_names h" by simp
  then have "books (set_session a s h) + taken = books h"
    by (simp add: books_def set_session_def ac_simps)
  moreover have "http_wf (set_session a s h)"
    using wf a s by (auto simp: http_wf_def set_session_def legacy_id_def)
  ultimately show ?thesis
    using s c by (auto simp: moves_def set_session_def)
qed

lemma resolve_at_eq:
  assumes "session_wf (hp_heap h a)"
  shows "resolve_at a k h = (map_of (calls_at h a) k, set_session a (set_calls (hp_heap h a) (AList.delete k (calls_at h a))) h)"
  using assms by (simp add: resolve_at_def resolve_def permit_resolve_def calls_remove_def session_wf_def)

lemma resolve_at_moves:
  assumes "http_wf h" and "a < hp_fresh h"
  shows "moves (mset (map pc_tool_name (case fst (resolve_at a k h) of None \<Rightarrow> [] | Some c \<Rightarrow> [c]))) {#} h (snd (resolve_at a k h))"
proof -
  have wf: "session_wf (hp_heap h a)" using assms(1) by (simp add: http_wf_def)
  then have d: "distinct (map fst (calls_at h a))" by (simp add: session_wf_def)
  show ?thesis
    unfolding resolve_at_eq [OF wf] fst_conv snd_conv
  proof (rule moves_set_session [OF assms])
    show "session_wf (set_calls (hp_heap h a) (AList.delete k (calls_at h a)))"
      using wf d by (simp add: session_wf_def distinct_delete)
  qed (use tool_names_delete [OF d, simplified] in simp_all)
qed

lemma log_entry_moves:
  assumes "http_wf h"
  shows "moves {#} {#pc_tool_name c#} h (log_entry l a c outcome h)"
proof -
  let ?b = "build_entry ((li_env l)\<lparr>ae_session_id := s_id (hp_heap h a), ae_server_name := li_server_name l,
      ae_tier := tier_for_tool (li_config l) (pc_tool_name c)\<rparr>) (fst (li_clock l (Suc (hp_ticks h))))
      (int ((snd (li_clock l (hp_ticks h)) - pc_started c) div 1000000)) c outcome"
  let ?at = "attach_anomaly (li_fmt_secs l) (li_reasons_json l) (hp_heap h a) (fst ?b) (fst (snd ?b)) (snd (snd ?b)) (snd (li_clock l (Suc (Suc (hp_ticks h)))))"
  define e s where "e = fst ?at" and "s = snd ?at"
  have e: "log_entry l a c outcome h = (set_session a s (h\<lparr>hp_ticks := Suc (Suc (Suc (hp_ticks h)))\<rparr>))\<lparr>hp_logged := hp_logged h @ [e]\<rparr>"
    by (simp add: log_entry_def clock_def case_prod_beta Let_def e_def s_def set_session_def)
  have s: "s_id s = s_id (hp_heap h a)" "s_pending s = s_pending (hp_heap h a)" and n: "e_tool_name e = pc_tool_name c"
    by (simp_all add: e_def s_def)
  let ?h = "log_entry l a c outcome h"
  have same: "calls_at ?h b = calls_at h b" "s_id (hp_heap ?h b) = s_id (hp_heap h b)"
    "s_pending (hp_heap ?h b) = s_pending (hp_heap h b)" for b
    using s by (simp_all add: e set_session_def)
  have rest: "hp_fresh ?h = hp_fresh h" "rg_open ?h = rg_open h" "rg_next_id ?h = rg_next_id h" "rg_endpoints ?h = rg_endpoints h"
    "hp_logged ?h = hp_logged h @ [e]"
    by (simp_all add: e set_session_def)
  have "pending_names ?h = pending_names h" by (simp add: pending_names_def same rest)
  then have "books ?h = add_mset (pc_tool_name c) (books h)" by (simp add: books_def rest n)
  moreover have "http_wf ?h" using assms by (simp add: http_wf_def session_wf_def legacy_id_def same rest)
  ultimately show ?thesis by (simp add: moves_def same rest)
qed

lemma log_timeouts_moves:
  "http_wf h \<Longrightarrow> moves {#} (mset (map pc_tool_name cs)) h (log_timeouts l a cs h)"
proof (induction cs arbitrary: h)
  case Nil
  then show ?case by (simp add: log_timeouts_def moves_refl)
next
  case (Cons c cs)
  have step: "moves {#} {#pc_tool_name c#} h (log_timeout l a c h)"
    unfolding log_timeout_def by (rule log_entry_moves [OF Cons.prems])
  show ?case
    using moves_trans [OF step Cons.IH [OF moves_wf [OF step]]] by (simp add: log_timeouts_def)
qed

lemma drain_session_moves:
  assumes "http_wf h" and "a < hp_fresh h"
  shows "moves (mset (map pc_tool_name (fst (drain_session a h)))) {#} h (snd (drain_session a h))"
proof -
  have wf: "session_wf (hp_heap h a)" using assms(1) by (simp add: http_wf_def)
  show ?thesis
    unfolding drain_session_def drain_abandoned_def calls_drain_def case_prod_conv Let_def fst_conv snd_conv
    by (rule moves_set_session [OF assms]) (use wf in \<open>simp_all add: session_wf_def tool_names_def comp_def\<close>)
qed

text \<open>Taking the calls off a session and logging each of them.\<close>

lemma drain_and_log_step:
  assumes "http_wf h" and "a < hp_fresh h"
  shows "audit_step h (log_timeouts l b (fst (drain_session a h)) (snd (drain_session a h)))"
  using moves_settle [OF drain_session_moves [OF assms] log_timeouts_moves [OF moves_wf [OF drain_session_moves [OF assms]]]] .

lemma alloc_step:
  assumes "http_wf h"
  shows "audit_step h (snd (alloc sid h))"
proof -
  let ?h = "snd (alloc sid h)"
  have empty: "calls_at h (hp_fresh h) = []" using assms by (simp add: http_wf_def)
  have calls: "calls_at ?h b = calls_at h b" for b
    using empty by (simp add: alloc_def set_session_def new_session_def)
  have rest: "hp_fresh ?h = Suc (hp_fresh h)" "rg_open ?h = rg_open h" "rg_next_id ?h = rg_next_id h" "rg_endpoints ?h = rg_endpoints h"
    "hp_logged ?h = hp_logged h" "b \<noteq> hp_fresh h \<Longrightarrow> hp_heap ?h b = hp_heap h b" "session_wf (hp_heap h b) \<Longrightarrow> session_wf (hp_heap ?h b)" for b
    by (simp_all add: alloc_def set_session_def new_session_def session_wf_def)
  have "pending_names ?h = pending_names h" by (simp add: pending_names_def calls rest empty)
  then have "books ?h = books h" by (simp add: books_def rest)
  moreover have "http_wf ?h"
    using assms unfolding http_wf_def rest by (auto simp: calls rest less_Suc_eq)
  ultimately show ?thesis by (simp add: moves_def calls rest)
qed

lemma bind_endpoint_step:
  assumes "http_wf h" and "a < hp_fresh h" and "legacy_id (hp_heap h a)"
  shows "audit_step h (bind_endpoint key a h)"
proof -
  have "snd ` set (AList.update key a m) \<subseteq> insert a (snd ` set m)" for m
    by (induction m) auto
  then have sub: "p \<in> set (AList.update key a m) \<Longrightarrow> snd p = a \<or> (\<exists>q\<in>set m. snd p = snd q)" for p m
    by (metis (no_types, lifting) imageE imageI insertE subsetD)
  have "http_wf (bind_endpoint key a h)"
    using assms by (auto simp: http_wf_def bind_endpoint_def dest!: sub)
  then show ?thesis by (simp add: moves_def books_def pending_names_def bind_endpoint_def)
qed

lemma resolve_messages_step:
  "http_wf h \<Longrightarrow> a < hp_fresh h \<Longrightarrow> audit_step h (snd (resolve_messages l a n msgs h))"
proof (induction msgs arbitrary: h)
  case (Cons msg msgs)
  show ?case
  proof (cases "message_key l msg")
    case None
    with Cons show ?thesis by simp
  next
    case (Some k)
    obtain r h1 where r: "resolve_at a k h = (r, h1)" by fastforce
    note m1 = resolve_at_moves [OF Cons.prems, of k, unfolded r fst_conv snd_conv]
    show ?thesis
    proof (cases r)
      case None
      with m1 have "audit_step h h1" by simp
      then show ?thesis
        using Cons.IH [of h1] moves_wf moves_less [of _ _ h h1 a] Cons.prems
        by (auto simp: Some r None intro: audit_step_trans)
    next
      case call: (Some call)
      let ?h2 = "log_entry l a call (from_rpc msg n) h1"
      have m2: "moves {#} {#pc_tool_name call#} h1 ?h2" by (rule log_entry_moves [OF moves_wf [OF m1]])
      have step: "audit_step h ?h2" using moves_settle [OF _ m2] m1 by (simp add: call)
      then have "audit_step h (snd (resolve_messages l a n msgs ?h2))"
        using Cons.IH [of ?h2] moves_wf [OF step] moves_less [OF step Cons.prems(2)] by (blast intro: audit_step_trans)
      then show ?thesis by (simp add: Some r call case_prod_beta)
    qed
  qed
qed (simp add: moves_refl)

text \<open>A body step: an audit step that leaves the body with an allocated session.\<close>

definition tee_ok :: "tee \<Rightarrow> http \<Rightarrow> bool" where
  "tee_ok t h \<longleftrightarrow> te_session t < hp_fresh h"

lemma tee_ok_mono: "tee_ok t h \<Longrightarrow> moves x y h h' \<Longrightarrow> tee_ok t h'"
  by (simp add: tee_ok_def moves_less)

lemma rewrite_endpoint_step:
  assumes "http_wf h"
  shows "audit_step h (snd (snd (rewrite_endpoint l t raw adv h))) \<and>
    tee_ok (fst (snd (rewrite_endpoint l t raw adv h))) (snd (snd (rewrite_endpoint l t raw adv h)))"
proof -
  let ?sid = "''sse:'' @ li_uuid l (hp_fresh h)"
  let ?h1 = "snd (alloc ?sid h)"
  have s1: "audit_step h ?h1" by (rule alloc_step [OF assms])
  have a: "fst (alloc ?sid h) < hp_fresh ?h1" "legacy_id (hp_heap ?h1 (fst (alloc ?sid h)))"
    by (simp_all add: alloc_def set_session_def new_session_def legacy_id_def starts_with_def)
  have s2: "audit_step h (bind_endpoint key (fst (alloc ?sid h)) ?h1)" for key
    by (rule audit_step_trans [OF s1 bind_endpoint_step [OF moves_wf [OF s1] a]])
  show ?thesis
    using s1 s2 a by (simp add: rewrite_endpoint_def Let_def case_prod_beta tee_ok_def bind_endpoint_def split: option.split)
qed

lemma handle_event_step:
  assumes "http_wf h" and "tee_ok t h"
  shows "audit_step h (snd (snd (handle_event l t ev h))) \<and> tee_ok (fst (snd (handle_event l t ev h))) (snd (snd (handle_event l t ev h)))"
proof -
  have a: "te_session t < hp_fresh h" using assms(2) by (simp add: tee_ok_def)
  show ?thesis
    using rewrite_endpoint_step [OF assms(1), of l t] resolve_messages_step [OF assms(1) a, of l]
      moves_less [OF resolve_messages_step [OF assms(1) a, of l] a] assms a
    by (simp add: handle_event_def moves_refl tee_ok_def split: option.split)
qed

lemma handle_events_step:
  assumes "http_wf h" and "tee_ok t h"
  shows "audit_step h (snd (snd (handle_events l t evs h))) \<and>
    tee_ok (fst (snd (handle_events l t evs h))) (snd (snd (handle_events l t evs h)))"
  using assms
proof (induction evs arbitrary: t h)
  case (Cons ev evs)
  let ?t = "fst (snd (handle_event l t ev h))" and ?h = "snd (snd (handle_event l t ev h))"
  have s: "audit_step h ?h" "tee_ok ?t ?h" using handle_event_step [OF Cons.prems, of l ev] by simp_all
  show ?case
    using Cons.IH [OF moves_wf [OF s(1)] s(2)] audit_step_trans [OF s(1)] by (simp add: case_prod_beta)
qed (simp add: moves_refl)

lemma tee_ok_update [simp]:
  "tee_ok (t\<lparr>te_mode := m\<rparr>) h = tee_ok t h" "tee_ok (t\<lparr>te_bytes_out := n\<rparr>) h = tee_ok t h"
  by (simp_all add: tee_ok_def)

lemma observe_step:
  assumes "http_wf h" and "tee_ok t h"
  shows "audit_step h (snd (snd (observe l t chunk h))) \<and> tee_ok (fst (snd (observe l t chunk h))) (snd (snd (observe l t chunk h)))"
proof (cases "te_mode t")
  case (Whole cap tr)
  with assms show ?thesis by (simp add: observe_def Let_def moves_refl)
next
  case (Events parser)
  let ?p = "snd (feed parser chunk)"
  let ?t = "t\<lparr>te_bytes_out := te_bytes_out t + int (length chunk), te_mode := Events ?p\<rparr>"
  have "tee_ok ?t h" using assms(2) by simp
  from handle_events_step [OF assms(1) this, of l "fst (feed parser chunk)"] Events show ?thesis
    by (simp add: observe_def Let_def case_prod_beta)
qed

lemma unbind_step:
  assumes "http_wf h"
  shows "audit_step h (snd (unbind_endpoint_if key a h))"
proof -
  have sub: "p \<in> set (AList.delete key m) \<Longrightarrow> \<exists>q\<in>set m. snd p = snd q" for p and m :: "(string \<times> addr) list"
    by (auto simp: AList.delete_eq)
  then have "http_wf (h\<lparr>rg_endpoints := AList.delete key (rg_endpoints h)\<rparr>)"
    using assms by (auto simp: http_wf_def dest!: sub)
  then have "audit_step h (h\<lparr>rg_endpoints := AList.delete key (rg_endpoints h)\<rparr>)"
    by (simp add: moves_def books_def pending_names_def)
  then show ?thesis using moves_refl [OF assms] by (simp add: unbind_endpoint_if_def split: option.split)
qed

lemma release_endpoint_step:
  assumes "http_wf h" and "tee_ok t h"
  shows "audit_step h (release_endpoint l t h)"
proof (cases "te_endpoint_key t")
  case None
  with assms show ?thesis by (simp add: release_endpoint_def moves_refl)
next
  case (Some key)
  obtain r h1 where r: "unbind_endpoint_if key (te_session t) h = (r, h1)" by fastforce
  have s1: "audit_step h h1" using unbind_step [OF assms(1), of key "te_session t"] by (simp add: r)
  have "te_session t < hp_fresh h1" using assms(2) moves_less [OF s1] by (simp add: tee_ok_def)
  from drain_and_log_step [OF moves_wf [OF s1] this]
  have "audit_step h (log_timeouts l (te_session t) (fst (drain_session (te_session t) h1)) (snd (drain_session (te_session t) h1)))"
    by (rule audit_step_trans [OF s1])
  with s1 show ?thesis by (cases r) (simp_all add: release_endpoint_def Some r case_prod_beta)
qed

lemma settle_step:
  assumes "http_wf h" and "a < hp_fresh h" and "resolve_at a k h = (Some call, h')"
  shows "audit_step h (log_entry l a call outcome h')"
proof -
  from resolve_at_moves [OF assms(1,2), of k] have m: "moves {#pc_tool_name call#} {#} h h'" by (simp add: assms(3))
  from moves_settle [OF m log_entry_moves [OF moves_wf [OF m]]] show ?thesis .
qed

lemma resolve_none_step:
  assumes "http_wf h" and "a < hp_fresh h" and "resolve_at a k h = (None, h')"
  shows "audit_step h h'"
  using resolve_at_moves [OF assms(1,2), of k] by (simp add: assms(3))

lemma finish_step:
  assumes "http_wf h" and "tee_ok t h"
  shows "audit_step h (finish l t h)"
proof -
  let ?h = "release_endpoint l t h" and ?a = "te_session t"
  have s1: "audit_step h ?h" by (rule release_endpoint_step [OF assms])
  show ?thesis
  proof (cases "te_mode t")
    case (Events parser)
    with s1 show ?thesis by (simp add: finish_def Let_def)
  next
    case (Whole cap tr)
    let ?ms = "parse_batch (li_parse_json l) cap"
    obtain any h2 where r: "resolve_messages l ?a (te_bytes_out t) ?ms ?h = (any, h2)" by fastforce
    have a: "?a < hp_fresh ?h" using tee_ok_mono [OF assms(2) s1] by (simp add: tee_ok_def)
    have s2: "audit_step h h2"
      using audit_step_trans [OF s1] resolve_messages_step [OF moves_wf [OF s1] a, of l "te_bytes_out t" ?ms] by (simp add: r)
    have a2: "?a < hp_fresh h2" using tee_ok_mono [OF assms(2) s2] by (simp add: tee_ok_def)
    show ?thesis
    proof (cases "any \<or> te_pending_keys t = []")
      case True
      with s2 show ?thesis by (simp add: finish_def Let_def Whole r)
    next
      case False
      obtain c h3 where c: "resolve_at ?a (last (te_pending_keys t)) h2 = (c, h3)" by fastforce
      show ?thesis
      proof (cases c)
        case None
        with False show ?thesis
          using audit_step_trans [OF s2 resolve_none_step [OF moves_wf [OF s2] a2]] c
          by (simp add: finish_def Let_def Whole r)
      next
        case (Some call)
        with False show ?thesis
          using audit_step_trans [OF s2 settle_step [OF moves_wf [OF s2] a2 c [unfolded Some]]] c
          by (simp add: finish_def Let_def Whole r)
      qed
    qed
  qed
qed

text \<open>Bodies: a body that still audits has an allocated session.\<close>

definition body_ok :: "tee_body \<Rightarrow> http \<Rightarrow> bool" where
  "body_ok b h \<longleftrightarrow> (case tb_tee b of None \<Rightarrow> True | Some t \<Rightarrow> tee_ok t h)"

lemma body_ok_mono: "body_ok b h \<Longrightarrow> moves x y h h' \<Longrightarrow> body_ok b h'"
  by (auto simp: body_ok_def split: option.splits elim: tee_ok_mono)

lemma tee_remainder_session [simp]: "te_session (snd (tee_remainder t)) = te_session t"
  by (simp add: tee_remainder_def case_prod_beta split: tee_mode.split)

lemma drop_body_step:
  assumes "http_wf h" and "body_ok b h"
  shows "audit_step h (snd (drop_body l b h))"
  using assms by (auto simp: drop_body_def body_ok_def moves_refl finish_step split: option.splits)

lemma poll_frame_step:
  "http_wf h \<Longrightarrow> body_ok b h \<Longrightarrow>
     audit_step h (fst (snd (snd (poll_frame l b h ups)))) \<and>
     body_ok (fst (snd (poll_frame l b h ups))) (fst (snd (snd (poll_frame l b h ups))))"
proof (induction ups arbitrary: b h)
  case Nil
  then show ?case by (cases "tb_pending_out b") (simp_all add: moves_refl body_ok_def)
next
  case (Cons i ups)
  show ?case
  proof (cases "tb_pending_out b")
    case (Cons x xs)
    with Cons.prems show ?thesis by (simp add: moves_refl body_ok_def)
  next
    case Nil
    show ?thesis
    proof (cases "tb_tee b")
      case None
      with Nil Cons.prems show ?thesis by (cases i) (simp_all add: moves_refl)
    next
      case (Some t)
      then have t: "tee_ok t h" using Cons.prems(2) by (simp add: body_ok_def)
      show ?thesis
      proof (cases i)
        case (Data chunk)
        obtain out t' h' where o: "observe l t chunk h = (out, t', h')" by (cases "observe l t chunk h") auto
        have s: "audit_step h h'" "tee_ok t' h'" using observe_step [OF Cons.prems(1) t, of l chunk] by (simp_all add: o)
        show ?thesis
        proof (cases out)
          case None
          with s show ?thesis by (simp add: Data Nil Some o body_ok_def)
        next
          case (Some evs)
          let ?b = "b\<lparr>tb_tee := Some t', tb_pending_out := evs\<rparr>"
          have "body_ok ?b h'" using s by (simp add: body_ok_def)
          from Cons.IH [OF moves_wf [OF s(1)] this] audit_step_trans [OF s(1)] show ?thesis
            by (simp add: Data Nil \<open>tb_tee b = Some t\<close> o Some)
        qed
      next
        case Trailers
        with Nil Cons.prems show ?thesis by (simp add: moves_refl)
      next
        case EndOfBody
        have t': "tee_ok (snd (tee_remainder t)) h" using t by (simp add: tee_ok_def)
        note s = finish_step [OF Cons.prems(1) t', of l]
        have "body_ok (b\<lparr>tb_tee := None, tb_pending_out := p\<rparr>) h'" for p h' by (simp add: body_ok_def)
        from Cons.IH [OF moves_wf [OF s] this] audit_step_trans [OF s] s show ?thesis
          by (simp add: EndOfBody Nil Some case_prod_beta Let_def body_ok_def)
      next
        case BodyError
        have t': "tee_ok (snd (tee_remainder t)) h" using t by (simp add: tee_ok_def)
        note s = finish_step [OF Cons.prems(1) t', of l]
        have "body_ok (b\<lparr>tb_tee := None, tb_pending_out := p\<rparr>) h'" for p h' by (simp add: body_ok_def)
        from Cons.IH [OF moves_wf [OF s] this] audit_step_trans [OF s] s show ?thesis
          by (simp add: BodyError Nil Some case_prod_beta Let_def body_ok_def)
      qed
    qed
  qed
qed

end
