(* ===== verification/HttpRun.thy ===== *)
theory HttpRun
  imports HttpBooks
begin

text \<open>
  The life of a listener: connections are accepted, carry requests, whose responses are polled to
  their end or dropped, and hang up; at the end the listener is stopped. A step is one handler of
  \<open>Server\<close> or \<open>Tee\<close> run to its end. Each of them takes the locks it needs one statement at a time,
  so the steps of two connections may interleave more finely than here; between finding the
  session of a legacy endpoint and registering on it another step does not intervene here.
\<close>

record net =
  nt_http :: http
  nt_conns :: "(nat \<times> addr) list"
  nt_waiting :: "(nat \<times> addr \<times> string list \<times> bool) list"
  nt_bodies :: "(nat \<times> tee_body) list"

definition new_net :: net where
  "new_net = \<lparr>nt_http = new_http, nt_conns = [], nt_waiting = [], nt_bodies = []\<rparr>"

datatype net_event =
    Accept
  | Request nat request
  | UpstreamFailed nat
  | Answer nat response
  | PollBody nat "inner list"
  | DropBody nat
  | Hangup nat
  | Stop

text \<open>The tool calls a request brings in when it is let through.\<close>

abbreviation requested :: "listener \<Rightarrow> rpc_message list \<Rightarrow> string list" where
  "requested l \<equiv> requested_names (ae_show (li_env l))"

definition admitted :: "listener \<Rightarrow> refusal + upstream_request \<times> addr \<times> string list \<times> bool \<Rightarrow> string list" where
  "admitted l r =
     (case r of
        Inl e \<Rightarrow> []
      | Inr (up, _) \<Rightarrow> if up_method up = ''POST'' then requested l (parse_batch (li_parse_json l) (up_body up)) else [])"

definition remove_at :: "nat \<Rightarrow> 'a list \<Rightarrow> 'a list" where
  "remove_at i xs = take i xs @ drop (Suc i) xs"

definition drop_bodies :: "listener \<Rightarrow> (nat \<times> tee_body) list \<Rightarrow> http \<Rightarrow> http" where
  "drop_bodies l bs h = fold (\<lambda>(k, b) h. snd (drop_body l b h)) bs h"

fun net_step ::
  "(nat \<Rightarrow> body_frame list \<Rightarrow> body_frame list) \<Rightarrow> listener \<Rightarrow> net \<Rightarrow> net_event \<Rightarrow> string list \<times> net" where
  "net_step limited l n Accept =
     (let (c, h) = open_session l (nt_http n) in ([], n\<lparr>nt_http := h, nt_conns := nt_conns n @ [c]\<rparr>))"
| "net_step limited l n (Request c req) =
     (if c < length (nt_conns n)
      then (let (key, a) = nt_conns n ! c;
                (r, h) = proxy_request limited l a req (nt_http n)
            in (admitted l r,
                n\<lparr>nt_http := h, nt_waiting := nt_waiting n @ (case r of Inl e \<Rightarrow> [] | Inr (up, rest) \<Rightarrow> [(key, rest)])\<rparr>))
      else ([], n))"
| "net_step limited l n (UpstreamFailed i) = ([], n\<lparr>nt_waiting := remove_at i (nt_waiting n)\<rparr>)"
| "net_step limited l n (Answer i resp) =
     (if i < length (nt_waiting n)
      then (let (key, a, keys, legacy) = nt_waiting n ! i
            in ([], n\<lparr>nt_waiting := remove_at i (nt_waiting n),
                      nt_bodies := nt_bodies n @ [(key, snd (proxy_response l a keys legacy resp))]\<rparr>))
      else ([], n))"
| "net_step limited l n (PollBody j ups) =
     (if j < length (nt_bodies n)
      then (let (key, b) = nt_bodies n ! j; (p, b, h, rest) = poll_frame l b (nt_http n) ups
            in ([], n\<lparr>nt_http := h, nt_bodies := (nt_bodies n)[j := (key, b)]\<rparr>))
      else ([], n))"
| "net_step limited l n (DropBody j) =
     (if j < length (nt_bodies n)
      then ([], n\<lparr>nt_http := drop_bodies l [nt_bodies n ! j] (nt_http n), nt_bodies := remove_at j (nt_bodies n)\<rparr>)
      else ([], n))"
| "net_step limited l n (Hangup c) =
     (if c < length (nt_conns n)
      then (let (key, a) = nt_conns n ! c;
                h = drop_bodies l (filter (\<lambda>b. fst b = key) (nt_bodies n)) (nt_http n)
            in ([], n\<lparr>nt_http := close_connection l key a h, nt_conns := remove_at c (nt_conns n),
                      nt_waiting := filter (\<lambda>w. fst w \<noteq> key) (nt_waiting n),
                      nt_bodies := filter (\<lambda>b. fst b \<noteq> key) (nt_bodies n)\<rparr>))
      else ([], n))"
| "net_step limited l n Stop =
     ([], \<lparr>nt_http = shutdown_drain l (drop_bodies l (nt_bodies n) (nt_http n)), nt_conns = [], nt_waiting = [], nt_bodies = []\<rparr>)"

fun net_run ::
  "(nat \<Rightarrow> body_frame list \<Rightarrow> body_frame list) \<Rightarrow> listener \<Rightarrow> net \<Rightarrow> net_event list \<Rightarrow> string list \<times> net" where
  "net_run limited l n [] = ([], n)"
| "net_run limited l n (e # es) =
     (let (acc, n) = net_step limited l n e; (accs, n) = net_run limited l n es in (acc @ accs, n))"

section \<open>Registration\<close>

definition admits :: "string multiset \<Rightarrow> addr \<Rightarrow> http \<Rightarrow> http \<Rightarrow> bool" where
  "admits names a h h' \<longleftrightarrow> http_wf h' \<and> books h' = books h + names \<and> hp_fresh h' = hp_fresh h \<and>
     rg_open h' = rg_open h \<and> rg_next_id h' = rg_next_id h \<and>
     (\<forall>b. b \<noteq> a \<longrightarrow> calls_at h b = [] \<longrightarrow> calls_at h' b = []) \<and> (\<forall>b<hp_fresh h. s_id (hp_heap h' b) = s_id (hp_heap h b))"

lemma admits_refl: "http_wf h \<Longrightarrow> admits {#} a h h"
  by (simp add: admits_def)

lemma admits_trans:
  assumes "admits x a h h'" and "admits y a h' h''"
  shows "admits (x + y) a h h''"
  using assms by (auto simp: admits_def ac_simps)

lemma register_at_eq:
  assumes "session_wf (hp_heap h a)"
  shows "register_at a k c h = (map_of (calls_at h a) k, set_session a (set_calls (hp_heap h a) (AList.update k c (calls_at h a))) h)"
  using assms by (simp add: register_at_def register_def permit_register_def calls_insert_def session_wf_def)

text \<open>Registering one call and logging the one it displaces.\<close>

lemma register_one:
  assumes "http_wf h" and "a < hp_fresh h" and "register_at a k c h = (old, h1)"
  shows "admits {#pc_tool_name c#} a h (case old of Some stale \<Rightarrow> log_timeout l a stale h1 | None \<Rightarrow> h1)"
proof -
  have wf: "session_wf (hp_heap h a)" using assms(1) by (simp add: http_wf_def)
  then have d: "distinct (map fst (calls_at h a))" by (simp add: session_wf_def)
  let ?s = "set_calls (hp_heap h a) (AList.update k c (calls_at h a))"
  from assms(3) have old: "old = map_of (calls_at h a) k" and h1: "h1 = set_session a ?s h"
    by (simp_all add: register_at_eq [OF wf])
  let ?old = "mset (map pc_tool_name (case old of None \<Rightarrow> [] | Some d \<Rightarrow> [d]))"
  have s: "session_wf ?s" using wf d by (simp add: session_wf_def distinct_update)
  have "pending_names h1 + tool_names (calls_at h a) + ?old = pending_names h + (tool_names (pending_of ?s) + ?old)"
    using pending_names_set_session [OF assms(2), of ?s] by (simp add: h1 ac_simps)
  also have "\<dots> = pending_names h + add_mset (pc_tool_name c) (tool_names (calls_at h a))"
    using tool_names_update [OF d, of k c] by (simp add: old)
  finally have "pending_names h1 + ?old = add_mset (pc_tool_name c) (pending_names h)" by simp
  then have b: "books h1 + ?old = add_mset (pc_tool_name c) (books h)"
    by (simp add: books_def h1 set_session_def)
  have w: "http_wf h1" using assms(1) s assms(2) by (auto simp: http_wf_def h1 set_session_def legacy_id_def)
  have rest: "hp_fresh h1 = hp_fresh h" "rg_open h1 = rg_open h" "rg_next_id h1 = rg_next_id h"
    "b \<noteq> a \<Longrightarrow> hp_heap h1 b = hp_heap h b" "s_id (hp_heap h1 b) = s_id (hp_heap h b)" for b
    by (simp_all add: h1 set_session_def)
  show ?thesis
  proof (cases old)
    case None
    with b w rest show ?thesis by (simp add: admits_def)
  next
    case (Some stale)
    have m: "moves {#} {#pc_tool_name stale#} h1 (log_timeout l a stale h1)"
      unfolding log_timeout_def by (rule log_entry_moves [OF w])
    have f: "hp_fresh (log_timeout l a stale h1) = hp_fresh h1"
      by (simp add: log_timeout_def log_entry_def clock_def case_prod_beta Let_def set_session_def)
    have "books (log_timeout l a stale h1) = books h + {#pc_tool_name c#}"
      using m b by (simp add: moves_def Some)
    with m f rest show ?thesis by (auto simp: admits_def moves_def Some)
  qed
qed

lemma clock_admits: "http_wf h \<Longrightarrow> admits {#} a h (snd (clock l h))"
  by (simp add: clock_def admits_def http_wf_def books_def pending_names_def)

lemma admitsD: "admits x a h h' \<Longrightarrow> http_wf h'" "admits x a h h' \<Longrightarrow> hp_fresh h' = hp_fresh h"
  by (simp_all add: admits_def)

lemma register_calls_admits:
  "http_wf h \<Longrightarrow> a < hp_fresh h \<Longrightarrow> admits (mset (requested l msgs)) a h (snd (register_calls l a n msgs h))"
proof (induction msgs arbitrary: h)
  case (Cons msg msgs)
  show ?case
  proof (cases "\<exists>k tool. is_tool_call_request msg \<and> message_key l msg = Some k \<and> tool_name msg = Some tool")
    case False
    with Cons show ?thesis by (auto simp: message_key_def split: option.split)
  next
    case True
    then obtain k tool where req: "is_tool_call_request msg" "message_key l msg = Some k" "tool_name msg = Some tool" by blast
    let ?h0 = "snd (clock l h)"
    let ?c = "\<lparr>pc_tool_name = tool, pc_args = arguments msg, pc_bytes_in = n, pc_started = snd (fst (clock l h))\<rparr>"
    obtain old h1 where r: "register_at a k ?c ?h0 = (old, h1)" by fastforce
    let ?h2 = "case old of Some stale \<Rightarrow> log_timeout l a stale h1 | None \<Rightarrow> h1"
    have s0: "admits {#} a h ?h0" by (rule clock_admits [OF Cons.prems(1)])
    have "a < hp_fresh ?h0" using Cons.prems(2) admitsD(2) [OF s0] by simp
    from admits_trans [OF s0 register_one [OF admitsD(1) [OF s0] this r, of l]]
    have s2: "admits {#tool#} a h ?h2" by simp
    have "a < hp_fresh ?h2" using Cons.prems(2) admitsD(2) [OF s2] by simp
    from admits_trans [OF s2 Cons.IH [OF admitsD(1) [OF s2] this]] show ?thesis
      by (cases old) (simp_all add: req req(2) [unfolded message_key_def] r case_prod_beta Let_def)
  qed
qed (simp add: admits_refl)

section \<open>Invariants of a run\<close>

text \<open>Addresses are allocated everywhere.\<close>

definition net_wf :: "net \<Rightarrow> bool" where
  "net_wf n \<longleftrightarrow> http_wf (nt_http n) \<and> (\<forall>(k, a)\<in>set (nt_conns n). a < hp_fresh (nt_http n)) \<and>
     (\<forall>(k, a, r)\<in>set (nt_waiting n). a < hp_fresh (nt_http n)) \<and> (\<forall>(k, b)\<in>set (nt_bodies n). body_ok b (nt_http n))"

text \<open>
  The session of a connection is in the registry for as long as the connection lives, so that what
  is pending on it will be drained; only legacy sessions can be outside the registry with calls.
\<close>

definition conns_open :: "net \<Rightarrow> bool" where
  "conns_open n \<longleftrightarrow> distinct (map fst (nt_conns n)) \<and> distinct (map fst (rg_open (nt_http n))) \<and>
     (\<forall>(k, a)\<in>set (nt_conns n). map_of (rg_open (nt_http n)) k = Some a) \<and>
     (\<forall>k\<in>fst ` set (rg_open (nt_http n)). k < rg_next_id (nt_http n))"

definition drainable :: "http \<Rightarrow> bool" where
  "drainable h \<longleftrightarrow> (\<forall>a<hp_fresh h. calls_at h a = [] \<or> legacy_id (hp_heap h a) \<or> a \<in> snd ` set (rg_open h))"

lemma moves_drainable: "moves t x h h' \<Longrightarrow> drainable h \<Longrightarrow> http_wf h \<Longrightarrow> drainable h'"
  unfolding moves_def drainable_def legacy_id_def http_wf_def by (metis linorder_not_less)

lemma drop_bodies_step:
  "http_wf h \<Longrightarrow> \<forall>(k, b)\<in>set bs. body_ok b h \<Longrightarrow> audit_step h (drop_bodies l bs h)"
proof (induction bs arbitrary: h)
  case (Cons p bs)
  obtain k b where p: "p = (k, b)" by fastforce
  let ?h = "snd (drop_body l b h)"
  have s: "audit_step h ?h" using drop_body_step [of h b l] Cons.prems by (simp add: p)
  have "\<forall>(k, b)\<in>set bs. body_ok b ?h" using Cons.prems(2) body_ok_mono [OF _ s] by auto
  from audit_step_trans [OF s Cons.IH [OF moves_wf [OF s] this]] show ?case by (simp add: p drop_bodies_def)
qed (simp add: drop_bodies_def moves_refl)

lemma open_session_effect:
  assumes "http_wf h"
  obtains h' where "open_session l h = ((rg_next_id h, hp_fresh h), h')" and "http_wf h'" and "books h' = books h"
    and "hp_fresh h' = Suc (hp_fresh h)" and "rg_next_id h' = (rg_next_id h + 1) mod 2 ^ 64"
    and "rg_open h' = AList.update (rg_next_id h) (hp_fresh h) (rg_open h)"
    and "\<And>b. calls_at h' b = calls_at h b" and "\<And>b. b < hp_fresh h \<Longrightarrow> s_id (hp_heap h' b) = s_id (hp_heap h b)"
proof -
  let ?sid = "''conn:'' @ li_uuid l (hp_fresh h)"
  let ?h0 = "h\<lparr>rg_next_id := (rg_next_id h + 1) mod 2 ^ 64\<rparr>"
  let ?h1 = "snd (alloc ?sid ?h0)"
  let ?h2 = "?h1\<lparr>rg_open := AList.update (rg_next_id h) (hp_fresh h) (rg_open h)\<rparr>"
  have w0: "http_wf ?h0" using assms by (simp add: http_wf_def)
  have s: "audit_step ?h0 ?h1" by (rule alloc_step [OF w0])
  have f: "hp_fresh ?h1 = Suc (hp_fresh h)" "rg_next_id ?h1 = (rg_next_id h + 1) mod 2 ^ 64" "rg_endpoints ?h1 = rg_endpoints h"
    "rg_open ?h1 = rg_open h"
    by (simp_all add: alloc_def set_session_def)
  have calls: "calls_at ?h1 b = calls_at h b" for b
    using assms by (simp add: alloc_def set_session_def new_session_def http_wf_def)
  have sub: "p \<in> set (AList.update k a m) \<Longrightarrow> snd p = a \<or> (\<exists>q\<in>set m. snd p = snd q)" for p k a and m :: "(nat \<times> addr) list"
    by (induction m) (auto split: if_splits)
  have "http_wf ?h2"
    using moves_wf [OF s] f by (auto simp: http_wf_def dest!: sub)
  moreover have "books ?h2 = books h"
    using s by (simp add: moves_def books_def pending_names_def)
  ultimately show thesis
    using that [of ?h2] s f calls by (simp add: open_session_def Let_def case_prod_beta moves_def alloc_def)
qed

lemma close_connection_effect:
  assumes "http_wf h" and "a < hp_fresh h" and "map_of (rg_open h) key = Some a"
  shows "audit_step (h\<lparr>rg_open := AList.delete key (rg_open h)\<rparr>) (close_connection l key a h)"
    and "http_wf (h\<lparr>rg_open := AList.delete key (rg_open h)\<rparr>)"
    and "calls_at (close_connection l key a h) a = []"
proof -
  let ?h = "h\<lparr>rg_open := AList.delete key (rg_open h)\<rparr>"
  have sub: "p \<in> set (AList.delete key m) \<Longrightarrow> \<exists>q\<in>set m. snd p = snd q" for p and m :: "(nat \<times> addr) list"
    by (auto simp: AList.delete_eq)
  show w: "http_wf ?h" using assms(1) by (auto simp: http_wf_def dest!: sub)
  have e: "close_connection l key a h = log_timeouts l a (fst (drain_session a ?h)) (snd (drain_session a ?h))"
    by (simp add: close_connection_def close_session_def assms(3) case_prod_beta)
  show "audit_step ?h (close_connection l key a h)"
    unfolding e by (rule drain_and_log_step [OF w]) (simp add: assms(2))
  have "calls_at (snd (drain_session a ?h)) a = []"
    by (simp add: drain_session_def drain_abandoned_def calls_drain_def set_session_def)
  moreover have "moves {#} (mset (map pc_tool_name (fst (drain_session a ?h)))) (snd (drain_session a ?h)) (close_connection l key a h)"
    unfolding e by (rule log_timeouts_moves [OF moves_wf [OF drain_session_moves [OF w]]]) (simp add: assms(2))
  ultimately show "calls_at (close_connection l key a h) a = []" by (simp add: moves_def)
qed

lemma drain_all_step:
  assumes "http_wf h" and "\<forall>a\<in>set as. a < hp_fresh h"
  shows "audit_step h (fold (drain_and_log l) as h) \<and> (\<forall>a\<in>set as. calls_at (fold (drain_and_log l) as h) a = [])"
  using assms
proof (induction as arbitrary: h)
  case (Cons a as)
  let ?h = "drain_and_log l a h" and ?d = "drain_session a h"
  have e: "?h = log_timeouts l a (fst ?d) (snd ?d)" by (simp add: drain_and_log_def case_prod_beta)
  have s: "audit_step h ?h" unfolding e by (rule drain_and_log_step) (use Cons.prems in auto)
  have "moves {#} (mset (map pc_tool_name (fst ?d))) (snd ?d) ?h"
    unfolding e by (rule log_timeouts_moves [OF moves_wf [OF drain_session_moves]]) (use Cons.prems in auto)
  moreover have "calls_at (snd ?d) a = []"
    by (simp add: drain_session_def drain_abandoned_def calls_drain_def set_session_def)
  ultimately have none: "calls_at ?h a = []" by (simp add: moves_def)
  have "\<forall>b\<in>set as. b < hp_fresh ?h" using Cons.prems moves_less [OF s] by simp
  note ih = Cons.IH [OF moves_wf [OF s] this]
  then have "calls_at (fold (drain_and_log l) as ?h) a = []" using none by (simp add: moves_def)
  with ih audit_step_trans [OF s] show ?case by simp
qed (simp add: moves_refl)

lemma shutdown_drain_effect:
  assumes "http_wf h"
  shows "http_wf (shutdown_drain l h)" and "books (shutdown_drain l h) = books h"
    and "calls_at (shutdown_drain l h) a \<noteq> [] \<Longrightarrow> calls_at h a \<noteq> [] \<and> a \<notin> snd ` set (rg_open h) \<and> a \<notin> snd ` set (rg_endpoints h)"
    and "a < hp_fresh h \<Longrightarrow> s_id (hp_heap (shutdown_drain l h) a) = s_id (hp_heap h a)"
    and "rg_open (shutdown_drain l h) = []" and "rg_next_id (shutdown_drain l h) = rg_next_id h"
    and "hp_fresh h \<le> hp_fresh (shutdown_drain l h)"
proof -
  let ?h = "h\<lparr>rg_open := [], rg_endpoints := []\<rparr>" and ?as = "map snd (rg_open h) @ map snd (rg_endpoints h)"
  have w: "http_wf ?h" using assms by (simp add: http_wf_def)
  have "\<forall>a\<in>set ?as. a < hp_fresh ?h" using assms by (auto simp: http_wf_def)
  note d = drain_all_step [OF w this, of l]
  have e: "shutdown_drain l h = fold (drain_and_log l) ?as ?h" by (simp add: shutdown_drain_def take_all_def)
  have b: "books ?h = books h" by (simp add: books_def pending_names_def)
  show "http_wf (shutdown_drain l h)" "books (shutdown_drain l h) = books h" "rg_open (shutdown_drain l h) = []"
    "rg_next_id (shutdown_drain l h) = rg_next_id h" "hp_fresh h \<le> hp_fresh (shutdown_drain l h)"
    using d b unfolding e by (simp_all add: moves_def)
  show "a < hp_fresh h \<Longrightarrow> s_id (hp_heap (shutdown_drain l h) a) = s_id (hp_heap h a)"
    using d unfolding e by (simp add: moves_def)
  show "calls_at (shutdown_drain l h) a \<noteq> [] \<Longrightarrow> calls_at h a \<noteq> [] \<and> a \<notin> snd ` set (rg_open h) \<and> a \<notin> snd ` set (rg_endpoints h)"
    using d unfolding e by (auto simp: moves_def)
qed

lemma set_remove_at: "set (remove_at i xs) \<subseteq> set xs"
  unfolding remove_at_def using set_take_subset [of i xs] set_drop_subset [of "Suc i" xs] by auto

lemma remove_at_nth: "i < length xs \<Longrightarrow> mset xs = add_mset (xs ! i) (mset (remove_at i xs))"
  unfolding remove_at_def by (metis id_take_nth_drop mset_append mset.simps(2) union_mset_add_mset_right)

text \<open>Requests: where they register, and what they admit.\<close>

lemma proxy_request_admits:
  assumes w: "http_wf h" and c: "conn < hp_fresh h" and r: "proxy_request limited l conn req h = (r, h')"
  obtains a where "admits (mset (admitted l r)) a h h'" and "a = conn \<or> (a < hp_fresh h \<and> legacy_id (hp_heap h a))"
    and "\<And>up x rest. r = Inr (up, x, rest) \<Longrightarrow> x < hp_fresh h"
proof (cases "origin_ok l (rq_headers req) \<and> (\<exists>body. collect_body [] (limited max_request_bytes (rq_frames req)) = Inr body)")
  case False
  then have "h' = h" "admitted l r = []" "\<And>x. r \<noteq> Inr x"
    using r by (auto simp: proxy_request_def admitted_def split: if_splits sum.splits)
  with that [of conn] w show thesis by (simp add: admits_refl)
next
  case True
  then obtain body where ok: "origin_ok l (rq_headers req)" "collect_body [] (limited max_request_bytes (rq_frames req)) = Inr body"
    by blast
  obtain a via where s: "request_session conn (rq_path_and_query req) h = (a, via)" by fastforce
  have a: "a = conn \<or> (a < hp_fresh h \<and> legacy_id (hp_heap h a))"
  proof (cases "a = conn")
    case False
    then obtain k where "map_of (rg_endpoints h) k = Some a"
      using s by (auto simp: request_session_def session_for_endpoint_def split: option.splits)
    then have "(k, a) \<in> set (rg_endpoints h)" by (rule map_of_SomeD)
    with w show ?thesis by (force simp: http_wf_def)
  qed simp
  then have lt: "a < hp_fresh h" using c by auto
  obtain keys h1 where k: "register_if_tool_call l a (rq_method req) body h = (keys, h1)" by fastforce
  have adm: "admits (mset (if rq_method req = ''POST'' then requested l (parse_batch (li_parse_json l) body) else [])) a h h1"
    using register_calls_admits [OF w lt, of l "parse_batch (li_parse_json l) body" "int (length body)"] w k
    by (auto simp: register_if_tool_call_def admits_refl split: if_splits)
  have e: "h' = h1" "mset (admitted l r) = mset (if rq_method req = ''POST'' then requested l (parse_batch (li_parse_json l) body) else [])"
    using r ok s k by (auto simp: proxy_request_def admitted_def)
  have "x = a" if "r = Inr (up, x, rest)" for up x rest
    using that r ok s k by (auto simp: proxy_request_def)
  with that [of a] adm a lt e show thesis by metis
qed

text \<open>A step that moves no address out of the store keeps the addresses of the run valid.\<close>

lemma net_wf_later:
  assumes "net_wf n" and "http_wf h" and "hp_fresh (nt_http n) \<le> hp_fresh h"
  shows "net_wf (n\<lparr>nt_http := h\<rparr>)"
  using assms unfolding net_wf_def body_ok_def tee_ok_def by (fastforce split: option.splits)

lemma net_wf_fields:
  assumes "net_wf n"
  shows "http_wf (nt_http n)" and "c < length (nt_conns n) \<Longrightarrow> snd (nt_conns n ! c) < hp_fresh (nt_http n)"
    and "i < length (nt_waiting n) \<Longrightarrow> fst (snd (nt_waiting n ! i)) < hp_fresh (nt_http n)"
    and "j < length (nt_bodies n) \<Longrightarrow> body_ok (snd (nt_bodies n ! j)) (nt_http n)"
  using assms unfolding net_wf_def by (auto simp: case_prod_beta all_set_conv_all_nth)

lemma net_wf_sub:
  assumes "net_wf n" and "set cs \<subseteq> set (nt_conns n)" and "set ws \<subseteq> set (nt_waiting n)" and "set bs \<subseteq> set (nt_bodies n)"
  shows "net_wf (n\<lparr>nt_conns := cs, nt_waiting := ws, nt_bodies := bs\<rparr>)"
  using assms unfolding net_wf_def by auto

lemma body_ok_new: "a < hp_fresh h \<Longrightarrow> body_ok (snd (proxy_response l a keys legacy resp)) h"
  by (simp add: proxy_response_def new_body_def body_ok_def tee_ok_def Let_def)

lemma net_step_books:
  assumes w: "net_wf n" and s: "net_step limited l n e = (acc, n')"
  shows "net_wf n' \<and> books (nt_http n') = books (nt_http n) + mset acc"
proof (cases e)
  case Accept
  from open_session_effect [OF net_wf_fields(1) [OF w], of l] obtain h' where
    h: "open_session l (nt_http n) = ((rg_next_id (nt_http n), hp_fresh (nt_http n)), h')" "http_wf h'"
      "books h' = books (nt_http n)" "hp_fresh h' = Suc (hp_fresh (nt_http n))" by metis
  have "net_wf (n\<lparr>nt_http := h'\<rparr>)" using h by (intro net_wf_later [OF w]) simp_all
  with h s show ?thesis by (auto simp: Accept net_wf_def)
next
  case (Request c req)
  show ?thesis
  proof (cases "c < length (nt_conns n)")
    case True
    obtain k conn where k: "nt_conns n ! c = (k, conn)" by fastforce
    obtain r h' where r: "proxy_request limited l conn req (nt_http n) = (r, h')" by fastforce
    have conn: "conn < hp_fresh (nt_http n)" using net_wf_fields(2) [OF w True] by (simp add: k)
    from proxy_request_admits [OF net_wf_fields(1) [OF w] conn r] obtain a where
      a: "admits (mset (admitted l r)) a (nt_http n) h'" and x: "\<And>up x rest. r = Inr (up, x, rest) \<Longrightarrow> x < hp_fresh (nt_http n)" by metis
    have "net_wf (n\<lparr>nt_http := h'\<rparr>)" using a by (intro net_wf_later [OF w]) (simp_all add: admits_def)
    with True s x a r k show ?thesis
      by (cases r) (auto simp: Request net_wf_def admits_def)
  qed (use w s Request in simp)
next
  case (UpstreamFailed i)
  have "net_wf (n\<lparr>nt_waiting := remove_at i (nt_waiting n)\<rparr>)"
    using net_wf_sub [OF w, of "nt_conns n" "remove_at i (nt_waiting n)" "nt_bodies n"] by (simp add: set_remove_at)
  with s UpstreamFailed show ?thesis by auto
next
  case (Answer i resp)
  show ?thesis
  proof (cases "i < length (nt_waiting n)")
    case True
    obtain k a keys legacy where k: "nt_waiting n ! i = (k, a, keys, legacy)" by (cases "nt_waiting n ! i") auto
    have "net_wf (n\<lparr>nt_conns := nt_conns n, nt_waiting := remove_at i (nt_waiting n), nt_bodies := nt_bodies n\<rparr>)"
      by (rule net_wf_sub [OF w]) (simp_all add: set_remove_at)
    moreover have "body_ok (snd (proxy_response l a keys legacy resp)) (nt_http n)"
      by (rule body_ok_new) (use net_wf_fields(3) [OF w True] in \<open>simp add: k\<close>)
    ultimately show ?thesis using True s k by (auto simp: Answer net_wf_def)
  qed (use w s Answer in simp)
next
  case (PollBody j ups)
  show ?thesis
  proof (cases "j < length (nt_bodies n)")
    case True
    let ?k = "fst (nt_bodies n ! j)" and ?b = "snd (nt_bodies n ! j)"
    let ?p = "poll_frame l ?b (nt_http n) ups"
    have p: "audit_step (nt_http n) (fst (snd (snd ?p)))" "body_ok (fst (snd ?p)) (fst (snd (snd ?p)))"
      using poll_frame_step [OF net_wf_fields(1) [OF w] net_wf_fields(4) [OF w True]] by simp_all
    have "net_wf (n\<lparr>nt_http := fst (snd (snd ?p))\<rparr>)" using p by (intro net_wf_later [OF w]) (simp_all add: moves_def)
    with p have "net_wf (n\<lparr>nt_http := fst (snd (snd ?p)), nt_bodies := (nt_bodies n)[j := (?k, fst (snd ?p))]\<rparr>)"
      unfolding net_wf_def by (auto dest!: subsetD [OF set_update_subset_insert])
    with True s p show ?thesis by (auto simp: PollBody case_prod_beta moves_def)
  qed (use w s PollBody in simp)
next
  case (DropBody j)
  show ?thesis
  proof (cases "j < length (nt_bodies n)")
    case True
    let ?h = "drop_bodies l [nt_bodies n ! j] (nt_http n)"
    have d: "audit_step (nt_http n) ?h"
      by (rule drop_bodies_step [OF net_wf_fields(1) [OF w]]) (use net_wf_fields(4) [OF w True] in \<open>auto simp: case_prod_beta\<close>)
    have "net_wf (n\<lparr>nt_http := ?h\<rparr>)" using d by (intro net_wf_later [OF w]) (simp_all add: moves_def)
    from net_wf_sub [OF this, of "nt_conns n" "nt_waiting n" "remove_at j (nt_bodies n)"] True s d show ?thesis
      by (auto simp: DropBody set_remove_at moves_def)
  qed (use w s DropBody in simp)
next
  case (Hangup c)
  show ?thesis
  proof (cases "c < length (nt_conns n)")
    case True
    let ?k = "fst (nt_conns n ! c)" and ?a = "snd (nt_conns n ! c)"
    let ?h = "drop_bodies l (filter (\<lambda>b. fst b = ?k) (nt_bodies n)) (nt_http n)"
    let ?h' = "close_connection l ?k ?a ?h"
    have d: "audit_step (nt_http n) ?h"
      by (rule drop_bodies_step [OF net_wf_fields(1) [OF w]]) (use w in \<open>auto simp: net_wf_def\<close>)
    have c: "http_wf ?h' \<and> books ?h' = books ?h \<and> hp_fresh ?h \<le> hp_fresh ?h'"
    proof (cases "map_of (rg_open ?h) ?k")
      case None
      with moves_wf [OF d] show ?thesis by (simp add: close_connection_def close_session_def log_timeouts_def)
    next
      case (Some a)
      then have "(?k, a) \<in> set (rg_open ?h)" by (rule map_of_SomeD)
      then have a: "a < hp_fresh ?h" using moves_wf [OF d] by (force simp: http_wf_def)
      let ?g = "?h\<lparr>rg_open := AList.delete ?k (rg_open ?h)\<rparr>"
      note g = close_connection_effect(2) [OF moves_wf [OF d] a Some]
      have "?h' = log_timeouts l ?a (fst (drain_session a ?g)) (snd (drain_session a ?g))"
        by (simp add: close_connection_def close_session_def Some case_prod_beta)
      moreover have "audit_step ?g (log_timeouts l ?a (fst (drain_session a ?g)) (snd (drain_session a ?g)))"
        by (rule drain_and_log_step [OF g]) (simp add: a)
      ultimately show ?thesis by (simp add: moves_def books_def pending_names_def)
    qed
    have "hp_fresh (nt_http n) \<le> hp_fresh ?h'" using c d by (simp add: moves_def)
    then have "net_wf (n\<lparr>nt_http := ?h'\<rparr>)" using c by (intro net_wf_later [OF w]) simp_all
    from net_wf_sub [OF this, of "remove_at c (nt_conns n)" "filter (\<lambda>w. fst w \<noteq> ?k) (nt_waiting n)" "filter (\<lambda>b. fst b \<noteq> ?k) (nt_bodies n)"]
      True s c d show ?thesis
      by (auto simp: Hangup set_remove_at moves_def case_prod_beta)
  qed (use w s Hangup in simp)
next
  case Stop
  have d: "audit_step (nt_http n) (drop_bodies l (nt_bodies n) (nt_http n))"
    by (rule drop_bodies_step [OF net_wf_fields(1) [OF w]]) (use w in \<open>auto simp: net_wf_def\<close>)
  from shutdown_drain_effect(1,2) [OF moves_wf [OF d], of l] d s show ?thesis
    by (auto simp: Stop net_wf_def moves_def)
qed

lemma net_run_books:
  "net_wf n \<Longrightarrow> net_wf (snd (net_run limited l n es)) \<and>
     books (nt_http (snd (net_run limited l n es))) = books (nt_http n) + mset (fst (net_run limited l n es))"
proof (induction es arbitrary: n)
  case (Cons e es)
  obtain acc n' where s: "net_step limited l n e = (acc, n')" by fastforce
  from net_step_books [OF Cons.prems s] Cons.IH [of n'] show ?case
    by (auto simp: s case_prod_beta ac_simps)
qed simp

section \<open>Connections stay in the registry\<close>

lemma set_update_new: "k \<notin> fst ` set m \<Longrightarrow> set (AList.update k a m) = insert (k, a) (set m)"
  by (induction m) auto

lemma conns_open_same_registry:
  assumes "conns_open n" and "rg_open (nt_http n') = rg_open (nt_http n)" and "rg_next_id (nt_http n') = rg_next_id (nt_http n)"
    and "nt_conns n' = nt_conns n"
  shows "conns_open n'"
  using assms(1) unfolding conns_open_def assms(2-4) .

lemma drainable_admits:
  assumes "admits x a h h'" and "drainable h" and "legacy_id (hp_heap h a) \<or> a \<in> snd ` set (rg_open h)"
  shows "drainable h'"
  using assms unfolding admits_def drainable_def legacy_id_def by metis

lemma hangup_drainable:
  assumes w: "http_wf h" and dr: "drainable h" and d: "distinct (map fst (rg_open h))"
    and a: "a < hp_fresh h" and m: "map_of (rg_open h) key = Some a"
  shows "drainable (close_connection l key a h)"
  unfolding drainable_def
proof (intro allI impI)
  let ?g = "h\<lparr>rg_open := AList.delete key (rg_open h)\<rparr>" and ?h = "close_connection l key a h"
  note c = close_connection_effect(1) [OF w a m, of l] close_connection_effect(3) [OF w a m, of l]
  fix b assume b: "b < hp_fresh ?h"
  show "calls_at ?h b = [] \<or> legacy_id (hp_heap ?h b) \<or> b \<in> snd ` set (rg_open ?h)"
  proof (cases "calls_at ?h b = []")
    case False
    then have "b \<noteq> a" using c(2) by auto
    have nb: "calls_at h b \<noteq> []" using False c(1) by (auto simp: moves_def)
    then have "b < hp_fresh h" using w by (metis http_wfD(2) linorder_not_less)
    with dr nb consider "legacy_id (hp_heap h b)" | "b \<in> snd ` set (rg_open h)" unfolding drainable_def by blast
    then show ?thesis
    proof cases
      case 1
      then show ?thesis using c(1) \<open>b < hp_fresh h\<close> by (simp add: moves_def legacy_id_def)
    next
      case 2
      then obtain k where k: "(k, b) \<in> set (rg_open h)" by auto
      with \<open>b \<noteq> a\<close> m d have "k \<noteq> key" by (metis map_of_is_SomeI option.inject)
      with k have "(k, b) \<in> set (AList.delete key (rg_open h))" by (auto simp: AList.delete_eq)
      then have "b \<in> snd ` set (rg_open ?h)" using c(1) by (force simp: moves_def)
      then show ?thesis by simp
    qed
  qed simp
qed

definition live :: "net \<Rightarrow> bool" where
  "live n \<longleftrightarrow> net_wf n \<and> conns_open n \<and> drainable (nt_http n)"

lemma net_step_live:
  assumes lv: "live n" and bound: "rg_next_id (nt_http n) + 1 < 2 ^ 64" and s: "net_step limited l n e = (acc, n')"
  shows "live n' \<and> rg_next_id (nt_http n') \<le> rg_next_id (nt_http n) + 1"
proof -
  have w: "net_wf n" and co: "conns_open n" and dr: "drainable (nt_http n)" using lv by (simp_all add: live_def)
  note hw = net_wf_fields(1) [OF w]
  have w': "net_wf n'" using net_step_books [OF w s] by simp
  have same: "conns_open n' \<and> drainable (nt_http n') \<and> rg_next_id (nt_http n') \<le> rg_next_id (nt_http n) + 1"
    if "moves t x (nt_http n) h" "nt_http n' = h" "set (nt_conns n') \<subseteq> set (nt_conns n)" "distinct (map fst (nt_conns n'))" for t x h
    using that co moves_drainable [OF that(1) dr hw] by (auto simp: conns_open_def moves_def)
  have d: "distinct (map fst (nt_conns n))" using co by (simp add: conns_open_def)
  have "conns_open n' \<and> drainable (nt_http n') \<and> rg_next_id (nt_http n') \<le> rg_next_id (nt_http n) + 1"
  proof (cases e)
    case Accept
    from open_session_effect [OF hw, of l] obtain h' where
      h: "open_session l (nt_http n) = ((rg_next_id (nt_http n), hp_fresh (nt_http n)), h')"
        "hp_fresh h' = Suc (hp_fresh (nt_http n))" "rg_next_id h' = (rg_next_id (nt_http n) + 1) mod 2 ^ 64"
        "rg_open h' = AList.update (rg_next_id (nt_http n)) (hp_fresh (nt_http n)) (rg_open (nt_http n))"
        "\<And>b. calls_at h' b = calls_at (nt_http n) b"
        "\<And>b. b < hp_fresh (nt_http n) \<Longrightarrow> s_id (hp_heap h' b) = s_id (hp_heap (nt_http n) b)" by metis
    have n: "nt_http n' = h'" "nt_conns n' = nt_conns n @ [(rg_next_id (nt_http n), hp_fresh (nt_http n))]"
      using s h(1) by (auto simp: Accept)
    have new: "rg_next_id (nt_http n) \<notin> fst ` set (rg_open (nt_http n))" using co by (auto simp: conns_open_def)
    have id: "rg_next_id h' = rg_next_id (nt_http n) + 1" using h(3) bound by simp
    have keys: "k < rg_next_id (nt_http n)" if "(k, a) \<in> set (nt_conns n)" for k a
    proof -
      have "map_of (rg_open (nt_http n)) k = Some a" using that co by (auto simp: conns_open_def)
      then have "(k, a) \<in> set (rg_open (nt_http n))" by (rule map_of_SomeD)
      then show ?thesis using co by (force simp: conns_open_def)
    qed
    have "conns_open n'"
      using co new keys unfolding conns_open_def n h(4) id set_update_new [OF new]
      by (force simp: update_conv' distinct_update less_Suc_eq)
    moreover have "drainable h'"
      using dr h(2,5,6) http_wfD(2) [OF hw] unfolding drainable_def h(4) set_update_new [OF new] legacy_id_def
      by (auto simp: less_Suc_eq)
    ultimately show ?thesis using id n by simp
  next
    case (Request c req)
    show ?thesis
    proof (cases "c < length (nt_conns n)")
      case True
      obtain k conn where k: "nt_conns n ! c = (k, conn)" by fastforce
      obtain r h' where r: "proxy_request limited l conn req (nt_http n) = (r, h')" by fastforce
      have conn: "conn < hp_fresh (nt_http n)" using net_wf_fields(2) [OF w True] by (simp add: k)
      from proxy_request_admits [OF hw conn r] obtain a where
        a: "admits (mset (admitted l r)) a (nt_http n) h'" "a = conn \<or> a < hp_fresh (nt_http n) \<and> legacy_id (hp_heap (nt_http n) a)"
        by metis
      have "(k, conn) \<in> set (nt_conns n)" using True k by (metis nth_mem)
      then have "map_of (rg_open (nt_http n)) k = Some conn" using co by (auto simp: conns_open_def)
      then have "conn \<in> snd ` set (rg_open (nt_http n))" by (force dest: map_of_SomeD)
      then have "drainable h'" using drainable_admits [OF a(1) dr] a(2) by auto
      moreover have n: "nt_http n' = h'" "nt_conns n' = nt_conns n" using s k r True by (auto simp: Request)
      moreover have "conns_open n'" using a(1) n by (intro conns_open_same_registry [OF co]) (simp_all add: admits_def)
      ultimately show ?thesis using a(1) by (simp add: admits_def)
    qed (use s co dr Request in simp)
  next
    case (UpstreamFailed i)
    then have n: "nt_http n' = nt_http n" "nt_conns n' = nt_conns n" using s by auto
    then have "conns_open n'" by (intro conns_open_same_registry [OF co]) simp_all
    with n dr show ?thesis by simp
  next
    case (Answer i resp)
    then have n: "nt_http n' = nt_http n" "nt_conns n' = nt_conns n" using s by (auto split: if_splits prod.splits)
    then have "conns_open n'" by (intro conns_open_same_registry [OF co]) simp_all
    with n dr show ?thesis by simp
  next
    case (PollBody j ups)
    show ?thesis
    proof (cases "j < length (nt_bodies n)")
      case True
      let ?p = "poll_frame l (snd (nt_bodies n ! j)) (nt_http n) ups"
      have "audit_step (nt_http n) (fst (snd (snd ?p)))"
        using poll_frame_step [OF hw net_wf_fields(4) [OF w True]] by simp
      then show ?thesis by (rule same) (use True s d in \<open>auto simp: PollBody case_prod_beta\<close>)
    qed (use s co dr PollBody in simp)
  next
    case (DropBody j)
    show ?thesis
    proof (cases "j < length (nt_bodies n)")
      case True
      have "audit_step (nt_http n) (drop_bodies l [nt_bodies n ! j] (nt_http n))"
        by (rule drop_bodies_step [OF hw]) (use net_wf_fields(4) [OF w True] in \<open>auto simp: case_prod_beta\<close>)
      then show ?thesis by (rule same) (use True s d in \<open>auto simp: DropBody\<close>)
    qed (use s co dr DropBody in simp)
  next
    case (Hangup c)
    show ?thesis
    proof (cases "c < length (nt_conns n)")
      case True
      obtain k a where k: "nt_conns n ! c = (k, a)" by fastforce
      let ?h = "drop_bodies l (filter (\<lambda>b. fst b = k) (nt_bodies n)) (nt_http n)"
      have st: "audit_step (nt_http n) ?h"
        by (rule drop_bodies_step [OF hw]) (use w in \<open>auto simp: net_wf_def\<close>)
      have open_eq: "rg_open ?h = rg_open (nt_http n)" "rg_next_id ?h = rg_next_id (nt_http n)" using st by (simp_all add: moves_def)
      have "(k, a) \<in> set (nt_conns n)" using True k by (metis nth_mem)
      then have m: "map_of (rg_open ?h) k = Some a" using co open_eq by (auto simp: conns_open_def)
      have a: "a < hp_fresh ?h" using net_wf_fields(2) [OF w True] moves_less [OF st] by (simp add: k)
      have dd: "distinct (map fst (rg_open ?h))" using co open_eq by (simp add: conns_open_def)
      let ?g = "close_connection l k a ?h"
      have dr': "drainable ?g"
        by (rule hangup_drainable [OF moves_wf [OF st] moves_drainable [OF st dr hw] dd a m])
      have reg: "rg_open ?g = AList.delete k (rg_open (nt_http n))" "rg_next_id ?g = rg_next_id (nt_http n)"
        using close_connection_effect(1) [OF moves_wf [OF st] a m, of l] open_eq by (simp_all add: moves_def)
      have split: "mset (nt_conns n) = add_mset (k, a) (mset (remove_at c (nt_conns n)))"
        using remove_at_nth [OF True] by (simp add: k)
      then have "mset (map fst (nt_conns n)) = add_mset k (mset (map fst (remove_at c (nt_conns n))))" by simp
      with d have dk: "distinct (map fst (remove_at c (nt_conns n)))" "k \<notin> fst ` set (remove_at c (nt_conns n))"
        by (metis distinct.simps(2) mset.simps(2) mset_eq_imp_distinct_iff, metis distinct.simps(2) mset.simps(2) mset_eq_imp_distinct_iff set_map)
      have n: "nt_conns n' = remove_at c (nt_conns n)" "nt_http n' = ?g" using s True by (auto simp: Hangup k)
      have "map_of (rg_open ?g) k' = Some a'" if "(k', a') \<in> set (remove_at c (nt_conns n))" for k' a'
      proof -
        have "k' \<noteq> k" using dk(2) that by force
        moreover have "(k', a') \<in> set (nt_conns n)" using that set_remove_at by fast
        ultimately show ?thesis using co reg by (auto simp: conns_open_def)
      qed
      moreover have "\<forall>k'\<in>fst ` set (rg_open ?g). k' < rg_next_id ?g" "distinct (map fst (rg_open ?g))"
        using co unfolding reg conns_open_def by (auto simp: AList.delete_eq distinct_map_filter)
      ultimately have "conns_open n'" unfolding conns_open_def n using dk by auto
      with dr' n reg show ?thesis by simp
    qed (use s co dr Hangup in simp)
  next
    case Stop
    let ?h = "drop_bodies l (nt_bodies n) (nt_http n)"
    have st: "audit_step (nt_http n) ?h" by (rule drop_bodies_step [OF hw]) (use w in \<open>auto simp: net_wf_def\<close>)
    note sd = shutdown_drain_effect [OF moves_wf [OF st], where l = l]
    note drh = moves_drainable [OF st dr hw]
    have "drainable (shutdown_drain l ?h)"
      unfolding drainable_def
    proof (intro allI impI)
      fix a
      show "calls_at (shutdown_drain l ?h) a = [] \<or> legacy_id (hp_heap (shutdown_drain l ?h) a) \<or> a \<in> snd ` set (rg_open (shutdown_drain l ?h))"
        using sd(3) [of a] sd(4) [of a] drh http_wfD(2) [OF moves_wf [OF st], of a]
        unfolding drainable_def legacy_id_def by (metis linorder_not_less)
    qed
    then show ?thesis using s sd(5,6) st by (auto simp: Stop conns_open_def moves_def)
  qed
  with w' show ?thesis by (simp add: live_def)
qed

lemma net_run_live:
  "live n \<Longrightarrow> rg_next_id (nt_http n) + length es < 2 ^ 64 \<Longrightarrow> live (snd (net_run limited l n es))"
proof (induction es arbitrary: n)
  case (Cons e es)
  obtain acc n' where s: "net_step limited l n e = (acc, n')" by fastforce
  have "rg_next_id (nt_http n) + 1 < 2 ^ 64" using Cons.prems(2) by (cases es) auto
  from net_step_live [OF Cons.prems(1) this s] Cons.prems(2) Cons.IH [of n'] show ?case
    by (simp add: s case_prod_beta)
qed simp

end
