(* ===== verification/HttpProps.thy ===== *)
theory HttpProps
  imports HttpRun
begin

text \<open>
  What the HTTP transport guarantees: every call that was let through is recorded once or still
  pending, the calls of a connection are all recorded by the time the listener has stopped, and the
  client receives what the upstream sent. Two theorems state where the code falls short.
\<close>

section \<open>What the client receives\<close>

lemma poll_frame_rest:
  "length (snd (snd (snd (poll_frame l b h ups)))) \<le> length ups \<and>
   (tb_pending_out b = [] \<longrightarrow> ups \<noteq> [] \<longrightarrow> length (snd (snd (snd (poll_frame l b h ups)))) < length ups)"
proof (induction ups arbitrary: b h)
  case Nil
  show ?case by (cases "tb_pending_out b") simp_all
next
  case (Cons i ups)
  have ih: "length (snd (snd (snd (poll_frame l b h ups)))) \<le> length ups" for b h using Cons.IH by blast
  show ?case
  proof (cases "tb_pending_out b")
    case Nil
    with ih show ?thesis
      by (cases i) (auto simp: Let_def case_prod_beta less_Suc_eq_le le_SucI split: option.split)
  qed simp
qed

lemma poll_frame_progress:
  assumes "poll_frame l b h ups = (p, b', h', ups')" and "p \<noteq> Pending"
  shows "length ups' < length ups \<or> (length ups' = length ups \<and> length (tb_pending_out b') < length (tb_pending_out b))"
proof (cases "tb_pending_out b")
  case Nil
  with assms poll_frame_rest [of l b h ups] show ?thesis by (cases ups) auto
next
  case (Cons x xs)
  with assms show ?thesis by (cases ups) auto
qed

text \<open>The frames a client receives that polls until the body is not ready or has ended.\<close>

function deliver :: "listener \<Rightarrow> tee_body \<Rightarrow> http \<Rightarrow> inner list \<Rightarrow> bytes list" where
  "deliver l b h ups =
     (case poll_frame l b h ups of
        (Frame x, b', h', ups') \<Rightarrow> x # deliver l b' h' ups'
      | (FrameTrailers, b', h', ups') \<Rightarrow> deliver l b' h' ups'
      | (_, b', h', ups') \<Rightarrow> [])"
  by pat_completeness auto

termination
  by (relation "measures [\<lambda>(l, b, h, ups). length ups, \<lambda>(l, b, h, ups). length (tb_pending_out b)]")
    (auto dest!: poll_frame_progress [OF sym])

declare deliver.simps [simp del]

lemma deliver_ready: "tb_pending_out b = x # xs \<Longrightarrow> deliver l b h ups = x # deliver l (b\<lparr>tb_pending_out := xs\<rparr>) h ups"
  by (subst deliver.simps) (cases ups; simp)

lemma deliver_pending: "deliver l (b\<lparr>tb_pending_out := xs\<rparr>) h ups = xs @ deliver l (b\<lparr>tb_pending_out := []\<rparr>) h ups"
  by (induction xs) (simp_all add: deliver_ready)

lemma deliver_data:
  assumes "tb_pending_out b = []" and "tb_tee b = Some t"
  shows "observe l t c h = (None, t', h') \<Longrightarrow> deliver l b h (Data c # ups) = c # deliver l (b\<lparr>tb_tee := Some t'\<rparr>) h' ups"
    and "observe l t c h = (Some evs, t', h') \<Longrightarrow>
      deliver l b h (Data c # ups) = evs @ deliver l (b\<lparr>tb_tee := Some t', tb_pending_out := []\<rparr>) h' ups"
proof -
  assume "observe l t c h = (None, t', h')"
  with assms show "deliver l b h (Data c # ups) = c # deliver l (b\<lparr>tb_tee := Some t'\<rparr>) h' ups"
    by (subst deliver.simps) simp
next
  let ?b = "b\<lparr>tb_tee := Some t'\<rparr>"
  assume "observe l t c h = (Some evs, t', h')"
  with assms have "poll_frame l b h (Data c # ups) = poll_frame l (?b\<lparr>tb_pending_out := evs\<rparr>) h' ups" by simp
  then have "deliver l b h (Data c # ups) = deliver l (?b\<lparr>tb_pending_out := evs\<rparr>) h' ups"
    by (simp only: deliver.simps [of l b] deliver.simps [of l "?b\<lparr>tb_pending_out := evs\<rparr>"])
  then show "deliver l b h (Data c # ups) = evs @ deliver l (b\<lparr>tb_tee := Some t', tb_pending_out := []\<rparr>) h' ups"
    using deliver_pending [where b = ?b and xs = evs] by simp
qed

lemma deliver_end:
  assumes "tb_pending_out b = []" and "tb_tee b = Some t"
  shows "concat (deliver l b h [EndOfBody]) = fst (tee_remainder t)"
proof (cases "fst (tee_remainder t) = []")
  case True
  with assms show ?thesis by (subst deliver.simps) (simp add: case_prod_beta Let_def)
next
  case False
  let ?b = "b\<lparr>tb_tee := None, tb_pending_out := [fst (tee_remainder t)]\<rparr>"
  have "poll_frame l b h [EndOfBody] = poll_frame l ?b (finish l (snd (tee_remainder t)) h) []"
    using assms False by (simp add: case_prod_beta Let_def)
  then have "deliver l b h [EndOfBody] = deliver l ?b (finish l (snd (tee_remainder t)) h) []"
    by (simp only: deliver.simps [of l b] deliver.simps [of l ?b])
  also have "\<dots> = [fst (tee_remainder t)]"
    by (subst deliver.simps, simp, subst deliver.simps, simp)
  finally show ?thesis by simp
qed

definition not_endpoint :: "sse_event \<Rightarrow> bool" where
  "not_endpoint ev \<longleftrightarrow> ev_name ev \<noteq> Some ''endpoint'' \<or> ev_data ev = None"

lemma handle_events_raw:
  "list_all not_endpoint evs \<Longrightarrow> fst (handle_events l t evs h) = map ev_raw evs \<and> fst (snd (handle_events l t evs h)) = t"
  by (induction evs arbitrary: h) (auto simp: case_prod_beta handle_event_def not_endpoint_def split: option.splits)

lemma deliver_whole:
  assumes "tb_pending_out b = []" and "tb_tee b = Some t" and "te_mode t = Whole cap tr"
  shows "deliver l b h (map Data cs @ [EndOfBody]) = cs"
  using assms
proof (induction cs arbitrary: b t cap tr h)
  case Nil
  then show ?case by (subst list.map, subst append_Nil, subst deliver.simps) (simp add: tee_remainder_def Let_def)
next
  case (Cons c cs)
  define t' where "t' = fst (snd (observe l t c h))"
  have o: "observe l t c h = (None, t', h)" using Cons.prems(3) by (simp add: observe_def Let_def t'_def)
  obtain cap' tr' where m: "te_mode t' = Whole cap' tr'"
    using Cons.prems(3) by (cases "max_capture_bytes - length cap = 0"; cases "max_capture_bytes - length cap < length c")
      (simp_all add: observe_def Let_def t'_def)
  have "deliver l (b\<lparr>tb_tee := Some t'\<rparr>) h (map Data cs @ [EndOfBody]) = cs"
    by (rule Cons.IH [OF _ _ m]) (simp_all add: Cons.prems)
  then show ?case using deliver_data(1) [OF Cons.prems(1,2) o] by simp
qed

lemma deliver_events:
  assumes "tb_pending_out b = []" and "tb_tee b = Some t" and "te_mode t = Events p"
    and "list_all not_endpoint (fst (feed_all p cs))"
  shows "concat (deliver l b h (map Data cs @ [EndOfBody])) =
    concat (map ev_raw (fst (feed_all p cs))) @ sp_buf (snd (feed_all p cs))"
  using assms
proof (induction cs arbitrary: b t p h)
  case Nil
  then show ?case using deliver_end [OF Nil.prems(1,2)] by (simp add: tee_remainder_def take_remainder_def)
next
  case (Cons c cs)
  let ?evs = "fst (feed p c)" and ?p = "snd (feed p c)"
  let ?t = "t\<lparr>te_bytes_out := te_bytes_out t + int (length c), te_mode := Events ?p\<rparr>"
  have ne: "list_all not_endpoint ?evs" "list_all not_endpoint (fst (feed_all ?p cs))"
    using Cons.prems(4) by (simp_all add: case_prod_beta Let_def)
  obtain h' where o: "observe l t c h = (Some (map ev_raw ?evs), ?t, h')"
    using Cons.prems(3) handle_events_raw [OF ne(1), of l ?t h]
    by (cases "handle_events l ?t ?evs h") (auto simp: observe_def Let_def case_prod_beta)
  have "concat (deliver l (b\<lparr>tb_tee := Some ?t, tb_pending_out := []\<rparr>) h' (map Data cs @ [EndOfBody])) =
      concat (map ev_raw (fst (feed_all ?p cs))) @ sp_buf (snd (feed_all ?p cs))"
    by (rule Cons.IH [where t = ?t, OF _ _ _ ne(2)]) simp_all
  then show ?case using deliver_data(2) [OF Cons.prems(1,2) o] by (simp add: case_prod_beta Let_def)
qed

section \<open>A listener for the witnesses\<close>

definition sample_listener :: listener where
  "sample_listener =
     \<lparr>li_server_name = ''srv'', li_upstream = \<lparr>u_scheme = Some ''http'', u_authority = Some ''up:1'', u_path_and_query = Some ''/''\<rparr>,
      li_local_addr = ''127.0.0.1:9'', li_allowed_origins = default_allowed_origins,
      li_config = \<lparr>cf_target = \<lparr>tg_command = [], tg_server_name = None\<rparr>, cf_server = [],
        cf_logging = \<lparr>lg_db_path = ''a.db'', lg_default_tier = default_tier, lg_tool_overrides = []\<rparr>,
        cf_key_path = [], cf_heartbeat = default_heartbeat, cf_anchor = default_anchor\<rparr>,
      li_env = \<lparr>ae_scanner = \<lparr>sc_find = (\<lambda>_ _. []), sc_sha256 = id, sc_patterns = [], sc_allowlist = {}\<rparr>,
        ae_show = (\<lambda>_. ''1''), ae_records_json = (\<lambda>_. None), ae_to_vec = (\<lambda>_. None), ae_session_id = [],
        ae_server_name = [], ae_tier = default_tier\<rparr>,
      li_fmt_secs = (\<lambda>_. []), li_reasons_json = (\<lambda>_. None), li_clock = (\<lambda>n. ([], n)), li_uuid = show_nat,
      li_parse_json = (\<lambda>_. None), li_parse_uri = (\<lambda>_. None), li_parse_authority = (\<lambda>_. None), li_from_parts = (\<lambda>_. None),
      li_header_str = Some\<rparr>"

definition sample_call :: pending_call where
  "sample_call = \<lparr>pc_tool_name = ''echo'', pc_args = None, pc_bytes_in = 1, pc_started = 0\<rparr>"

section \<open>Properties\<close>

lemma run_books:
  "mset (map e_tool_name (hp_logged (nt_http (snd (net_run limited l new_net es))))) +
     pending_names (nt_http (snd (net_run limited l new_net es))) = mset (fst (net_run limited l new_net es))"
proof -
  have "net_wf new_net" by (simp add: net_wf_def new_net_def new_http_def http_wf_def session_wf_def new_session_def)
  moreover have "books (nt_http new_net) = {#}" by (simp add: books_def pending_names_def new_net_def new_http_def)
  ultimately show ?thesis using net_run_books [of new_net limited l es] by (simp add: books_def)
qed


lemma live_new_net: "live new_net"
  by (simp add: live_def net_wf_def conns_open_def drainable_def new_net_def new_http_def http_wf_def session_wf_def new_session_def)

lemma net_run_append:
  "net_run limited l n (es @ fs) =
     (fst (net_run limited l n es) @ fst (net_run limited l (snd (net_run limited l n es)) fs),
      snd (net_run limited l (snd (net_run limited l n es)) fs))"
  by (induction es arbitrary: n) (simp_all add: case_prod_beta)

text \<open>
  Stopping a listener records every call of its connections: a call still pending afterwards
  is on a legacy session, and without legacy sessions the rows are exactly the calls that were let
  through (over fewer than \<open>2 ^ 64\<close> events, so that no connection number is used twice).
\<close>

theorem conn_calls_all_recorded:
  assumes "length es < 2 ^ 64 - 1"
  shows "let (names, n) = net_run limited l new_net (es @ [Stop]); h = nt_http n
    in (\<forall>a. calls_at h a \<noteq> [] \<longrightarrow> legacy_id (hp_heap h a)) \<and>
       ((\<forall>a<hp_fresh h. \<not> legacy_id (hp_heap h a)) \<longrightarrow> mset (map e_tool_name (hp_logged h)) = mset names)"
proof -
  let ?r = "net_run limited l new_net (es @ [Stop])"
  let ?h = "nt_http (snd ?r)"
  have "live (snd ?r)"
    by (rule net_run_live [OF live_new_net]) (use assms in \<open>simp add: new_net_def new_http_def\<close>)
  then have w: "http_wf ?h" and d: "drainable ?h" by (simp_all add: live_def net_wf_def)
  have lv: "live (snd (net_run limited l new_net es))"
    by (rule net_run_live [OF live_new_net]) (use assms in \<open>simp add: new_net_def new_http_def\<close>)
  then have "audit_step (nt_http (snd (net_run limited l new_net es)))
      (drop_bodies l (nt_bodies (snd (net_run limited l new_net es))) (nt_http (snd (net_run limited l new_net es))))"
    unfolding live_def net_wf_def by (intro drop_bodies_step) auto
  then have "rg_open ?h = []"
    using shutdown_drain_effect(5) moves_wf by (simp add: net_run_append case_prod_beta) 
  with d http_wfD(2) [OF w] have leg: "calls_at ?h a \<noteq> [] \<Longrightarrow> legacy_id (hp_heap ?h a)" for a
    unfolding drainable_def by (metis empty_iff empty_set image_empty linorder_not_less)
  have "mset (map e_tool_name (hp_logged ?h)) = mset (fst ?r)" if none: "\<forall>a<hp_fresh ?h. \<not> legacy_id (hp_heap ?h a)"
  proof -
    have "pending_names ?h = {#}"
      unfolding pending_names_def by (rule sum.neutral) (use leg none in \<open>auto simp: tool_names_def\<close>)
    with run_books [of limited l "es @ [Stop]"] show ?thesis by simp
  qed
  with leg show ?thesis by (simp add: case_prod_beta Let_def)
qed



lemma heap_log_entry: "b \<noteq> a \<Longrightarrow> hp_heap (log_entry l a c out h) b = hp_heap h b"
  by (simp add: log_entry_def clock_def case_prod_beta Let_def set_session_def)

lemma heap_log_timeouts: "b \<noteq> a \<Longrightarrow> hp_heap (log_timeouts l a cs h) b = hp_heap h b"
  by (induction cs arbitrary: h) (simp_all add: log_timeouts_def log_timeout_def heap_log_entry)

lemma heap_drain_all: "b \<notin> set as \<Longrightarrow> hp_heap (fold (drain_and_log l) as h) b = hp_heap h b"
  by (induction as arbitrary: h) (simp_all add: drain_and_log_def case_prod_beta heap_log_timeouts drain_session_def set_session_def)

text \<open>
  A shortcoming: when a newer stream has bound the same endpoint, the end of the older stream
  and the stop of the listener leave the older session's calls pending for good. No row is ever
  written for them.
\<close>

theorem displaced_stream_calls_lost:
  assumes "te_mode t = Events p" and "te_endpoint_key t = Some key" and "map_of (rg_endpoints h) key = Some newer"
    and "newer \<noteq> te_session t" and "te_session t \<notin> snd ` set (rg_open h) \<union> snd ` set (rg_endpoints h)"
  shows "finish l t h = h \<and> calls_at (shutdown_drain l (finish l t h)) (te_session t) = calls_at h (te_session t)"
proof -
  have f: "finish l t h = h" using assms by (simp add: finish_def release_endpoint_def unbind_endpoint_if_def)
  have "hp_heap (shutdown_drain l h) (te_session t) = hp_heap h (te_session t)"
    unfolding shutdown_drain_def take_all_def using assms(5) by (simp add: heap_drain_all)
  with f show ?thesis by simp
qed

definition displaced_http :: http where
  "displaced_http = new_http\<lparr>hp_heap := (\<lambda>_. new_session ''sse:0'')(0 := snd (register (new_session ''sse:1'') ''7'' sample_call)),
     hp_fresh := 2, rg_endpoints := [(''/m'', 1)]\<rparr>"

definition displaced_tee :: tee where
  "displaced_tee = \<lparr>te_session = 0, te_endpoint_key = Some ''/m'', te_pending_keys = [], te_succeeded = True, te_bytes_out = 0,
     te_mode = Events new_parser\<rparr>"

theorem displaced_stream_calls_lost_witness:
  "finish sample_listener displaced_tee displaced_http = displaced_http \<and>
   calls_at (shutdown_drain sample_listener (finish sample_listener displaced_tee displaced_http)) 0 = [(''7'', sample_call)]"
proof -
  have "calls_at displaced_http (te_session displaced_tee) = [(''7'', sample_call)]"
    by (simp add: displaced_http_def displaced_tee_def new_http_def register_def permit_register_def calls_insert_def
        set_calls_def new_session_def)
  moreover have "te_mode displaced_tee = Events new_parser" "te_endpoint_key displaced_tee = Some ''/m''" "te_session displaced_tee = 0"
    "map_of (rg_endpoints displaced_http) ''/m'' = Some 1"
    "0 \<notin> snd ` set (rg_open displaced_http) \<union> snd ` set (rg_endpoints displaced_http)"
    by (simp_all add: displaced_tee_def displaced_http_def new_http_def)
  ultimately show ?thesis
    using displaced_stream_calls_lost [of displaced_tee new_parser "''/m''" displaced_http 1 sample_listener] by auto
qed

end
