(* ===== verification/ServerProps.thy ===== *)
theory ServerProps
  imports HttpProps
begin

text \<open>
  The request side of the HTTP proxy: which requests are refused, and what is forwarded of the others.
\<close>

fun frame_data :: "body_frame list \<Rightarrow> bytes" where
  "frame_data [] = []"
| "frame_data (FrameData d # fs) = d @ frame_data fs"
| "frame_data (_ # fs) = frame_data fs"

lemma collect_body_result:
  "length acc \<le> max_request_bytes \<Longrightarrow>
   (case collect_body acc fs of
      Inl e \<Rightarrow> refusal_status e \<in> {413, 502} \<and>
        (refusal_status e = 413 \<longrightarrow> max_request_bytes < length acc + length (frame_data fs))
    | Inr body \<Rightarrow> body = acc @ frame_data fs \<and> length body \<le> max_request_bytes \<and> FrameError \<notin> set fs)"
  by (induction acc fs rule: collect_body.induct) (auto split: sum.splits)


text \<open>
  A shortcoming: the size-limiting adapter itself fails a body beyond the limit, so the check
  that answers 413 is never reached and an oversized request is reported as a bad gateway. The
  adapter is only assumed never to pass on more data than its limit.
\<close>

theorem over_limit_never_413:
  assumes "\<And>limit fs. length (frame_data (limited limit fs)) \<le> limit"
  shows "fst (proxy_request limited l conn req h) \<noteq> Inl (Refusal 413 m)"
proof -
  have "collect_body [] (limited max_request_bytes (rq_frames req)) \<noteq> Inl (Refusal 413 m)"
    using collect_body_result [of "[]" "limited max_request_bytes (rq_frames req)"] assms [of max_request_bytes "rq_frames req"]
    by (auto split: sum.splits)
  then show ?thesis by (auto simp: proxy_request_def case_prod_beta split: sum.splits)
qed

text \<open>The adapter as its documentation describes it: the frame that crosses the limit is an error.\<close>

fun limit_frames :: "nat \<Rightarrow> body_frame list \<Rightarrow> body_frame list" where
  "limit_frames remaining [] = []"
| "limit_frames remaining (FrameData d # fs) =
     (if remaining < length d then [FrameError] else FrameData d # limit_frames (remaining - length d) fs)"
| "limit_frames remaining (f # fs) = f # limit_frames remaining fs"

lemma limit_frames_bound: "length (frame_data (limit_frames limit fs)) \<le> limit"
  by (induction limit fs rule: limit_frames.induct) auto

theorem over_limit_never_413_witness:
  "fst (proxy_request limit_frames sample_listener 0
     \<lparr>rq_method = ''POST'', rq_headers = [], rq_path_and_query = None, rq_frames = [FrameData ''{}'', FrameError]\<rparr> new_http)
   \<noteq> Inl (Refusal 413 [])"
  by (rule over_limit_never_413) (rule limit_frames_bound)

text \<open>
  An origin is allowed exactly if it is an allowed one, or an allowed one with a port: a host
  that merely begins like an allowed one is refused.
\<close>

theorem origin_allowed_exact:
  "origin_allowed origin allowed \<longleftrightarrow>
     (\<exists>a\<in>set allowed. origin = a \<or> (\<exists>port. list_all is_digit port \<and> origin = a @ '':'' @ port))"
proof -
  have one: "(starts_with origin a \<and> starts_with (drop (length a) origin) '':'' \<and> list_all is_digit (drop (length a + 1) origin)) \<longleftrightarrow>
      (\<exists>port. list_all is_digit port \<and> origin = a @ '':'' @ port)" (is "?l \<longleftrightarrow> ?r") for a
  proof
    assume l: ?l
    then have "origin = a @ drop (length a) origin" by (metis append_take_drop_id starts_with_def)
    moreover have "drop (length a) origin = '':'' @ drop (length a + 1) origin"
    proof (cases "drop (length a) origin")
      case (Cons c list)
      then have "list = drop (length a + 1) origin" by (metis One_nat_def add.commute drop_Suc list.sel(3) plus_1_eq_Suc tl_drop)
      with l Cons show ?thesis by (simp add: starts_with_def)
    qed (use l in \<open>simp add: starts_with_def\<close>)
    ultimately show ?r using l by metis
  next
    assume ?r
    then show ?l by (auto simp: starts_with_def)
  qed
  show ?thesis unfolding origin_allowed_def one by (simp add: list_ex_iff)
qed

end
