(* ===== verification/Stdio.thy ===== *)
theory Stdio
  imports AuditRow Writer
begin

text \<open>
  \<open>src/proxy.rs\<close>: the stdio transport. One session, two pumps and the shutdown that closes its
  gates in a fixed order.

  A reader hands out the buffers that \<open>fill_buf\<close> returns, an empty one being the end of the input;
  an \<open>Inl\<close> is a read error. What a write to the peer returns is an argument.
\<close>

definition max_line_bytes :: nat where "max_line_bytes = 16 * 1024 * 1024"

section \<open>Lines\<close>

datatype client_input = Line bytes | Eof | ReadFailure string | Oversized nat

fun lf_position :: "bytes \<Rightarrow> nat option" where
  "lf_position [] = None"
| "lf_position (c # s) = (if c = CHR 0x0A then Some 0 else map_option Suc (lf_position s))"

text \<open>The loop of \<open>read_client_line\<close>, with the line so far; a partly consumed buffer stays in front.\<close>

fun read_line :: "nat \<Rightarrow> bytes \<Rightarrow> (string + bytes) list \<Rightarrow> client_input \<times> (string + bytes) list" where
  "read_line max_bytes line [] = (if line = [] then Eof else Line line, [])"
| "read_line max_bytes line (Inl e # bufs) = (ReadFailure e, bufs)"
| "read_line max_bytes line (Inr available # bufs) =
     (if available = [] then (if line = [] then Eof else Line line, bufs)
      else
        let newline = lf_position available;
            n = (case newline of None \<Rightarrow> length available | Some i \<Rightarrow> i + 1)
        in if max_bytes < length line + n then (Oversized (length line + n), Inr available # bufs)
           else case newline of
             Some i \<Rightarrow> (Line (line @ take n available), if drop n available = [] then bufs else Inr (drop n available) # bufs)
           | None \<Rightarrow> read_line max_bytes (line @ available) bufs)"

definition read_client_line :: "nat \<Rightarrow> (string + bytes) list \<Rightarrow> client_input \<times> (string + bytes) list" where
  "read_client_line max_bytes bufs = read_line max_bytes [] bufs"

definition strip_trailing_newline :: "bytes \<Rightarrow> bytes" where
  "strip_trailing_newline buf =
     (let b = (if buf \<noteq> [] \<and> last buf = CHR 0x0A then butlast buf else buf)
      in if b \<noteq> [] \<and> last b = CHR 0x0D then butlast b else b)"

definition parse_rpc_messages :: "(bytes \<Rightarrow> json option) \<Rightarrow> bytes \<Rightarrow> rpc_message list" where
  "parse_rpc_messages parse buf =
     (let trimmed = strip_trailing_newline buf in if utf8_valid trimmed then parse_batch parse trimmed else [])"

section \<open>State\<close>

record stdio_env =
  se_server_name :: string
  se_config :: config
  se_env :: audit_env
  se_fmt_secs :: "nat \<Rightarrow> string"
  se_reasons_json :: "reason list \<Rightarrow> string option"
  se_clock :: "nat \<Rightarrow> string \<times> nat"
  se_parse_json :: "bytes \<Rightarrow> json option"

text \<open>
  The session, the clock's readings, the rows handed to the database handle, whether each pump
  still holds its handle, and what was forwarded in each direction.
\<close>

record stdio =
  so_session :: session
  so_ticks :: nat
  so_logged :: "tool_call_entry list"
  so_inbound_db :: bool
  so_outbound_db :: bool
  so_to_target :: "bytes list"
  so_to_client :: "bytes list"

definition new_stdio :: "string \<Rightarrow> stdio" where
  "new_stdio sid = \<lparr>so_session = new_session sid, so_ticks = 0, so_logged = [], so_inbound_db = True, so_outbound_db = True,
     so_to_target = [], so_to_client = []\<rparr>"

definition tick :: "stdio_env \<Rightarrow> stdio \<Rightarrow> (string \<times> nat) \<times> stdio" where
  "tick env s = (se_clock env (so_ticks s), s\<lparr>so_ticks := so_ticks s + 1\<rparr>)"

definition log_completed :: "stdio_env \<Rightarrow> pending_call \<Rightarrow> call_outcome \<Rightarrow> stdio \<Rightarrow> stdio" where
  "log_completed env call outcome s =
     (let configured_tier = tier_for_tool (se_config env) (pc_tool_name call);
          aenv = (se_env env)\<lparr>ae_session_id := s_id (so_session s), ae_server_name := se_server_name env, ae_tier := configured_tier\<rparr>;
          (elapsed_at, s) = tick env s;
          (wall, s) = tick env s;
          (entry, dest, args_fingerprint) =
            build_entry aenv (fst wall) (int ((snd elapsed_at - pc_started call) div 1000000)) call outcome;
          (now, s) = tick env s;
          (entry, session) = attach_anomaly (se_fmt_secs env) (se_reasons_json env) (so_session s) entry dest args_fingerprint (snd now)
      in s\<lparr>so_session := session, so_logged := so_logged s @ [entry]\<rparr>)"

text \<open>A pump logs through its own handle, which the shutdown takes away.\<close>

definition log_if :: "bool \<Rightarrow> stdio_env \<Rightarrow> pending_call \<Rightarrow> call_outcome \<Rightarrow> stdio \<Rightarrow> stdio" where
  "log_if db env call outcome s = (if db then log_completed env call outcome s else s)"

section \<open>Client to target\<close>

text \<open>The section under the input permit: register every call of a line, log those displaced.\<close>

fun register_line :: "stdio_env \<Rightarrow> int \<Rightarrow> rpc_message list \<Rightarrow> stdio \<Rightarrow> stdio" where
  "register_line env n [] s = s"
| "register_line env n (msg # msgs) s =
     (if \<not> is_tool_call_request msg then register_line env n msgs s
      else case (id_key (ae_show (se_env env)) msg, tool_name msg) of
        (Some k, Some tool) \<Rightarrow>
          (let (started, s) = tick env s;
               (displaced, session) = permit_register (so_session s) k
                 \<lparr>pc_tool_name = tool, pc_args = arguments msg, pc_bytes_in = n, pc_started = snd started\<rparr>;
               s = s\<lparr>so_session := session\<rparr>
           in register_line env n msgs
                (case displaced of Some stale \<Rightarrow> log_if (so_inbound_db s) env stale timed_out s | None \<Rightarrow> s))
      | _ \<Rightarrow> register_line env n msgs s)"

datatype write_result = Written | WriteFailed string | FlushFailed string

datatype inbound_exit =
    ClientEof
  | ClientReadFailure string
  | TargetWriteFailure string
  | TargetFlushFailure string
  | ProtocolSizeRefusal nat
  | PumpTaskFailure string
  | ShutdownRequested

text \<open>One line: refused once the gate is closed; otherwise registered, then forwarded.\<close>

definition client_line :: "stdio_env \<Rightarrow> bytes \<Rightarrow> write_result \<Rightarrow> stdio \<Rightarrow> inbound_exit option \<times> stdio" where
  "client_line env buf w s =
     (if \<not> begin_input (so_session s) then (Some ShutdownRequested, s)
      else
        let s = register_line env (int (length buf)) (parse_rpc_messages (se_parse_json env) buf) s
        in case w of
          WriteFailed e \<Rightarrow> (Some (TargetWriteFailure e), s)
        | FlushFailed e \<Rightarrow> (Some (TargetFlushFailure e), s\<lparr>so_to_target := so_to_target s @ [buf]\<rparr>)
        | Written \<Rightarrow> (None, s\<lparr>so_to_target := so_to_target s @ [buf]\<rparr>))"

text \<open>
  What the pump's select hands out: the stop, which may come at any time, or what the reader thread sent;
  the end of the list is the end of the reader's channel.
\<close>

datatype pump_input = StopSignal | FromReader client_input

fun pump_client_to_child :: "stdio_env \<Rightarrow> (pump_input \<times> write_result) list \<Rightarrow> stdio \<Rightarrow> inbound_exit \<times> stdio" where
  "pump_client_to_child env [] s = (ClientEof, s)"
| "pump_client_to_child env ((StopSignal, w) # is) s = (ShutdownRequested, s)"
| "pump_client_to_child env ((FromReader i, w) # is) s =
     (case i of
        Line buf \<Rightarrow> (case client_line env buf w s of (Some x, s) \<Rightarrow> (x, s) | (None, s) \<Rightarrow> pump_client_to_child env is s)
      | ReadFailure e \<Rightarrow> (ClientReadFailure e, s)
      | Oversized n \<Rightarrow> (ProtocolSizeRefusal n, s)
      | Eof \<Rightarrow> (ClientEof, s))"

section \<open>Target to client\<close>

text \<open>One message: resolved and logged under a response permit of its own.\<close>

definition target_message :: "stdio_env \<Rightarrow> int \<Rightarrow> rpc_message \<Rightarrow> stdio \<Rightarrow> stdio" where
  "target_message env n msg s =
     (case id_key (ae_show (se_env env)) msg of
        None \<Rightarrow> s
      | Some k \<Rightarrow>
          if \<not> begin_response (so_session s) then s
          else case permit_resolve (so_session s) k of
            (None, session) \<Rightarrow> s\<lparr>so_session := session\<rparr>
          | (Some call, session) \<Rightarrow>
              log_if (so_outbound_db s) env call (from_rpc msg n) (s\<lparr>so_session := session\<rparr>))"

text \<open>One line as \<open>read_until\<close> returned it; \<open>False\<close> ends the pump.\<close>

definition target_line :: "stdio_env \<Rightarrow> bytes \<Rightarrow> bool \<Rightarrow> stdio \<Rightarrow> bool \<times> stdio" where
  "target_line env buf written s =
     (if buf = [] then (False, s)
      else if max_line_bytes < length buf \<and> last buf \<noteq> CHR 0x0A then (False, s)
      else if \<not> written then (False, s)
      else (True, fold (target_message env (int (length buf))) (parse_rpc_messages (se_parse_json env) buf)
                    (s\<lparr>so_to_client := so_to_client s @ [buf]\<rparr>)))"

fun pump_child_to_client :: "stdio_env \<Rightarrow> (bytes \<times> bool) list \<Rightarrow> stdio \<Rightarrow> stdio" where
  "pump_child_to_client env [] s = s"
| "pump_child_to_client env ((buf, written) # ls) s =
     (case target_line env buf written s of (False, s) \<Rightarrow> s | (True, s) \<Rightarrow> pump_child_to_client env ls s)"

section \<open>Shutdown\<close>

text \<open>The steps of \<open>run\<close> once it stops, in order; both pumps may still run between them.\<close>

definition take_inbound_db :: "stdio \<Rightarrow> stdio" where
  "take_inbound_db s = s\<lparr>so_inbound_db := False\<rparr>"

definition take_outbound_db :: "stdio \<Rightarrow> stdio" where
  "take_outbound_db s = s\<lparr>so_outbound_db := False\<rparr>"

definition stop_input :: "stdio \<Rightarrow> stdio" where
  "stop_input s = s\<lparr>so_session := stop_accepting (so_session s)\<rparr>"

definition stop_output :: "stdio \<Rightarrow> stdio" where
  "stop_output s = s\<lparr>so_session := stop_responses (so_session s)\<rparr>"

definition drain_stdio :: "stdio_env \<Rightarrow> stdio \<Rightarrow> stdio" where
  "drain_stdio env s =
     (let (abandoned, session) = drain_abandoned (so_session s)
      in fold (\<lambda>call s. log_completed env call timed_out s) abandoned (s\<lparr>so_session := session\<rparr>))"

definition shutdown_steps :: "stdio_env \<Rightarrow> (stdio \<Rightarrow> stdio) list" where
  "shutdown_steps env = [stop_input, take_inbound_db, stop_output, take_outbound_db, drain_stdio env]"

definition drain_result :: "drain_outcome \<Rightarrow> unit result" where
  "drain_result d =
     (case d of
        Drained n \<Rightarrow>
          if n = 0 then Inr ()
          else Inl (Invalid (''audit log incomplete: '' @ show_nat n @ '' tool call(s) were not recorded''))
      | TimedOut n \<Rightarrow>
          Inl (Invalid (''audit log incomplete: the writer did not finish'' @
            (if 0 < n then '', on top of '' @ show_nat n @ '' already dropped'' else []))))"

end
