(* ===== verification/StdioProps.thy ===== *)
theory StdioProps
  imports Stdio CallBooks
begin

text \<open>
  What the stdio transport guarantees: a line is exactly the bytes up to its line feed and never
  longer than the cap, and whatever the interleaving of the two pumps with the shutdown, every call
  of an accepted line has one row in the end.
\<close>

section \<open>Lines\<close>

fun input_bytes :: "(string + bytes) list \<Rightarrow> bytes" where
  "input_bytes [] = []"
| "input_bytes (Inl e # bufs) = input_bytes bufs"
| "input_bytes (Inr b # bufs) = b @ input_bytes bufs"

lemma lf_position_None: "lf_position s = None \<longleftrightarrow> CHR 0x0A \<notin> set s"
  by (induction s) auto

lemma lf_position_Some:
  "lf_position s = Some i \<Longrightarrow> i < length s \<and> s ! i = CHR 0x0A \<and> CHR 0x0A \<notin> set (take i s)"
proof (induction s arbitrary: i)
  case (Cons c s)
  then show ?case by (cases i) (auto split: if_splits)
qed simp

text \<open>Up to the line feed inclusive, the text ends in it and holds no other.\<close>

lemma take_line: "lf_position s = Some i \<Longrightarrow> butlast (take (Suc i) s) = take i s \<and> last (take (Suc i) s) = CHR 0x0A"
  using lf_position_Some [of s i] by (auto simp: take_Suc_conv_app_nth)

lemma read_line_result:
  "CHR 0x0A \<notin> set line \<Longrightarrow> length line \<le> m \<Longrightarrow> read_line m line bufs = (Line buf, rest) \<Longrightarrow>
     buf @ input_bytes rest = line @ input_bytes bufs \<and> buf \<noteq> [] \<and> length buf \<le> m \<and> CHR 0x0A \<notin> set (butlast buf)"
proof (induction m line bufs arbitrary: buf rest rule: read_line.induct)
  case (1 m line)
  then show ?case by (auto split: if_splits dest: in_set_butlastD)
next
  case (2 m line e bufs)
  then show ?case by simp
next
  case (3 m line av bufs)
  show ?case
  proof (cases "av = []")
    case True
    with 3(2-) show ?thesis by (auto split: if_splits dest: in_set_butlastD)
  next
    case nonempty: False
    show ?thesis
    proof (cases "lf_position av")
      case None
      with 3 nonempty show ?thesis by (auto simp: Let_def lf_position_None split: if_splits)
    next
      case (Some i)
      have split: "take (Suc i) av @ drop (Suc i) av @ z = av @ z" for z
        by (simp add: append_assoc [symmetric] del: append_assoc)
      from 3(2-) nonempty Some have b: "buf = line @ take (Suc i) av" "length line + Suc i \<le> m"
        and r: "rest = (if drop (Suc i) av = [] then bufs else Inr (drop (Suc i) av) # bufs)"
        by (auto simp: Let_def split: if_splits)
      have ne: "take (Suc i) av \<noteq> []" using nonempty by simp
      have "CHR 0x0A \<notin> set (butlast buf)"
        using take_line [OF Some] lf_position_Some [OF Some] 3(2) b ne by (simp add: butlast_append)
      moreover have "buf @ input_bytes rest = line @ av @ input_bytes bufs"
        using split [of "input_bytes bufs"] by (simp add: b r)
      ultimately show ?thesis using b ne by simp
    qed
  qed
qed

text \<open>
  A line handed to the pump is exactly the next bytes of the input, whatever the buffers it came
  in: no byte is dropped or altered, it holds no line feed but possibly its last byte, and it is
  never longer than the cap.
\<close>

theorem client_line_exact:
  assumes "read_client_line m bufs = (Line buf, rest)"
  shows "buf @ input_bytes rest = input_bytes bufs \<and> buf \<noteq> [] \<and> length buf \<le> m \<and> CHR 0x0A \<notin> set (butlast buf)"
  using read_line_result [of "[]" m bufs buf rest] assms by (simp add: read_client_line_def)

theorem client_line_exact_witness:
  "(''ab'' @ [CHR 0x0A]) @ input_bytes [Inr ''c''] = input_bytes [Inr ''a'', Inr (''b'' @ [CHR 0x0A] @ ''c'')] \<and>
   ''ab'' @ [CHR 0x0A] \<noteq> [] \<and> length (''ab'' @ [CHR 0x0A]) \<le> 10 \<and> CHR 0x0A \<notin> set (butlast (''ab'' @ [CHR 0x0A]))"
  by (rule client_line_exact) (simp add: read_client_line_def)

section \<open>The life of a stdio session\<close>

datatype stdio_event =
    ClientLine bytes write_result
  | TargetMessage int rpc_message
  | StopInput
  | TakeInbound
  | StopOutput
  | TakeOutbound
  | DrainPending

fun pump_event :: "stdio_event \<Rightarrow> bool" where
  "pump_event (ClientLine buf w) = True"
| "pump_event (TargetMessage n msg) = True"
| "pump_event _ = False"

definition line_calls :: "stdio_env \<Rightarrow> bytes \<Rightarrow> string list" where
  "line_calls env buf = requested_names (ae_show (se_env env)) (parse_rpc_messages (se_parse_json env) buf)"

text \<open>A step gives the calls it lets in, by tool name.\<close>

fun stdio_step :: "stdio_env \<Rightarrow> stdio \<Rightarrow> stdio_event \<Rightarrow> string list \<times> stdio" where
  "stdio_step env s (ClientLine buf w) =
     (if begin_input (so_session s) then line_calls env buf else [], snd (client_line env buf w s))"
| "stdio_step env s (TargetMessage n msg) = ([], target_message env n msg s)"
| "stdio_step env s StopInput = ([], stop_input s)"
| "stdio_step env s TakeInbound = ([], take_inbound_db s)"
| "stdio_step env s StopOutput = ([], stop_output s)"
| "stdio_step env s TakeOutbound = ([], take_outbound_db s)"
| "stdio_step env s DrainPending = ([], drain_stdio env s)"

fun stdio_run :: "stdio_env \<Rightarrow> stdio \<Rightarrow> stdio_event list \<Rightarrow> string list \<times> stdio" where
  "stdio_run env s [] = ([], s)"
| "stdio_run env s (e # es) = (let (acc, s) = stdio_step env s e; (accs, s) = stdio_run env s es in (acc @ accs, s))"

abbreviation stdio_calls :: "stdio \<Rightarrow> calls" where
  "stdio_calls s \<equiv> pending_of (so_session s)"

definition stdio_books :: "stdio \<Rightarrow> string multiset" where
  "stdio_books s = mset (map e_tool_name (so_logged s)) + tool_names (stdio_calls s)"

text \<open>While a gate is open, the pump behind it holds its handle.\<close>

definition stdio_wf :: "stdio \<Rightarrow> bool" where
  "stdio_wf s \<longleftrightarrow> distinct (map fst (stdio_calls s)) \<and>
     (ps_accepting (s_pending (so_session s)) \<longrightarrow> so_inbound_db s) \<and>
     (ps_accepting_responses (s_pending (so_session s)) \<longrightarrow> so_outbound_db s)"

text \<open>What a pump step never touches: the gates and the handles.\<close>

definition same_gates :: "stdio \<Rightarrow> stdio \<Rightarrow> bool" where
  "same_gates s s' \<longleftrightarrow> ps_accepting (s_pending (so_session s')) = ps_accepting (s_pending (so_session s)) \<and>
     ps_accepting_responses (s_pending (so_session s')) = ps_accepting_responses (s_pending (so_session s)) \<and>
     so_inbound_db s' = so_inbound_db s \<and> so_outbound_db s' = so_outbound_db s"

lemma log_completed_simps [simp]:
  "s_pending (so_session (log_completed env c out s)) = s_pending (so_session s)"
  "so_inbound_db (log_completed env c out s) = so_inbound_db s" "so_outbound_db (log_completed env c out s) = so_outbound_db s"
  "so_to_target (log_completed env c out s) = so_to_target s" "so_to_client (log_completed env c out s) = so_to_client s"
  "map e_tool_name (so_logged (log_completed env c out s)) = map e_tool_name (so_logged s) @ [pc_tool_name c]"
  by (simp_all add: log_completed_def tick_def case_prod_beta Let_def)

lemma stdio_books_log [simp]: "stdio_books (log_completed env c out s) = add_mset (pc_tool_name c) (stdio_books s)"
  by (simp add: stdio_books_def del: map_map)

lemma tick_simps [simp]:
  "so_session (snd (tick env s)) = so_session s" "so_logged (snd (tick env s)) = so_logged s"
  "so_inbound_db (snd (tick env s)) = so_inbound_db s" "so_outbound_db (snd (tick env s)) = so_outbound_db s"
  "so_to_target (snd (tick env s)) = so_to_target s"
  by (simp_all add: tick_def)

text \<open>A pump step that lets in the calls \<open>x\<close>.\<close>

definition pumps :: "string multiset \<Rightarrow> stdio \<Rightarrow> stdio \<Rightarrow> bool" where
  "pumps x s s' \<longleftrightarrow> stdio_wf s' \<and> same_gates s s' \<and> stdio_books s' = stdio_books s + x"

lemma pumps_refl: "stdio_wf s \<Longrightarrow> pumps {#} s s"
  by (simp add: pumps_def same_gates_def)

lemma pumps_trans: "pumps x s s' \<Longrightarrow> pumps y s' s'' \<Longrightarrow> pumps (x + y) s s''"
  by (auto simp: pumps_def same_gates_def)

lemma pumps_log:
  "pumps x s s' \<Longrightarrow> pumps (add_mset (pc_tool_name c) x) s (log_completed env c out s')"
  by (auto simp: pumps_def same_gates_def stdio_wf_def)

text \<open>Registering one call on the session, and logging the one it displaces.\<close>

lemma register_one_pumps:
  assumes wf: "stdio_wf s" and db: "so_inbound_db s"
    and r: "permit_register (so_session s) k c = (displaced, session)"
  shows "pumps {#pc_tool_name c#} s
    (case displaced of Some stale \<Rightarrow> log_if (so_inbound_db (s\<lparr>so_session := session\<rparr>)) env stale timed_out (s\<lparr>so_session := session\<rparr>)
     | None \<Rightarrow> s\<lparr>so_session := session\<rparr>)"
proof -
  let ?s = "s\<lparr>so_session := session\<rparr>"
  have d: "distinct (map fst (stdio_calls s))" using wf by (simp add: stdio_wf_def)
  have e: "displaced = map_of (stdio_calls s) k" "session = set_calls (so_session s) (AList.update k c (stdio_calls s))"
    using r by (simp_all add: permit_register_def calls_insert_def)
  have w: "stdio_wf ?s" "same_gates s ?s"
    using wf by (simp_all add: stdio_wf_def same_gates_def e distinct_update)
  have "stdio_books ?s + mset (map pc_tool_name (case displaced of None \<Rightarrow> [] | Some d \<Rightarrow> [d])) = stdio_books s + {#pc_tool_name c#}"
    using tool_names_update [OF d, of k c] by (simp add: stdio_books_def e)
  then show ?thesis
    using w db by (auto simp: pumps_def log_if_def same_gates_def stdio_wf_def split: option.split)
qed

lemma stdio_wf_tick [simp]: "stdio_wf (snd (tick env s)) = stdio_wf s" "stdio_books (snd (tick env s)) = stdio_books s"
  by (simp_all add: stdio_wf_def stdio_books_def)

lemma pumps_tick [simp]: "pumps x (snd (tick env s)) s' = pumps x s s'"
  by (simp add: pumps_def same_gates_def)

lemma register_line_pumps:
  "stdio_wf s \<Longrightarrow> so_inbound_db s \<Longrightarrow> pumps (mset (requested_names (ae_show (se_env env)) msgs)) s (register_line env n msgs s)"
proof (induction msgs arbitrary: s)
  case (Cons msg msgs)
  show ?case
  proof (cases "\<exists>k tool. is_tool_call_request msg \<and> id_key (ae_show (se_env env)) msg = Some k \<and> tool_name msg = Some tool")
    case False
    with Cons show ?thesis by (auto split: option.split)
  next
    case True
    then obtain k tool where req: "is_tool_call_request msg" "id_key (ae_show (se_env env)) msg = Some k" "tool_name msg = Some tool" by blast
    let ?s = "snd (tick env s)"
    let ?c = "\<lparr>pc_tool_name = tool, pc_args = arguments msg, pc_bytes_in = n, pc_started = snd (fst (tick env s))\<rparr>"
    obtain displaced session where r: "permit_register (so_session ?s) k ?c = (displaced, session)" by fastforce
    let ?s1 = "?s\<lparr>so_session := session\<rparr>"
    let ?s2 = "case displaced of Some stale \<Rightarrow> log_if (so_inbound_db ?s1) env stale timed_out ?s1 | None \<Rightarrow> ?s1"
    have st: "pumps {#tool#} s ?s2"
      using register_one_pumps [of ?s k ?c displaced session env] Cons.prems r by simp
    have "stdio_wf ?s2" "so_inbound_db ?s2" using st Cons.prems by (simp_all add: pumps_def same_gates_def)
    from pumps_trans [OF st Cons.IH [OF this]] show ?thesis
      using r by (cases displaced) (simp_all add: req case_prod_beta Let_def)
  qed
qed (simp add: pumps_refl)

lemma target_message_pumps:
  assumes "stdio_wf s"
  shows "pumps {#} s (target_message env n msg s)"
proof (cases "id_key (ae_show (se_env env)) msg")
  case (Some k)
  show ?thesis
  proof (cases "begin_response (so_session s)")
    case True
    have d: "distinct (map fst (stdio_calls s))" and db: "so_outbound_db s"
      using assms True by (simp_all add: stdio_wf_def begin_response_def)
    let ?session = "set_calls (so_session s) (AList.delete k (stdio_calls s))"
    let ?s = "s\<lparr>so_session := ?session\<rparr>"
    have e: "permit_resolve (so_session s) k = (map_of (stdio_calls s) k, ?session)"
      by (simp add: permit_resolve_def calls_remove_def)
    have w: "stdio_wf ?s" "same_gates s ?s"
      using assms by (simp_all add: stdio_wf_def same_gates_def distinct_delete)
    have "stdio_books ?s + mset (map pc_tool_name (case map_of (stdio_calls s) k of None \<Rightarrow> [] | Some d \<Rightarrow> [d])) = stdio_books s"
      using tool_names_delete [OF d, of k] by (simp add: stdio_books_def)
    then show ?thesis
      using w db Some True
      by (auto simp: target_message_def e pumps_def log_if_def same_gates_def stdio_wf_def split: option.split)
  qed (simp add: target_message_def Some pumps_refl assms)
qed (simp add: target_message_def pumps_refl assms)

lemma client_line_pumps:
  assumes "stdio_wf s"
  shows "pumps (mset (if begin_input (so_session s) then line_calls env buf else [])) s (snd (client_line env buf w s))"
proof (cases "begin_input (so_session s)")
  case True
  then have "so_inbound_db s" using assms by (simp add: stdio_wf_def begin_input_def)
  note p = register_line_pumps [OF assms this, of env "parse_rpc_messages (se_parse_json env) buf" "int (length buf)"]
  have "pumps x s (s'\<lparr>so_to_target := t\<rparr>) = pumps x s s'" for x s' t
    by (simp add: pumps_def stdio_wf_def same_gates_def stdio_books_def)
  with p True show ?thesis by (simp add: client_line_def Let_def line_calls_def split: write_result.split)
qed (simp add: client_line_def pumps_refl assms)

lemma pump_run:
  "list_all pump_event es \<Longrightarrow> stdio_wf s \<Longrightarrow> pumps (mset (fst (stdio_run env s es))) s (snd (stdio_run env s es))"
proof (induction es arbitrary: s)
  case (Cons e es)
  let ?s = "snd (stdio_step env s e)"
  have st: "pumps (mset (fst (stdio_step env s e))) s ?s"
    using Cons.prems client_line_pumps [OF Cons.prems(2)] target_message_pumps [OF Cons.prems(2)] by (cases e) simp_all
  then have "stdio_wf ?s" by (simp add: pumps_def)
  then have "pumps (mset (fst (stdio_run env ?s es))) ?s (snd (stdio_run env ?s es))" using Cons by simp
  from pumps_trans [OF st this] show ?case by (simp add: case_prod_beta)
qed (simp add: pumps_refl)

lemma stdio_run_append:
  "stdio_run env s (es @ fs) =
     (fst (stdio_run env s es) @ fst (stdio_run env (snd (stdio_run env s es)) fs), snd (stdio_run env (snd (stdio_run env s es)) fs))"
  by (induction es arbitrary: s) (simp_all add: case_prod_beta)

text \<open>Once both gates are closed, the pumps change nothing.\<close>

lemma closed_pumps:
  "list_all pump_event es \<Longrightarrow> \<not> ps_accepting (s_pending (so_session s)) \<Longrightarrow>
     \<not> ps_accepting_responses (s_pending (so_session s)) \<Longrightarrow> stdio_run env s es = ([], s)"
proof (induction es)
  case (Cons e es)
  then have "stdio_step env s e = ([], s)"
    by (cases e) (simp_all add: begin_input_def client_line_def target_message_def begin_response_def split: option.split)
  with Cons show ?case by simp
qed simp

lemma drain_stdio_effect:
  "stdio_calls (drain_stdio env s) = [] \<and> stdio_books (drain_stdio env s) = stdio_books s \<and>
   s_pending (so_session (drain_stdio env s)) = (s_pending (so_session s))\<lparr>ps_calls := []\<rparr> \<and>
   so_to_target (drain_stdio env s) = so_to_target s"
proof -
  let ?s = "s\<lparr>so_session := set_calls (so_session s) []\<rparr>"
  have f: "stdio_books (fold (\<lambda>c. log_completed env c timed_out) cs s') = stdio_books s' + mset (map pc_tool_name cs) \<and>
      s_pending (so_session (fold (\<lambda>c. log_completed env c timed_out) cs s')) = s_pending (so_session s') \<and>
      so_to_target (fold (\<lambda>c. log_completed env c timed_out) cs s') = so_to_target s'" for cs s'
    by (induction cs arbitrary: s') simp_all
  have "drain_stdio env s = fold (\<lambda>c. log_completed env c timed_out) (map snd (stdio_calls s)) ?s"
    by (simp add: drain_stdio_def drain_abandoned_def calls_drain_def)
  moreover have "stdio_books ?s + mset (map pc_tool_name (map snd (stdio_calls s))) = stdio_books s"
    by (simp add: stdio_books_def tool_names_def comp_def)
  moreover have "s_pending (so_session ?s) = (s_pending (so_session s))\<lparr>ps_calls := []\<rparr>" by (simp add: set_calls_def)
  ultimately show ?thesis using f [of "map snd (stdio_calls s)" ?s] by (simp del: map_map mset_map)
qed

text \<open>What was forwarded to the target was let in.\<close>

abbreviation forwarded_calls :: "stdio_env \<Rightarrow> stdio \<Rightarrow> string multiset" where
  "forwarded_calls env s \<equiv> mset (concat (map (line_calls env) (so_to_target s)))"

lemma register_line_target [simp]: "so_to_target (register_line env n msgs s) = so_to_target s"
proof (induction msgs arbitrary: s)
  case (Cons msg msgs)
  then show ?case by (simp add: case_prod_beta Let_def log_if_def split: option.split)
qed simp

lemma target_message_target [simp]: "so_to_target (target_message env n msg s) = so_to_target s"
  by (simp add: target_message_def log_if_def case_prod_beta split: option.split)

lemma step_forwards:
  "forwarded_calls env (snd (stdio_step env s e)) \<subseteq># forwarded_calls env s + mset (fst (stdio_step env s e))"
proof (cases e)
  case (ClientLine buf w)
  then show ?thesis by (cases w) (simp_all add: client_line_def Let_def)
qed (simp_all add: stop_input_def stop_output_def take_inbound_db_def take_outbound_db_def drain_stdio_effect)

lemma run_forwards:
  "forwarded_calls env (snd (stdio_run env s es)) \<subseteq># forwarded_calls env s + mset (fst (stdio_run env s es))"
proof (induction es arbitrary: s)
  case (Cons e es)
  from subset_mset.order_trans [OF Cons.IH [of "snd (stdio_step env s e)"] subset_mset.add_right_mono [OF step_forwards]]
  show ?case by (simp add: case_prod_beta add.assoc)
qed simp

section \<open>Properties of the session\<close>

text \<open>
  The shutdown loses nothing: with lines and responses arriving at any moment before, between
  and after its five steps, in the end no call is pending, the tools of the rows are, as a
  multiset, the tools of the calls that were let in, and every call of a line that reached the
  target is among them.
\<close>

theorem stdio_every_call_logged:
  assumes "list_all pump_event (a @ b @ c @ d @ e @ f)"
  shows "let (names, s) = stdio_run env (new_stdio sid)
      (a @ [StopInput] @ b @ [TakeInbound] @ c @ [StopOutput] @ d @ [TakeOutbound] @ e @ [DrainPending] @ f)
    in stdio_calls s = [] \<and> mset (map e_tool_name (so_logged s)) = mset names \<and> forwarded_calls env s \<subseteq># mset names"
proof -
  let ?run = "\<lambda>es s. snd (stdio_run env s es)" and ?acc = "\<lambda>es s. mset (fst (stdio_run env s es))"
  have ok: "list_all pump_event a" "list_all pump_event b" "list_all pump_event c" "list_all pump_event d"
    "list_all pump_event e" "list_all pump_event f" using assms by simp_all
  let ?s0 = "new_stdio sid"
  let ?s1 = "?run a ?s0" let ?t1 = "stop_input ?s1"
  let ?s2 = "?run b ?t1" let ?t2 = "take_inbound_db ?s2"
  let ?s3 = "?run c ?t2" let ?t3 = "stop_output ?s3"
  let ?s4 = "?run d ?t3" let ?t4 = "take_outbound_db ?s4"
  let ?s5 = "?run e ?t4" let ?t5 = "drain_stdio env ?s5"
  have "stdio_wf ?s0" by (simp add: stdio_wf_def new_stdio_def new_session_def)
  note p1 = pump_run [OF ok(1) this, of env]
  then have "stdio_wf ?t1" by (simp add: pumps_def stdio_wf_def stop_input_def stop_accepting_def)
  note p2 = pump_run [OF ok(2) this, of env]
  have g2: "\<not> ps_accepting (s_pending (so_session ?s2))"
    using p2 by (simp add: pumps_def same_gates_def stop_input_def stop_accepting_def)
  then have "stdio_wf ?t2" using p2 by (simp add: pumps_def stdio_wf_def take_inbound_db_def)
  note p3 = pump_run [OF ok(3) this, of env]
  have g3: "\<not> ps_accepting (s_pending (so_session ?s3))" using p3 g2 by (simp add: pumps_def same_gates_def take_inbound_db_def)
  have "stdio_wf ?t3" using p3 by (simp add: pumps_def stdio_wf_def stop_output_def stop_responses_def)
  note p4 = pump_run [OF ok(4) this, of env]
  have g4: "\<not> ps_accepting (s_pending (so_session ?s4))" "\<not> ps_accepting_responses (s_pending (so_session ?s4))"
    using p4 g3 by (simp_all add: pumps_def same_gates_def stop_output_def stop_responses_def)
  then have "stdio_wf ?t4" using p4 by (simp add: pumps_def stdio_wf_def take_outbound_db_def)
  note p5 = pump_run [OF ok(5) this, of env]
  have g5: "\<not> ps_accepting (s_pending (so_session ?t5))" "\<not> ps_accepting_responses (s_pending (so_session ?t5))"
    using p5 g4 drain_stdio_effect [of env ?s5] by (simp_all add: pumps_def same_gates_def take_outbound_db_def)
  have f: "stdio_run env ?t5 f = ([], ?t5)" by (rule closed_pumps [OF ok(6) g5])
  have books: "stdio_books ?t1 = stdio_books ?s1" "stdio_books ?t2 = stdio_books ?s2" "stdio_books ?t3 = stdio_books ?s3"
    "stdio_books ?t4 = stdio_books ?s4" "stdio_books ?s0 = {#}"
    by (simp_all add: stdio_books_def stop_input_def stop_accepting_def take_inbound_db_def stop_output_def stop_responses_def
        take_outbound_db_def new_stdio_def new_session_def)
  have "stdio_books ?t5 = ?acc a ?s0 + ?acc b ?t1 + ?acc c ?t2 + ?acc d ?t3 + ?acc e ?t4"
    using p1 p2 p3 p4 p5 books drain_stdio_effect [of env ?s5] by (simp add: pumps_def)
  then have "mset (map e_tool_name (so_logged ?t5)) = ?acc a ?s0 + ?acc b ?t1 + ?acc c ?t2 + ?acc d ?t3 + ?acc e ?t4"
    using drain_stdio_effect [of env ?s5] by (simp add: stdio_books_def del: mset_map)
  moreover note run_forwards [of env ?s0 "a @ [StopInput] @ b @ [TakeInbound] @ c @ [StopOutput] @ d @ [TakeOutbound] @ e @ [DrainPending] @ f"]
  ultimately show ?thesis
    using f drain_stdio_effect [of env ?s5]
    by (simp add: stdio_run_append case_prod_beta add.assoc new_stdio_def del: mset_map)
qed

definition sample_stdio :: stdio_env where
  "sample_stdio =
     \<lparr>se_server_name = ''srv'',
      se_config = \<lparr>cf_target = \<lparr>tg_command = [], tg_server_name = None\<rparr>, cf_server = [],
        cf_logging = \<lparr>lg_db_path = ''a.db'', lg_default_tier = default_tier, lg_tool_overrides = []\<rparr>,
        cf_key_path = [], cf_heartbeat = default_heartbeat, cf_anchor = default_anchor\<rparr>,
      se_env = \<lparr>ae_scanner = \<lparr>sc_find = (\<lambda>_ _. []), sc_sha256 = id, sc_patterns = [], sc_allowlist = {}\<rparr>,
        ae_show = (\<lambda>_. ''1''), ae_records_json = (\<lambda>_. None), ae_to_vec = (\<lambda>_. None), ae_session_id = [],
        ae_server_name = [], ae_tier = default_tier\<rparr>,
      se_fmt_secs = (\<lambda>_. []), se_reasons_json = (\<lambda>_. None), se_clock = (\<lambda>n. ([], n)), se_parse_json = (\<lambda>_. None)\<rparr>"

theorem stdio_every_call_logged_witness:
  "let (names, s) = stdio_run sample_stdio (new_stdio ''s'')
     ([ClientLine ''x'' Written] @ [StopInput] @ [ClientLine ''y'' Written] @ [TakeInbound] @ [] @ [StopOutput] @ [] @ [TakeOutbound] @
      [] @ [DrainPending] @ [])
   in stdio_calls s = [] \<and> mset (map e_tool_name (so_logged s)) = mset names \<and> forwarded_calls sample_stdio s \<subseteq># mset names"
  by (rule stdio_every_call_logged) simp

end
