(* ===== verification/Query.thy ===== *)
theory Query
  imports Store RedactionIndex Utf8
begin

text \<open>
  \<open>src/query.rs\<close>: the filters that \<open>query\<close> and \<open>export\<close> share, and the table \<open>query\<close> prints.
  Parameters: the RFC 3339 parser (an instant as a number), the JSON parsers of the two derived
  columns, the text of a score, and the durations and the clock of \<open>chrono\<close>. Lower-casing is that
  of ASCII, which is all that can match a known status.
\<close>

definition known_statuses :: "string list" where
  "known_statuses = [''success'', ''error'', ''timeout'', ''deferred'']"

definition normalize_status_filter :: "string option \<Rightarrow> string option result" where
  "normalize_status_filter status =
     (case status of
        None \<Rightarrow> Inr None
      | Some raw \<Rightarrow>
          (let s = to_lower (str_trim raw)
           in if s \<notin> set known_statuses then Inl (Invalid ''unknown --status'') else Inr (Some s)))"

definition filter_rows ::
  "(string \<Rightarrow> int option) \<Rightarrow> stored_row list \<Rightarrow> string option \<Rightarrow> string option \<Rightarrow> string option \<Rightarrow> int option \<Rightarrow>
   string option \<Rightarrow> bool \<Rightarrow> bool \<Rightarrow> stored_row list" where
  "filter_rows parse_ts rows tool session server since_cutoff status anomalous_only include_synthetic =
     (let r1 = filter (\<lambda>r. include_synthetic \<or> \<not> starts_with (e_tool_name (row_entry r)) ''__'') rows;
          r2 = filter (\<lambda>r. tool = None \<or> tool = Some (e_tool_name (row_entry r))) r1;
          r3 = filter (\<lambda>r. session = None \<or> session = Some (e_session_id (row_entry r))) r2;
          r4 = filter (\<lambda>r. server = None \<or> server = e_server_name (row_entry r)) r3;
          r5 = filter (\<lambda>r. status = None \<or> status = Some (e_status (row_entry r))) r4;
          r6 = filter (\<lambda>r. \<not> anomalous_only \<or> e_anomaly_score (row_entry r) \<noteq> None) r5
      in filter (\<lambda>r. case since_cutoff of
             None \<Rightarrow> True
           | Some cutoff \<Rightarrow> (case parse_ts (e_timestamp (row_entry r)) of Some ts \<Rightarrow> cutoff \<le> ts | None \<Rightarrow> False)) r6)"

section \<open>Durations\<close>

text \<open>\<open>str::parse::<i64>\<close>: an optional sign and at least one digit, within the range.\<close>

definition parse_i64 :: "string \<Rightarrow> int option" where
  "parse_i64 s =
     (let digits = (case s of c # r \<Rightarrow> if c = CHR ''-'' \<or> c = CHR ''+'' then r else s | [] \<Rightarrow> []);
          n = int (digits_val digits) in
      if digits = [] \<or> \<not> list_all is_digit digits then None
      else let v = (if hd s = CHR ''-'' then - n else n)
           in if - (2 ^ 63) \<le> v \<and> v < 2 ^ 63 then Some v else None)"

text \<open>\<open>Duration::try_seconds\<close> and its siblings by unit, and \<open>Utc::now().checked_sub_signed\<close>.\<close>

record 'd durations =
  du_try :: "char \<Rightarrow> int \<Rightarrow> 'd option"
  du_before_now :: "'d \<Rightarrow> int option"

definition parse_since :: "'d durations \<Rightarrow> string \<Rightarrow> int result" where
  "parse_since du raw =
     (let cs = chars (str_trim raw) in
      if cs = [] then Inl (Invalid ''invalid --since value'')
      else case parse_i64 (concat (butlast cs)) of
        None \<Rightarrow> Inl (Invalid ''invalid --since value'')
      | Some amount \<Rightarrow>
          if last cs \<notin> {''s'', ''m'', ''h'', ''d''} then Inl (Invalid ''invalid --since unit'')
          else case du_try du (hd (last cs)) amount of
            None \<Rightarrow> Inl (Invalid ''--since value is out of range'')
          | Some d \<Rightarrow>
              (case du_before_now du d of None \<Rightarrow> Inl (Invalid ''--since value is out of range'') | Some t \<Rightarrow> Inr t))"

section \<open>Display\<close>

definition one_line :: "string \<Rightarrow> string" where
  "one_line = map (\<lambda>c. if c = CHR 0x0A then CHR '' '' else c)"

definition truncate_display :: "string \<Rightarrow> nat \<Rightarrow> string" where
  "truncate_display s max_chars =
     (if length (chars s) \<le> max_chars then one_line s
      else one_line (concat (take max_chars (chars s))) @ ''...'')"

definition join_comma :: "string list \<Rightarrow> string" where
  "join_comma parts = (case parts of [] \<Rightarrow> [] | p # ps \<Rightarrow> p @ concat (map (\<lambda>q. '', '' @ q) ps))"

definition redaction_summary :: "parse_flags \<Rightarrow> string option \<Rightarrow> string set \<Rightarrow> string option" where
  "redaction_summary parse flags allowlist =
     (case flags of
        None \<Rightarrow> None
      | Some raw \<Rightarrow>
          (case parse raw of
             Inl e \<Rightarrow> None
           | Inr records \<Rightarrow>
               if records = [] then None
               else Some (''[secrets: '' @ join_comma (map (\<lambda>(p, sev, sha).
                 if sha \<in> allowlist then p @ ''('' @ sev @ '', future occurrences not redacted)''
                 else p @ ''('' @ sev @ '')'') records) @ '']'')))"

definition anomaly_summary ::
  "(real \<Rightarrow> string) \<Rightarrow> (string \<Rightarrow> (string \<times> string) list option) \<Rightarrow> real option \<Rightarrow> string option \<Rightarrow> string option" where
  "anomaly_summary show1 parse_reasons score reasons =
     (case score of
        None \<Rightarrow> None
      | Some s \<Rightarrow>
          (let rules = (case Option.bind reasons parse_reasons of None \<Rightarrow> [] | Some rs \<Rightarrow> map fst rs)
           in if rules = [] then Some (''[anomaly: '' @ show1 s @ '']'')
              else Some (''[anomaly: '' @ show1 s @ '' -- '' @ join_comma rules @ '']'')))"

text \<open>\<open>{:<n}\<close> and \<open>{:>n}\<close> count characters.\<close>

definition pad_right :: "nat \<Rightarrow> string \<Rightarrow> string" where
  "pad_right n s = s @ replicate (n - length (chars s)) (CHR '' '')"

definition pad_left :: "nat \<Rightarrow> string \<Rightarrow> string" where
  "pad_left n s = replicate (n - length (chars s)) (CHR '' '') @ s"

definition table_line :: "string \<Rightarrow> string \<Rightarrow> string \<Rightarrow> string \<Rightarrow> string \<Rightarrow> string \<Rightarrow> string" where
  "table_line a b c d e f =
     pad_right 5 a @ '' '' @ pad_right 30 b @ '' '' @ pad_right 20 c @ '' '' @ pad_right 8 d @ '' '' @ pad_left 9 e @ ''  '' @ f"

record query_env =
  qe_parse_ts :: "string \<Rightarrow> int option"
  qe_parse_flags :: parse_flags
  qe_parse_reasons :: "string \<Rightarrow> (string \<times> string) list option"
  qe_show1 :: "real \<Rightarrow> string"

definition row_lines :: "query_env \<Rightarrow> string set \<Rightarrow> bool \<Rightarrow> bool \<Rightarrow> stored_row \<Rightarrow> string list" where
  "row_lines q allowlist anomalous verbose r =
     (let e = row_entry r; indent = ''      '' in
      table_line (show_int (row_id r)) (e_timestamp e) (e_tool_name e) (e_status e)
        (case e_duration_ms e of Some d \<Rightarrow> show_int d | None \<Rightarrow> ''-'')
        (case e_args_json e of Some a \<Rightarrow> truncate_display a 40 | None \<Rightarrow> []) #
      (if anomalous then (case anomaly_summary (qe_show1 q) (qe_parse_reasons q) (e_anomaly_score e) (e_anomaly_reasons e) of
         Some s \<Rightarrow> [indent @ s] | None \<Rightarrow> []) else []) @
      (if verbose then (case redaction_summary (qe_parse_flags q) (e_redaction_flags e) allowlist of
         Some s \<Rightarrow> [indent @ s] | None \<Rightarrow> []) else []))"

text \<open>The lines printed while the reader keeps reading.\<close>

definition query_output :: "query_env \<Rightarrow> string set \<Rightarrow> bool \<Rightarrow> bool \<Rightarrow> stored_row list \<Rightarrow> string list" where
  "query_output q allowlist anomalous verbose rows =
     (if rows = [] then [''No matching tool calls.'']
      else table_line ''ID'' ''TIMESTAMP'' ''TOOL'' ''STATUS'' ''DUR(ms)'' ''PREVIEW'' #
        concat (map (row_lines q allowlist anomalous verbose) rows) @ [''('' @ show_nat (length rows) @ '' row(s))''])"

record query_args =
  qa_tool :: "string option"
  qa_session :: "string option"
  qa_since :: "string option"
  qa_status :: "string option"
  qa_anomalous :: bool
  qa_verbose :: bool
  qa_include_synthetic :: bool

definition run_query :: "query_env \<Rightarrow> 'd durations \<Rightarrow> database result \<Rightarrow> query_args \<Rightarrow> string list result" where
  "run_query q du opened a =
     and_then opened (\<lambda>conn.
     and_then (read_all_rows conn) (\<lambda>rows.
     and_then (if qa_verbose a then load_allowlist conn else Inr {}) (\<lambda>allowlist.
     and_then (case qa_since a of None \<Rightarrow> Inr None | Some s \<Rightarrow> and_then (parse_since du s) (\<lambda>t. Inr (Some t))) (\<lambda>since_cutoff.
     and_then (normalize_status_filter (qa_status a)) (\<lambda>status.
     Inr (query_output q allowlist (qa_anomalous a) (qa_verbose a)
       (filter_rows (qe_parse_ts q) rows (qa_tool a) (qa_session a) None since_cutoff status
          (qa_anomalous a) (qa_include_synthetic a))))))))"

end
