(* ===== verification/Recovery.thy ===== *)
theory Recovery
  imports Heartbeat Writer Anchor
begin

text \<open>
  \<open>src/lease.rs\<close>, \<open>src/recovery.rs\<close> and \<open>DbHandle::log_durable\<close>: the liveness leases and the
  append-only recovery of sessions that were cut off. Parameters: the UUID parser, the outcome of
  each file operation and lock attempt, the JSON reader of the start row's arguments, and the order
  in which the hash map of candidates is visited. Every opening of the database is an argument: other
  processes write between two of them.
\<close>

section \<open>Leases\<close>

text \<open>\<open>File::try_lock\<close>, and \<open>OpenOptions::open\<close> on an existing file.\<close>

datatype lock_outcome = Locked | WouldBlock | LockFailed
datatype open_outcome = Opened | NotFound | OpenFailed

record lease =
  le_id :: string
  le_path :: string

definition lease_dir :: "string \<Rightarrow> string" where
  "lease_dir db_path = db_path @ ''.leases''"

definition lease_path :: "string \<Rightarrow> string \<Rightarrow> string" where
  "lease_path db_path i = path_join (lease_dir db_path) (i @ ''.lease'')"

text \<open>\<open>ios\<close> says which of the file operations fail; on Unix the directory's mode is restricted.\<close>

definition create_lease :: "io \<Rightarrow> bool \<Rightarrow> (string \<Rightarrow> lock_outcome) \<Rightarrow> string \<Rightarrow> string \<Rightarrow> lease result" where
  "create_lease ios unix lock uuid db_path =
     (let path = lease_path db_path uuid in
      and_then (io_step ios ''create session lease directory'' ()) (\<lambda>_.
      and_then (if unix then io_step ios ''restrict session lease directory'' () else Inr ()) (\<lambda>_.
      and_then (io_step ios ''create session lease'' ()) (\<lambda>_.
      if lock path = Locked then Inr \<lparr>le_id = uuid, le_path = path\<rparr>
      else Inl (IoFailed ''lock new session lease'')))))"

definition try_recover ::
  "(string \<Rightarrow> bool) \<Rightarrow> (string \<Rightarrow> open_outcome) \<Rightarrow> (string \<Rightarrow> lock_outcome) \<Rightarrow> string \<Rightarrow> string \<Rightarrow> lease option result" where
  "try_recover is_uuid openf lock db_path i =
     (if \<not> is_uuid i then Inr None
      else let path = lease_path db_path i in
        case openf path of
          NotFound \<Rightarrow> Inr None
        | OpenFailed \<Rightarrow> Inl (IoFailed ''open session lease'')
        | Opened \<Rightarrow>
            (case lock path of
               Locked \<Rightarrow> Inr (Some \<lparr>le_id = i, le_path = path\<rparr>)
             | WouldBlock \<Rightarrow> Inr None
             | LockFailed \<Rightarrow> Inl (IoFailed ''test session lease'')))"

section \<open>A durable write\<close>

text \<open>
  What one turn of the retry loop of \<open>log_durable\<close> finds: the queue, and whether the deadline is
  past. \<open>reply\<close> is what comes back once the command is queued: the writer's answer, or \<open>None\<close> if the
  writer stopped. \<open>None\<close> as the result: still retrying when the views end.
\<close>

fun log_durable :: "tool_call_entry \<Rightarrow> (queue \<times> bool) list \<Rightarrow> unit result option \<Rightarrow> (unit result \<times> queue) option" where
  "log_durable entry [] reply = None"
| "log_durable entry ((q, late) # views) reply =
     (case try_send q (Durable entry) of
        Inr q' \<Rightarrow>
          Some (case reply of
                  Some (Inr _) \<Rightarrow> Inr ()
                | Some (Inl e) \<Rightarrow> Inl (Refused ''failed to persist recovery marker'')
                | None \<Rightarrow> Inl (Refused ''audit writer stopped before recovery marker commit''), q')
      | Inl Full \<Rightarrow>
          if late then Some (Inl (Refused ''timed out waiting for space in the audit writer queue''), q)
          else log_durable entry views reply
      | Inl Disconnected \<Rightarrow> Some (Inl (Refused ''audit writer is unavailable''), q))"

section \<open>Reading the lifecycle\<close>

record liveness_args =
  la_mechanism :: string
  la_lease_id :: string

record start_args =
  sa_started_at :: "string option"
  sa_liveness :: "liveness_args option"

record candidate =
  cd_session_id :: string
  cd_lease_id :: string

record session_state =
  ss_server_name :: "string option"
  ss_started_at :: string
  ss_last_known_alive_at :: string
  ss_has_clean_end :: bool
  ss_has_abandonment :: bool
  ss_lease_matches :: bool

definition lease_mechanism :: string where "lease_mechanism = ''exclusive_os_file_lock_v1''"

definition lifecycle_names :: "string list" where
  "lifecycle_names = [session_start_tool_name, session_end_tool_name, session_abandoned_tool_name]"

definition is_lifecycle :: "stored_row \<Rightarrow> bool" where
  "is_lifecycle r \<longleftrightarrow> e_tool_name (row_entry r) \<in> set lifecycle_names"

definition start_args_of :: "(string \<Rightarrow> start_args option) \<Rightarrow> stored_row \<Rightarrow> start_args option" where
  "start_args_of parse r = Option.bind (e_args_json (row_entry r)) parse"

text \<open>The map \<open>starts\<close>, in order of insertion, and the set \<open>closed\<close>.\<close>

definition scan_row ::
  "(string \<Rightarrow> start_args option) \<Rightarrow> candidate list \<times> string set \<Rightarrow> stored_row \<Rightarrow> candidate list \<times> string set" where
  "scan_row parse acc r =
     (let (starts, closed) = acc; sid = e_session_id (row_entry r) in
      if e_tool_name (row_entry r) \<noteq> session_start_tool_name then (starts, insert sid closed)
      else case start_args_of parse r of
          None \<Rightarrow> acc
        | Some args \<Rightarrow>
            (case sa_liveness args of
               None \<Rightarrow> acc
             | Some live \<Rightarrow>
                 if la_mechanism live \<noteq> lease_mechanism \<or> sid \<in> set (map cd_session_id starts) then acc
                 else (starts @ [\<lparr>cd_session_id = sid, cd_lease_id = la_lease_id live\<rparr>], closed)))"

definition candidates :: "(string \<Rightarrow> start_args option) \<Rightarrow> database \<Rightarrow> candidate list result" where
  "candidates parse conn =
     and_then (sql conn ''prepare session recovery scan'' 0 ()) (\<lambda>_.
     and_then (sql conn ''scan session starts'' 0 ()) (\<lambda>_.
     and_then (sql conn ''read session start'' 0 (filter is_lifecycle (rows_by_id conn))) (\<lambda>rows.
     let (starts, closed) = foldl (scan_row parse) ([], {}) rows
     in Inr (filter (\<lambda>c. cd_session_id c \<notin> closed) starts))))"

text \<open>What the loop of \<open>session_state\<close> carries: the start and its lease, the name, the two flags.\<close>

record lifecycle =
  lc_start :: "(string \<times> string option) option"
  lc_server_name :: "string option"
  lc_clean_end :: bool
  lc_abandonment :: bool

definition start_lease :: "start_args \<Rightarrow> string option" where
  "start_lease args = (case sa_liveness args of
     Some live \<Rightarrow> if la_mechanism live = lease_mechanism then Some (la_lease_id live) else None
   | None \<Rightarrow> None)"

definition lifecycle_row :: "(string \<Rightarrow> start_args option) \<Rightarrow> lifecycle \<Rightarrow> stored_row \<Rightarrow> lifecycle" where
  "lifecycle_row parse lc r =
     (let name = e_tool_name (row_entry r) in
      if name = session_start_tool_name
      then (case start_args_of parse r of
              None \<Rightarrow> lc
            | Some args \<Rightarrow>
                lc\<lparr>lc_start := Some (case sa_started_at args of Some t \<Rightarrow> t | None \<Rightarrow> e_timestamp (row_entry r), start_lease args),
                   lc_server_name := e_server_name (row_entry r)\<rparr>)
      else if name = session_end_tool_name then lc\<lparr>lc_clean_end := True\<rparr>
      else if name = session_abandoned_tool_name then lc\<lparr>lc_abandonment := True\<rparr>
      else lc)"

definition no_lifecycle :: lifecycle where
  "no_lifecycle = \<lparr>lc_start = None, lc_server_name = None, lc_clean_end = False, lc_abandonment = False\<rparr>"

definition latest_alive :: "database \<Rightarrow> string \<Rightarrow> string option" where
  "latest_alive conn sid =
     (case rev (filter (\<lambda>r. e_session_id (row_entry r) = sid \<and>
             e_tool_name (row_entry r) \<notin> {session_end_tool_name, session_abandoned_tool_name}) (rows_by_id conn)) of
        [] \<Rightarrow> None
      | r # _ \<Rightarrow> Some (e_timestamp (row_entry r)))"

definition session_state :: "(string \<Rightarrow> start_args option) \<Rightarrow> database \<Rightarrow> string \<Rightarrow> string \<Rightarrow> session_state option result" where
  "session_state parse conn sid expected_lease_id =
     and_then (sql conn ''prepare session lifecycle recheck'' 0 ()) (\<lambda>_.
     and_then (sql conn ''recheck session lifecycle'' 0 ()) (\<lambda>_.
     and_then (sql conn ''read session lifecycle row'' 0
         (filter (\<lambda>r. e_session_id (row_entry r) = sid \<and> is_lifecycle r) (rows_by_id conn))) (\<lambda>rows.
     let lc = foldl (lifecycle_row parse) no_lifecycle rows in
     case lc_start lc of
       None \<Rightarrow> Inr None
     | Some (started_at, start_lease_id) \<Rightarrow>
         and_then (sql conn ''read last known session activity'' 0 (latest_alive conn sid)) (\<lambda>alive.
         Inr (Some \<lparr>ss_server_name = lc_server_name lc, ss_started_at = started_at,
           ss_last_known_alive_at = (case alive of Some t \<Rightarrow> t | None \<Rightarrow> started_at),
           ss_has_clean_end = lc_clean_end lc, ss_has_abandonment = lc_abandonment lc,
           ss_lease_matches = (start_lease_id = Some expected_lease_id)\<rparr>)))))"

section \<open>Recovery\<close>

text \<open>The marker for a candidate whose lease is held, if the recheck allows one.\<close>

definition marker_for ::
  "(string \<Rightarrow> start_args option) \<Rightarrow> (synthetic_args \<Rightarrow> string option) \<Rightarrow> string \<Rightarrow> string \<Rightarrow> database result \<Rightarrow>
   candidate \<Rightarrow> lease \<Rightarrow> tool_call_entry option" where
  "marker_for parse args now detected_at opened c held =
     (case and_then opened (\<lambda>conn. session_state parse conn (cd_session_id c) (cd_lease_id c)) of
        Inl e \<Rightarrow> None
      | Inr None \<Rightarrow> None
      | Inr (Some st) \<Rightarrow>
          if ss_has_clean_end st \<or> ss_has_abandonment st \<or> \<not> ss_lease_matches st then None
          else Some (session_abandoned_entry args now (cd_session_id c) (ss_server_name st) (ss_started_at st)
            (ss_last_known_alive_at st) detected_at (le_id held)))"

text \<open>What one turn of the loop meets: its lease attempt, its opening of the database, its clock, its write.\<close>

record attempt =
  am_lease :: "candidate \<Rightarrow> lease option result"
  am_opened :: "database result"
  am_now :: string
  am_detected_at :: string
  am_written :: "tool_call_entry \<Rightarrow> unit result"

text \<open>One turn: the marker that was handed to the writer, with the writer's answer.\<close>

definition recover_candidate ::
  "(string \<Rightarrow> start_args option) \<Rightarrow> (synthetic_args \<Rightarrow> string option) \<Rightarrow> candidate \<Rightarrow> attempt \<Rightarrow>
   (tool_call_entry \<times> unit result) option" where
  "recover_candidate parse args c a =
     (case am_lease a c of
        Inl e \<Rightarrow> None
      | Inr None \<Rightarrow> None
      | Inr (Some held) \<Rightarrow>
          map_option (\<lambda>entry. (entry, am_written a entry))
            (marker_for parse args (am_now a) (am_detected_at a) (am_opened a) c held))"

definition recover_abandoned ::
  "(string \<Rightarrow> start_args option) \<Rightarrow> (synthetic_args \<Rightarrow> string option) \<Rightarrow> (candidate list \<Rightarrow> candidate list) \<Rightarrow>
   database result \<Rightarrow> (candidate \<Rightarrow> attempt) \<Rightarrow> (nat \<times> tool_call_entry list) result" where
  "recover_abandoned parse args order opened attempts =
     and_then (and_then opened (candidates parse)) (\<lambda>cs.
       let tries = List.map_filter (\<lambda>c. recover_candidate parse args c (attempts c)) (order cs)
       in Inr (length (filter (\<lambda>(entry, r). is_ok r) tries), map fst tries))"

section \<open>What the scan and the recheck find\<close>

definition closes :: "stored_row \<Rightarrow> bool" where
  "closes r \<longleftrightarrow> e_tool_name (row_entry r) \<in> {session_end_tool_name, session_abandoned_tool_name}"

definition closing_rows :: "stored_row list \<Rightarrow> string \<Rightarrow> stored_row list" where
  "closing_rows rows sid = filter (\<lambda>r. e_session_id (row_entry r) = sid \<and> closes r) rows"

text \<open>The last readable start of a session, with its lease.\<close>

definition recorded_start :: "(string \<Rightarrow> start_args option) \<Rightarrow> stored_row list \<Rightarrow> string \<Rightarrow> (string \<times> string option) option" where
  "recorded_start parse rows sid =
     lc_start (foldl (lifecycle_row parse) no_lifecycle (filter (\<lambda>r. e_session_id (row_entry r) = sid \<and> is_lifecycle r) rows))"

lemma names_distinct [simp]:
  "session_start_tool_name \<noteq> session_end_tool_name" "session_start_tool_name \<noteq> session_abandoned_tool_name"
  "session_end_tool_name \<noteq> session_abandoned_tool_name" "session_end_tool_name \<noteq> session_start_tool_name"
  "session_abandoned_tool_name \<noteq> session_start_tool_name" "session_abandoned_tool_name \<noteq> session_end_tool_name"
  by (simp_all add: session_start_tool_name_def session_end_tool_name_def session_abandoned_tool_name_def)

lemma closes_lifecycle: "closes r \<Longrightarrow> is_lifecycle r"
  by (auto simp: closes_def is_lifecycle_def lifecycle_names_def)

lemma lifecycle_flags:
  "lc_clean_end (foldl (lifecycle_row parse) lc rows) \<or> lc_abandonment (foldl (lifecycle_row parse) lc rows) \<longleftrightarrow>
     lc_clean_end lc \<or> lc_abandonment lc \<or> (\<exists>r\<in>set rows. closes r)"
  by (induction rows arbitrary: lc) (auto simp: lifecycle_row_def Let_def closes_def split: option.splits if_splits)

lemma session_state_Some:
  assumes "session_state parse conn sid l = Inr (Some st)"
  shows "(ss_has_clean_end st \<or> ss_has_abandonment st) = (closing_rows (rows_by_id conn) sid \<noteq> [])"
    and "ss_lease_matches st \<longleftrightarrow> (\<exists>t. recorded_start parse (rows_by_id conn) sid = Some (t, Some l))"
    and "\<exists>x. recorded_start parse (rows_by_id conn) sid = Some (ss_started_at st, x)"
proof -
  let ?rows = "filter (\<lambda>r. e_session_id (row_entry r) = sid \<and> is_lifecycle r) (rows_by_id conn)"
  let ?lc = "foldl (lifecycle_row parse) no_lifecycle ?rows"
  obtain t sl where st: "lc_start ?lc = Some (t, sl)" and f: "ss_has_clean_end st = lc_clean_end ?lc"
    "ss_has_abandonment st = lc_abandonment ?lc" "ss_lease_matches st = (sl = Some l)" "ss_started_at st = t"
    using assms by (auto simp: session_state_def Let_def and_then_Inr split: option.splits)
  show "(ss_has_clean_end st \<or> ss_has_abandonment st) = (closing_rows (rows_by_id conn) sid \<noteq> [])"
    using f lifecycle_flags [of parse no_lifecycle ?rows]
    by (auto simp: no_lifecycle_def closing_rows_def filter_empty_conv closes_lifecycle)
  show "ss_lease_matches st \<longleftrightarrow> (\<exists>t. recorded_start parse (rows_by_id conn) sid = Some (t, Some l))"
    "\<exists>x. recorded_start parse (rows_by_id conn) sid = Some (ss_started_at st, x)"
    using f st by (auto simp: recorded_start_def)
qed

lemma marker_for_Some:
  assumes "marker_for parse args now detected_at (Inr conn) c held = Some e"
  shows "closing_rows (rows_by_id conn) (cd_session_id c) = []"
    and "\<exists>t. recorded_start parse (rows_by_id conn) (cd_session_id c) = Some (t, Some (cd_lease_id c))"
    and "e_session_id e = cd_session_id c" "e_tool_name e = session_abandoned_tool_name"
proof -
  obtain st where st: "session_state parse conn (cd_session_id c) (cd_lease_id c) = Inr (Some st)"
    "\<not> ss_has_clean_end st" "\<not> ss_has_abandonment st" "ss_lease_matches st"
    and e: "e = session_abandoned_entry args now (cd_session_id c) (ss_server_name st) (ss_started_at st)
      (ss_last_known_alive_at st) detected_at (le_id held)"
    using assms by (auto simp: marker_for_def split: sum.splits option.splits if_splits)
  show "closing_rows (rows_by_id conn) (cd_session_id c) = []" using session_state_Some(1) [OF st(1)] st by simp
  show "\<exists>t. recorded_start parse (rows_by_id conn) (cd_session_id c) = Some (t, Some (cd_lease_id c))"
    using session_state_Some(2) [OF st(1)] st by simp
  show "e_session_id e = cd_session_id c" "e_tool_name e = session_abandoned_tool_name"
    by (simp_all add: e session_abandoned_entry_def base_entry_def)
qed

lemma recorded_start_append:
  "recorded_start parse (rows @ [r]) sid =
     (if e_session_id (row_entry r) = sid \<and> e_tool_name (row_entry r) = session_start_tool_name
      then (case start_args_of parse r of
              None \<Rightarrow> recorded_start parse rows sid
            | Some args \<Rightarrow> Some (case sa_started_at args of Some t \<Rightarrow> t | None \<Rightarrow> e_timestamp (row_entry r), start_lease args))
      else recorded_start parse rows sid)"
  by (auto simp: recorded_start_def lifecycle_row_def Let_def is_lifecycle_def lifecycle_names_def split: option.splits)

lemma closing_rows_append [simp]:
  "closing_rows (rows @ [r]) sid = closing_rows rows sid @ (if e_session_id (row_entry r) = sid \<and> closes r then [r] else [])"
  by (simp add: closing_rows_def)

lemma recorded_start_row: "recorded_start parse rows sid = Some x \<Longrightarrow> \<exists>r\<in>set rows. e_session_id (row_entry r) = sid"
  by (rule ccontr) (auto simp: recorded_start_def no_lifecycle_def filter_empty_conv cong: filter_cong)

end
