(* ===== verification/QueryProps.thy ===== *)
theory QueryProps
  imports Query Recovery StdioProps Samples
begin

text \<open>
  Rows by name: what the default view of \<open>query\<close> leaves out, and what happens to a client call that
  bears the name of a row the program writes about itself.
\<close>

lemma filter_rows_set:
  "set (filter_rows p rows tool session server since status anomalous synthetic) \<subseteq> set rows"
  by (auto simp: filter_rows_def Let_def)

lemma filter_rows_synthetic:
  "r \<in> set (filter_rows p rows tool session server since status anomalous False) \<Longrightarrow>
     \<not> starts_with (e_tool_name (row_entry r)) ''__''"
  by (auto simp: filter_rows_def Let_def)

lemma filter_rows_status:
  "r \<in> set (filter_rows p rows tool session server since (Some s) anomalous synthetic) \<Longrightarrow> e_status (row_entry r) = s"
  by (auto simp: filter_rows_def Let_def)

lemma logged_session:
  "e_session_id (last (so_logged (log_completed env call outcome s))) = s_id (so_session s)"
  by (simp add: log_completed_def tick_def Let_def case_prod_beta attach_anomaly_def build_entry_def split: option.split)

section \<open>Properties\<close>

text \<open>
  No status that \<open>--status\<close> accepts finds the rows that recovery writes: such a filter never
  selects a session's abandonment marker.
\<close>

theorem status_filter_misses_recovery:
  assumes "normalize_status_filter (Some raw) = Inr (Some status)"
    and "row_entry r = session_abandoned_entry args now sid server started alive detected lease_id"
  shows "r \<notin> set (filter_rows p rows tool session serverf since (Some status) anomalous synthetic)"
proof
  assume "r \<in> set (filter_rows p rows tool session serverf since (Some status) anomalous synthetic)"
  from filter_rows_status [OF this] have "status = ''recovered''" by (simp add: assms(2) session_abandoned_entry_def)
  with assms(1) show False
    by (auto simp: normalize_status_filter_def known_statuses_def Let_def split: if_splits)
qed

definition sample_marker :: stored_row where
  "sample_marker = \<lparr>row_id = 1, row_entry = session_abandoned_entry (\<lambda>_. None) ''t'' ''s'' None ''t'' ''t'' ''t'' ''u'',
     row_hash = [], row_prev_hash = None\<rparr>"

theorem status_filter_misses_recovery_witness:
  "sample_marker \<notin> set (filter_rows (\<lambda>_. None) [sample_marker] None None None None (Some ''error'') False True)"
  by (rule status_filter_misses_recovery [where raw = "'' Error ''"]) (code_simp, simp add: sample_marker_def)

text \<open>
  The names of the program's own rows are not reserved. A client that calls a tool named
  \<open>__session_end\<close> has the call logged under that name: the row is missing from the default view of
  \<open>query\<close>, whatever the other filters, and from then on recovery never marks the session as
  abandoned, whoever holds its lease.
\<close>

theorem forged_end_hides:
  assumes "pc_tool_name call = session_end_tool_name"
    and "row_entry r = last (so_logged (log_completed env call outcome s))" and "r \<in> set (tool_calls conn)"
    and "cd_session_id c = s_id (so_session s)"
  shows "r \<notin> set (filter_rows p rows tool session server since status anomalous False) \<and>
    marker_for parse args now detected_at (Inr conn) c held = None"
proof
  have name: "e_tool_name (row_entry r) = session_end_tool_name"
    using assms(1) by (simp add: assms(2) log_completed_def tick_def Let_def case_prod_beta)
  then show "r \<notin> set (filter_rows p rows tool session server since status anomalous False)"
    using filter_rows_synthetic [of r p rows tool session server since status anomalous]
    by (auto simp: session_end_tool_name_def starts_with_def)
  have "r \<in> set (closing_rows (rows_by_id conn) (cd_session_id c))"
    using assms(3,4) name logged_session [of env call outcome s] by (simp add: closing_rows_def closes_def assms(2))
  then show "marker_for parse args now detected_at (Inr conn) c held = None"
    using marker_for_Some(1) by (metis empty_iff list.set(1) not_None_eq)
qed

definition forged_call :: pending_call where
  "forged_call = \<lparr>pc_tool_name = session_end_tool_name, pc_args = None, pc_bytes_in = 9, pc_started = 0\<rparr>"

definition forged_row :: stored_row where
  "forged_row = \<lparr>row_id = 1, row_entry = last (so_logged (log_completed sample_stdio forged_call timed_out (new_stdio ''s''))),
     row_hash = [], row_prev_hash = None\<rparr>"

theorem forged_end_hides_witness:
  "forged_row \<notin> set (filter_rows (\<lambda>_. None) [forged_row] None None None None None False False) \<and>
   marker_for (\<lambda>_. None) (\<lambda>_. None) ''t'' ''t'' (Inr (empty_database\<lparr>tool_calls := [forged_row]\<rparr>))
     \<lparr>cd_session_id = ''s'', cd_lease_id = ''u''\<rparr> \<lparr>le_id = ''u'', le_path = ''p''\<rparr> = None"
  by (rule forged_end_hides [where call = forged_call and env = sample_stdio and outcome = timed_out and s = "new_stdio ''s''"])
     (simp_all add: forged_call_def forged_row_def new_stdio_def new_session_def)

end
