(* ===== verification/Export.thy ===== *)
theory Export
  imports Query Config Samples
begin

text \<open>
  \<open>src/export.rs\<close>: every stored row as one JSON line. The text of an exported row is a parameter
  that may fail, as are the parsers of the two derived columns. The directory of the destination
  is a map from paths to contents.
\<close>

record export_row =
  x_id :: int
  x_timestamp :: string
  x_session_id :: string
  x_agent_id :: "string option"
  x_tool_name :: string
  x_server_name :: "string option"
  x_args_json :: "string option"
  x_result_json :: "string option"
  x_status :: string
  x_error_message :: "string option"
  x_duration_ms :: "int option"
  x_bytes_in :: "int option"
  x_bytes_out :: "int option"
  x_source :: "string option"
  x_destination :: "string option"
  x_redaction_flags :: "redaction_triple list"
  x_redaction_count :: int
  x_anomaly_score :: "real option"
  x_anomaly_reasons :: "(string \<times> string) list option"
  x_hash :: string
  x_prev_hash :: "string option"

type_synonym parse_reasons = "string \<Rightarrow> (string \<times> string) list option"

definition from_stored :: "parse_flags \<Rightarrow> parse_reasons \<Rightarrow> stored_row \<Rightarrow> export_row result" where
  "from_stored parse reasons r =
     (let e = row_entry r in
      and_then (case e_redaction_flags e of
          None \<Rightarrow> Inr []
        | Some raw \<Rightarrow> (case parse raw of Inl x \<Rightarrow> Inl (Invalid ''redaction_flags is not valid JSON'') | Inr fs \<Rightarrow> Inr fs)) (\<lambda>flags.
      and_then (case e_anomaly_reasons e of
          None \<Rightarrow> Inr None
        | Some raw \<Rightarrow> (case reasons raw of None \<Rightarrow> Inl (Invalid ''anomaly_reasons is not valid JSON'') | Some rs \<Rightarrow> Inr (Some rs))) (\<lambda>rs.
      Inr \<lparr>x_id = row_id r, x_timestamp = e_timestamp e, x_session_id = e_session_id e, x_agent_id = e_agent_id e,
           x_tool_name = e_tool_name e, x_server_name = e_server_name e, x_args_json = e_args_json e,
           x_result_json = e_result_json e, x_status = e_status e, x_error_message = e_error_message e,
           x_duration_ms = e_duration_ms e, x_bytes_in = e_bytes_in e, x_bytes_out = e_bytes_out e,
           x_source = e_source e, x_destination = e_destination e, x_redaction_flags = flags,
           x_redaction_count = e_redaction_count e, x_anomaly_score = e_anomaly_score e, x_anomaly_reasons = rs,
           x_hash = row_hash r, x_prev_hash = row_prev_hash r\<rparr>)))"

record export_env =
  xe_parse_flags :: parse_flags
  xe_parse_reasons :: parse_reasons
  xe_to_string :: "export_row \<Rightarrow> string option"

definition export_line :: "export_env \<Rightarrow> stored_row \<Rightarrow> string result" where
  "export_line x r =
     and_then (from_stored (xe_parse_flags x) (xe_parse_reasons x) r) (\<lambda>row.
       case xe_to_string x row of None \<Rightarrow> Inl (EncodingFailed ''failed to serialize row'') | Some line \<Rightarrow> Inr (line @ [CHR 0x0A]))"

text \<open>
  The loop over the rows: what reached the writer, and the first error. \<open>wfails n\<close> says whether the
  n-th write fails.
\<close>

fun write_rows :: "export_env \<Rightarrow> (nat \<Rightarrow> bool) \<Rightarrow> nat \<Rightarrow> stored_row list \<Rightarrow> string \<times> unit result" where
  "write_rows x wfails n [] = ([], Inr ())"
| "write_rows x wfails n (r # rs) =
     (case export_line x r of
        Inl e \<Rightarrow> ([], Inl e)
      | Inr line \<Rightarrow>
          if wfails n then ([], Inl (IoFailed ''failed to write export output''))
          else (let (out, res) = write_rows x wfails (n + 1) rs in (line @ out, res)))"

section \<open>The file\<close>

type_synonym files = "string \<rightharpoonup> string"

definition file_name :: "string \<Rightarrow> string option" where
  "file_name p =
     (case rev (takeWhile (\<lambda>c. c \<noteq> CHR ''/'') (rev p)) of
        [] \<Rightarrow> None | n \<Rightarrow> if n = ''.'' \<or> n = ''..'' then None else Some n)"

definition temp_path_for :: "string \<Rightarrow> string \<Rightarrow> string" where
  "temp_path_for uuid path =
     path_join (if CHR ''/'' \<in> set path then parent_dir path else ''.'')
       (''.'' @ (case file_name path of Some n \<Rightarrow> n | None \<Rightarrow> ''export'') @ ''.tmp-'' @ uuid)"

text \<open>Which file operations fail is an argument, by name.\<close>

definition write_atomic ::
  "export_env \<Rightarrow> (nat \<Rightarrow> bool) \<Rightarrow> (string \<Rightarrow> bool) \<Rightarrow> string \<Rightarrow> string \<Rightarrow> stored_row list \<Rightarrow> files \<Rightarrow> unit result \<times> files" where
  "write_atomic x wfails fio uuid path rows fs =
     (let temp = temp_path_for uuid path;
          (write_result, fs1) =
            (if fio ''create'' then (Inl (IoFailed ''failed to create temp output file''), fs)
             else (let (out, res) = write_rows x wfails 0 rows in
                   (and_then res (\<lambda>_. if fio ''flush'' then Inl (IoFailed ''failed to flush temp output file'') else Inr ()),
                    fs(temp \<mapsto> out))))
      in case write_result of
           Inr _ \<Rightarrow>
             if fio ''rename'' then (Inl (IoFailed ''failed to move completed export into place''), fs1)
             else (Inr (), (fs1(path := fs1 temp))(temp := None))
         | Inl e \<Rightarrow> (Inl e, if fio ''remove'' then fs1 else fs1(temp := None)))"

record export_args =
  xa_tool :: "string option"
  xa_since :: "string option"
  xa_status :: "string option"
  xa_server :: "string option"
  xa_anomalous :: bool

definition export_selection :: "(string \<Rightarrow> int option) \<Rightarrow> 'd durations \<Rightarrow> database result \<Rightarrow> export_args \<Rightarrow> stored_row list result" where
  "export_selection parse_ts du opened a =
     and_then opened (\<lambda>conn.
     and_then (read_all_rows conn) (\<lambda>rows.
     and_then (case xa_since a of None \<Rightarrow> Inr None | Some s \<Rightarrow> and_then (parse_since du s) (\<lambda>t. Inr (Some t))) (\<lambda>since_cutoff.
     and_then (normalize_status_filter (xa_status a)) (\<lambda>status.
     Inr (filter_rows parse_ts rows (xa_tool a) None (xa_server a) since_cutoff status (xa_anomalous a) True)))))"

definition run_export ::
  "export_env \<Rightarrow> (string \<Rightarrow> int option) \<Rightarrow> 'd durations \<Rightarrow> database result \<Rightarrow> export_args \<Rightarrow> (nat \<Rightarrow> bool) \<Rightarrow> (string \<Rightarrow> bool) \<Rightarrow>
   string \<Rightarrow> string \<Rightarrow> files \<Rightarrow> unit result \<times> files" where
  "run_export x parse_ts du opened a wfails fio uuid path fs =
     (case export_selection parse_ts du opened a of
        Inl e \<Rightarrow> (Inl e, fs)
      | Inr rows \<Rightarrow> write_atomic x wfails fio uuid path rows fs)"

section \<open>Lemmas\<close>

lemma write_rows_complete:
  "snd (write_rows x wfails n rs) = Inr () \<Longrightarrow>
   \<exists>ls. list_all2 (\<lambda>r line. export_line x r = Inr line) rs ls \<and> fst (write_rows x wfails n rs) = concat ls"
proof (induction rs arbitrary: n)
  case (Cons r rs)
  from Cons.prems obtain line where l: "export_line x r = Inr line" "\<not> wfails n" "snd (write_rows x wfails (n + 1) rs) = Inr ()"
    by (auto simp: case_prod_beta split: sum.splits if_splits)
  from Cons.IH [OF l(3)] obtain ls where "list_all2 (\<lambda>r line. export_line x r = Inr line) rs ls"
    "fst (write_rows x wfails (n + 1) rs) = concat ls" by blast
  with l show ?case by (intro exI [of _ "line # ls"]) (simp add: case_prod_beta)
qed simp

section \<open>Properties\<close>


definition sample_export :: export_env where
  "sample_export = \<lparr>xe_parse_flags = (\<lambda>_. Inr []), xe_parse_reasons = (\<lambda>_. None), xe_to_string = (\<lambda>r. Some (x_tool_name r))\<rparr>"


text \<open>
  A row whose \<open>redaction_flags\<close> is NULL, as a call without secrets has, and one where it is the text
  of an empty list, as heartbeats have, are exported alike, although the row's hash covers the
  difference: an export alone does not determine the text that was hashed.
\<close>

lemma export_forgets_null_flags:
  assumes "parse ''[]'' = Inr []"
  shows "from_stored parse reasons (r\<lparr>row_entry := (row_entry r)\<lparr>e_redaction_flags := None\<rparr>\<rparr>) =
    from_stored parse reasons (r\<lparr>row_entry := (row_entry r)\<lparr>e_redaction_flags := Some ''[]''\<rparr>\<rparr>)"
  using assms by (simp add: from_stored_def)

end
