(* ===== verification/Unmask.thy ===== *)
theory Unmask
  imports Store Utf8
begin

text \<open>
  \<open>src/unmask.rs\<close>: the one command that clears a redacted secret by its digest. The database is
  opened for writing (\<open>opened\<close>) only if its file exists.
\<close>

definition is_ascii_hexdigit :: "char \<Rightarrow> bool" where
  "is_ascii_hexdigit c \<longleftrightarrow> is_digit c \<or> (let n = of_char c :: nat in (97 \<le> n \<and> n \<le> 102) \<or> (65 \<le> n \<and> n \<le> 70))"

definition validate_note :: "string \<Rightarrow> unit result" where
  "validate_note note = (if blank_text note then Inl (Invalid ''--note is required'') else Inr ())"

definition ensure_db_exists :: "bool \<Rightarrow> unit result" where
  "ensure_db_exists db_exists = (if db_exists then Inr () else Inl (Refused ''no audit database''))"

definition ambiguous_match_sample_limit :: nat where "ambiguous_match_sample_limit = 5"

record resolved =
  rv_sha256 :: string
  rv_pattern :: "string option"

definition resolve_hash :: "database \<Rightarrow> string \<Rightarrow> resolved result" where
  "resolve_hash conn raw =
     (let input = to_lower (str_trim raw) in
      if input = [] \<or> \<not> list_all is_ascii_hexdigit input then Inl (Invalid ''not a valid sha256 hash or prefix'')
      else if 64 < length input then Inl (Invalid ''longer than a sha256 hash'')
      else if length input = 64
      then and_then (find_secret_hash_exact conn input) (\<lambda>p. Inr \<lparr>rv_sha256 = input, rv_pattern = p\<rparr>)
      else and_then (find_secret_hashes_by_prefix conn input ambiguous_match_sample_limit) (\<lambda>(n, samples).
        if n = 0 then Inl (Refused ''no known secret hash starts with the prefix'')
        else if n = 1 then (case samples of
            (sha, p) # _ \<Rightarrow> Inr \<lparr>rv_sha256 = sha, rv_pattern = Some p\<rparr>
          | [] \<Rightarrow> Inl (Invalid ''count == 1 implies one sample''))
        else Inl (Refused ''ambiguous prefix'')))"

text \<open>The result with the database afterwards, if it was opened.\<close>

definition run_unmask ::
  "unit result \<Rightarrow> bool \<Rightarrow> database result \<Rightarrow> string \<Rightarrow> string \<Rightarrow> string \<Rightarrow> resolved result \<times> database option" where
  "run_unmask config_loaded db_exists opened now hash note =
     (case and_then (validate_note note) (\<lambda>_. and_then config_loaded (\<lambda>_. and_then (ensure_db_exists db_exists) (\<lambda>_. opened))) of
        Inl e \<Rightarrow> (Inl e, None)
      | Inr conn \<Rightarrow>
          (case resolve_hash conn hash of
             Inl e \<Rightarrow> (Inl e, Some conn)
           | Inr r \<Rightarrow>
               (case add_to_allowlist conn now (rv_sha256 r) note of
                  (Inl e, conn) \<Rightarrow> (Inl e, Some conn)
                | (Inr added_at, conn) \<Rightarrow> (Inr r, Some conn))))"

section \<open>Prefixes\<close>

text \<open>A prefix of hexadecimal digits holds no wildcard, so \<open>LIKE\<close> is a comparison.\<close>

lemma sql_like_all: "sql_like ''%'' s"
  by (induction s) simp_all

lemma sql_like_prefix:
  "CHR ''%'' \<notin> set p \<Longrightarrow> CHR ''_'' \<notin> set p \<Longrightarrow>
   sql_like (p @ ''%'') s \<longleftrightarrow> length p \<le> length s \<and> to_lower (take (length p) s) = to_lower p"
proof (induction p arbitrary: s)
  case Nil
  show ?case using sql_like_all [of s] by (simp add: to_lower_def)
next
  case (Cons a p)
  then show ?case by (cases s) (auto simp: to_lower_def)
qed

lemma hex_no_wildcard: "list_all is_ascii_hexdigit p \<Longrightarrow> CHR ''%'' \<notin> set p \<and> CHR ''_'' \<notin> set p"
  by (induction p) (auto simp: is_ascii_hexdigit_def is_digit_def)

lemma resolve_prefix:
  assumes "find_secret_hashes_by_prefix d p n = Inr (1, (sha, pat) # rest)" and "r \<in> set (redactions d)"
    and "sql_like (p @ ''%'') (rr_sha256 r)"
  shows "rr_sha256 r = sha"
proof -
  let ?m = "filter (\<lambda>r. sql_like (p @ ''%'') (rr_sha256 r)) (redactions_by_id d)"
  have one: "length (remdups (map rr_sha256 ?m)) = 1"
    and s: "take n (distinct_first (map (\<lambda>r. (rr_sha256 r, rr_pattern r)) ?m)) = (sha, pat) # rest"
    using assms(1) by (auto simp: find_secret_hashes_by_prefix_def Let_def and_then_Inr)
  have "(sha, pat) \<in> set (take n (distinct_first (map (\<lambda>r. (rr_sha256 r, rr_pattern r)) ?m)))" by (simp add: s)
  then have "(sha, pat) \<in> set (distinct_first (map (\<lambda>r. (rr_sha256 r, rr_pattern r)) ?m))" by (rule in_set_takeD)
  then have sha: "sha \<in> set (map rr_sha256 ?m)" by auto
  have r: "rr_sha256 r \<in> set (map rr_sha256 ?m)" using assms(2,3) by (auto simp: redactions_by_id_def)
  from one have "card (set (map rr_sha256 ?m)) = 1" by (metis length_remdups_card_conv)
  then obtain x where "set (map rr_sha256 ?m) = {x}" by (rule card_1_singletonE)
  with sha r show ?thesis by (metis singletonD)
qed

section \<open>Properties\<close>

text \<open>
  What is cleared is what was named: the digest is the full one that was given, or the only
  recorded digest that begins, up to the case of letters, with the given prefix. A prefix shared by
  two digests, or by none, clears nothing.
\<close>

theorem resolve_hash_unique:
  assumes "resolve_hash conn raw = Inr r"
  shows "let input = to_lower (str_trim raw) in
    (length input = 64 \<and> rv_sha256 r = input) \<or>
    (length input < 64 \<and> (\<forall>x\<in>set (redactions conn).
       to_lower (take (length input) (rr_sha256 x)) = to_lower input \<longrightarrow> length input \<le> length (rr_sha256 x) \<longrightarrow> rr_sha256 x = rv_sha256 r))"
proof -
  let ?i = "to_lower (str_trim raw)"
  have hex: "list_all is_ascii_hexdigit ?i" "length ?i \<le> 64"
    using assms by (auto simp: resolve_hash_def Let_def split: if_splits)
  show ?thesis
  proof (cases "length ?i = 64")
    case True
    with assms hex show ?thesis by (auto simp: resolve_hash_def Let_def and_then_Inr split: if_splits)
  next
    case False
    with assms hex obtain n samples where f: "find_secret_hashes_by_prefix conn ?i ambiguous_match_sample_limit = Inr (n, samples)"
      by (auto simp: resolve_hash_def Let_def and_then_Inr split: if_splits)
    with assms hex False obtain pat rest where "n = 1" "samples = (rv_sha256 r, pat) # rest"
      by (auto simp: resolve_hash_def Let_def split: if_splits list.splits)
    with f have f: "find_secret_hashes_by_prefix conn ?i ambiguous_match_sample_limit = Inr (1, (rv_sha256 r, pat) # rest)" by simp
    have "rr_sha256 x = rv_sha256 r" if "x \<in> set (redactions conn)" "to_lower (take (length ?i) (rr_sha256 x)) = to_lower ?i"
      "length ?i \<le> length (rr_sha256 x)" for x
      by (rule resolve_prefix [OF f that(1)]) (use that hex hex_no_wildcard [OF hex(1)] in \<open>simp add: sql_like_prefix\<close>)
    with False hex show ?thesis by (simp add: Let_def)
  qed
qed

definition unmask_db :: database where
  "unmask_db = empty_database\<lparr>redactions := [\<lparr>rr_id = 1, rr_tool_call_id = 1, rr_triple = (''p'', ''high'', ''ab1'')\<rparr>,
     \<lparr>rr_id = 2, rr_tool_call_id = 2, rr_triple = (''p'', ''high'', ''ab1'')\<rparr>, \<lparr>rr_id = 3, rr_tool_call_id = 2, rr_triple = (''q'', ''low'', ''ac2'')\<rparr>]\<rparr>"

theorem resolve_hash_unique_witness:
  "let input = to_lower (str_trim ''AB'') in
    (length input = 64 \<and> rv_sha256 \<lparr>rv_sha256 = ''ab1'', rv_pattern = Some ''p''\<rparr> = input) \<or>
    (length input < 64 \<and> (\<forall>x\<in>set (redactions unmask_db).
       to_lower (take (length input) (rr_sha256 x)) = to_lower input \<longrightarrow> length input \<le> length (rr_sha256 x) \<longrightarrow>
       rr_sha256 x = rv_sha256 \<lparr>rv_sha256 = ''ab1'', rv_pattern = Some ''p''\<rparr>))"
  by (rule resolve_hash_unique) code_simp

text \<open>
  Clearing a secret is recorded and touches nothing else: on success the digest is on the
  allowlist with the given, non-blank note, every other entry of the allowlist, the rows, the index
  and the metadata are as before; on failure the whole database is.
\<close>

theorem unmask_effect:
  "case run_unmask config_loaded db_exists opened now hash note of
     (Inr r, Some d') \<Rightarrow> db_exists \<and> \<not> blank_text note \<and> (\<exists>d. opened = Inr d \<and>
       d' = d\<lparr>secret_allowlist := (secret_allowlist d)(rv_sha256 r \<mapsto> \<lparr>al_added_at = now, al_note = note\<rparr>)\<rparr>)
   | (Inr r, None) \<Rightarrow> False
   | (Inl e, Some d') \<Rightarrow> opened = Inr d'
   | (Inl e, None) \<Rightarrow> True"
  by (auto simp: run_unmask_def validate_note_def ensure_db_exists_def add_to_allowlist_def and_then_Inr and_then_Inl
      split: sum.splits if_splits prod.splits)

end
