(* ===== verification/RecoveryProps.thy ===== *)
theory RecoveryProps
  imports Recovery WriterProps Samples
begin

text \<open>
  Several processes share one database. A holder is one \<open>SessionLease\<close> value of some process (or
  the place for one): it owns the process's own session from its creation on, or it was acquired by
  the recovery of somebody else's. The steps are the commits and the lock operations, the points
  where processes meet; they interleave in any order, and a holder can let go at any point, which is
  also what the death of its process does. A process that is gone writes nothing: an end row is
  committed before its owner lets go (the drain), and so is the marker (\<open>log_durable\<close>). Client calls
  are taken not to bear the three lifecycle names, which the program does not prevent.
\<close>

record site =
  si_mac :: "bytes \<Rightarrow> bytes \<Rightarrow> bytes"
  si_canon :: "tool_call_entry \<Rightarrow> string option"
  si_flags :: parse_flags
  si_key :: bytes
  si_start :: "string \<Rightarrow> start_args option"
  si_args :: "synthetic_args \<Rightarrow> string option"
  si_uuid :: "string \<Rightarrow> bool"
  si_open :: "string \<Rightarrow> open_outcome"
  si_db_path :: string

datatype holder =
    Out
  | Created "lease option"
  | Running string "lease option"
  | Ended "lease option"
  | Holding candidate lease
  | Writing candidate lease tool_call_entry
  | Wrote lease

record shared =
  sh_db :: database
  sh_lock :: "string \<rightharpoonup> nat"
  sh_holder :: "nat \<Rightarrow> holder"

fun held_lease :: "holder \<Rightarrow> lease option" where
  "held_lease Out = None"
| "held_lease (Created l) = l"
| "held_lease (Running sid l) = l"
| "held_lease (Ended l) = l"
| "held_lease (Holding c h) = Some h"
| "held_lease (Writing c h e) = Some h"
| "held_lease (Wrote h) = Some h"

definition lock_view :: "shared \<Rightarrow> string \<Rightarrow> lock_outcome" where
  "lock_view s path = (if sh_lock s path = None then Locked else WouldBlock)"

definition become :: "shared \<Rightarrow> nat \<Rightarrow> holder \<Rightarrow> shared" where
  "become s i p = s\<lparr>sh_holder := (sh_holder s)(i := p)\<rparr>"

definition take_lock :: "shared \<Rightarrow> nat \<Rightarrow> lease \<Rightarrow> shared" where
  "take_lock s i h = s\<lparr>sh_lock := (sh_lock s)(le_path h \<mapsto> i)\<rparr>"

definition let_go :: "shared \<Rightarrow> nat \<Rightarrow> shared" where
  "let_go s i = become (case held_lease (sh_holder s i) of
     None \<Rightarrow> s | Some h \<Rightarrow> s\<lparr>sh_lock := (sh_lock s)(le_path h := None)\<rparr>) i Out"

definition committed ::
  "site \<Rightarrow> (string \<Rightarrow> nat \<Rightarrow> bool) \<Rightarrow> shared \<Rightarrow> tool_call_entry \<Rightarrow> string result \<times> database \<times> string list" where
  "committed w f s e =
     insert_row_with_key (si_mac w) (si_canon w) (si_flags w) ((sh_db s)\<lparr>sql_fails := f\<rparr>) e (Hmac (si_key w))"

inductive share_step :: "site \<Rightarrow> shared \<Rightarrow> shared \<Rightarrow> bool" for w where
  create: "\<lbrakk>sh_holder s i = Out; create_lease ios unix (lock_view s) uuid (si_db_path w) = Inr h\<rbrakk>
    \<Longrightarrow> share_step w s (become (take_lock s i h) i (Created (Some h)))"
| create_fails: "\<lbrakk>sh_holder s i = Out; create_lease ios unix (lock_view s) uuid (si_db_path w) = Inl e\<rbrakk>
    \<Longrightarrow> share_step w s (become s i (Created None))"
| start_session: "\<lbrakk>sh_holder s i = Created l; \<forall>r\<in>set (tool_calls (sh_db s)). e_session_id (row_entry r) \<noteq> sid;
     committed w f s (session_start_entry (si_args w) now sid name mn mx (map_option le_id l)) = (Inr hash, d, ws)\<rbrakk>
    \<Longrightarrow> share_step w s (become (s\<lparr>sh_db := d\<rparr>) i (Running sid l))"
| end_session: "\<lbrakk>sh_holder s i = Running sid l;
     committed w f s (session_end_entry (si_args w) now sid name) = (Inr hash, d, ws)\<rbrakk>
    \<Longrightarrow> share_step w s (become (s\<lparr>sh_db := d\<rparr>) i (Ended l))"
| other_row: "\<lbrakk>e_tool_name e \<notin> set lifecycle_names; committed w f s e = (r, d, ws)\<rbrakk>
    \<Longrightarrow> share_step w s (s\<lparr>sh_db := d\<rparr>)"
| acquire: "\<lbrakk>sh_holder s i = Out;
     try_recover (si_uuid w) (si_open w) (lock_view s) (si_db_path w) (cd_lease_id c) = Inr (Some h)\<rbrakk>
    \<Longrightarrow> share_step w s (become (take_lock s i h) i (Holding c h))"
| decide: "\<lbrakk>sh_holder s i = Holding c h;
     marker_for (si_start w) (si_args w) now detected_at (Inr ((sh_db s)\<lparr>sql_fails := f\<rparr>)) c h = Some e\<rbrakk>
    \<Longrightarrow> share_step w s (become s i (Writing c h e))"
| write_marker: "\<lbrakk>sh_holder s i = Writing c h e; committed w f s e = (r, d, ws)\<rbrakk>
    \<Longrightarrow> share_step w s (become (s\<lparr>sh_db := d\<rparr>) i (Wrote h))"
| release: "share_step w s (let_go s i)"

inductive_cases share_stepE: "share_step w s s'"

inductive share_reach :: "site \<Rightarrow> shared \<Rightarrow> shared \<Rightarrow> bool" for w s where
  reach_init: "share_reach w s s"
| reach_step: "\<lbrakk>share_reach w s s'; share_step w s' s''\<rbrakk> \<Longrightarrow> share_reach w s s''"

text \<open>The start of a session's row is read back as it was written.\<close>

definition start_json_ok :: "site \<Rightarrow> bool" where
  "start_json_ok w \<longleftrightarrow> (\<forall>sid now mn mx l.
     si_start w (args_text (si_args w) (SessionStartArgs sid now mn mx l)) =
       Some \<lparr>sa_started_at = Some now,
             sa_liveness = map_option (\<lambda>i. \<lparr>la_mechanism = lease_mechanism, la_lease_id = i\<rparr>) l\<rparr>)"

definition quiet :: "database \<Rightarrow> shared" where
  "quiet d = \<lparr>sh_db = d, sh_lock = Map.empty, sh_holder = (\<lambda>_. Out)\<rparr>"

definition closed_at_most_once :: "database \<Rightarrow> bool" where
  "closed_at_most_once d \<longleftrightarrow> (\<forall>sid. length (closing_rows (rows_by_id d) sid) \<le> 1)"

section \<open>The invariant\<close>

definition holds_lock :: "shared \<Rightarrow> string \<Rightarrow> bool" where
  "holds_lock s db_path \<longleftrightarrow> (\<forall>i h. held_lease (sh_holder s i) = Some h \<longrightarrow>
     le_path h = lease_path db_path (le_id h) \<and> sh_lock s (le_path h) = Some i)"

lemma holds_lock_db [simp]: "holds_lock (s\<lparr>sh_db := d\<rparr>) p = holds_lock s p"
  by (simp add: holds_lock_def)

text \<open>The session a holder may still close, with the lease that its start row names.\<close>

fun may_close :: "holder \<Rightarrow> (string \<times> string option) option" where
  "may_close (Running sid l) = Some (sid, map_option le_id l)"
| "may_close (Writing c h e) = Some (cd_session_id c, Some (cd_lease_id c))"
| "may_close _ = None"

fun holder_ok :: "holder \<Rightarrow> bool" where
  "holder_ok (Holding c h) = (le_id h = cd_lease_id c)"
| "holder_ok (Writing c h e) = (le_id h = cd_lease_id c \<and> e_session_id e = cd_session_id c \<and>
     e_tool_name e = session_abandoned_tool_name)"
| "holder_ok _ = True"

definition share_inv :: "site \<Rightarrow> shared \<Rightarrow> bool" where
  "share_inv w s \<longleftrightarrow> ids_ok (sh_db s) \<and> holds_lock s (si_db_path w) \<and> (\<forall>i. holder_ok (sh_holder s i)) \<and>
     (\<forall>i sid l. may_close (sh_holder s i) = Some (sid, l) \<longrightarrow>
        closing_rows (tool_calls (sh_db s)) sid = [] \<and>
        (\<exists>t. recorded_start (si_start w) (tool_calls (sh_db s)) sid = Some (t, l))) \<and>
     (\<forall>i j sid k l. may_close (sh_holder s i) = Some (sid, k) \<and> may_close (sh_holder s j) = Some (sid, l) \<longrightarrow> i = j) \<and>
     (\<forall>sid. length (closing_rows (tool_calls (sh_db s)) sid) \<le> 1)"

lemma share_invD:
  assumes "share_inv w s"
  shows "ids_ok (sh_db s)" "holds_lock s (si_db_path w)" "holder_ok (sh_holder s i)"
    "may_close (sh_holder s i) = Some (sid, l) \<Longrightarrow> closing_rows (tool_calls (sh_db s)) sid = []"
    "may_close (sh_holder s i) = Some (sid, l) \<Longrightarrow> \<exists>t. recorded_start (si_start w) (tool_calls (sh_db s)) sid = Some (t, l)"
    "may_close (sh_holder s i) = Some (sid, k) \<Longrightarrow> may_close (sh_holder s j) = Some (sid, l) \<Longrightarrow> i = j"
    "length (closing_rows (tool_calls (sh_db s)) sid) \<le> 1"
  using assms by (auto simp: share_inv_def)

lemma share_invI:
  assumes "ids_ok (sh_db s)" and "holds_lock s (si_db_path w)" and "\<And>i. holder_ok (sh_holder s i)"
    and "\<And>i sid l. may_close (sh_holder s i) = Some (sid, l) \<Longrightarrow> closing_rows (tool_calls (sh_db s)) sid = [] \<and>
      (\<exists>t. recorded_start (si_start w) (tool_calls (sh_db s)) sid = Some (t, l))"
    and "\<And>i j sid k l. may_close (sh_holder s i) = Some (sid, k) \<Longrightarrow> may_close (sh_holder s j) = Some (sid, l) \<Longrightarrow> i = j"
    and "\<And>sid. length (closing_rows (tool_calls (sh_db s)) sid) \<le> 1"
  shows "share_inv w s"
  unfolding share_inv_def using assms by blast

lemma become_simps [simp]:
  "sh_db (become s i p) = sh_db s" "sh_lock (become s i p) = sh_lock s" "sh_holder (become s i p) = (sh_holder s)(i := p)"
  by (simp_all add: become_def)

lemma holds_lock_become:
  "holds_lock s q \<Longrightarrow> held_lease p = None \<or> held_lease p = held_lease (sh_holder s i) \<Longrightarrow> holds_lock (become s i p) q"
  unfolding holds_lock_def by (metis become_simps(2,3) fun_upd_apply option.distinct(1))

lemma committed_row:
  assumes "committed w f s e = (r, d, ws)" and "ids_ok (sh_db s)"
  shows "ids_ok d \<and> (case r of
      Inl _ \<Rightarrow> tool_calls d = tool_calls (sh_db s)
    | Inr _ \<Rightarrow> \<exists>row. tool_calls d = tool_calls (sh_db s) @ [row] \<and> row_entry row = e)"
proof -
  have ids: "ids_ok ((sh_db s)\<lparr>sql_fails := f\<rparr>)" using assms(2) by (simp add: ids_ok_def)
  show ?thesis
  proof (cases r)
    case (Inl x)
    with assms(1) have "d = (sh_db s)\<lparr>sql_fails := f\<rparr>" by (auto simp: committed_def dest: insert_row_fails)
    with Inl ids show ?thesis by simp
  next
    case (Inr x)
    then show ?thesis using insert_row_extends [OF _ ids] assms(1) by (fastforce simp: committed_def)
  qed
qed

text \<open>A holder that changes its place without a row and closes nothing it could not close before.\<close>

lemma inv_move:
  assumes "share_inv w s" and "sh_db s' = sh_db s" and "sh_holder s' = (sh_holder s)(i := p)"
    and "holds_lock s' (si_db_path w)" and "holder_ok p" and "may_close p = None \<or> may_close p = may_close (sh_holder s i)"
  shows "share_inv w s'"
proof (rule share_invI)
  note D = share_invD [OF assms(1)]
  have old: "may_close (sh_holder s j) = Some x" if "may_close (sh_holder s' j) = Some x" for j x
    using that assms(3,6) by (auto split: if_splits)
  show "ids_ok (sh_db s')" "holds_lock s' (si_db_path w)" "length (closing_rows (tool_calls (sh_db s')) sid) \<le> 1" for sid
    using D(1,7) assms(2,4) by simp_all
  show "holder_ok (sh_holder s' j)" for j using D(3) assms(3,5) by simp
  show "closing_rows (tool_calls (sh_db s')) sid = [] \<and>
      (\<exists>t. recorded_start (si_start w) (tool_calls (sh_db s')) sid = Some (t, l))"
    if "may_close (sh_holder s' j) = Some (sid, l)" for j sid l
    using D(4,5) old [OF that] assms(2) by metis
  show "j = k" if "may_close (sh_holder s' j) = Some (sid, l)" "may_close (sh_holder s' k) = Some (sid, m)" for j k sid l m
    using D(6) old [OF that(1)] old [OF that(2)] by blast
qed

text \<open>A row that closes nothing and starts nothing.\<close>

lemma inv_row:
  assumes "share_inv w s" and "ids_ok d" and "tool_calls d = tool_calls (sh_db s) \<or>
    (\<exists>row. tool_calls d = tool_calls (sh_db s) @ [row] \<and> e_tool_name (row_entry row) \<notin> set lifecycle_names)"
  shows "share_inv w (s\<lparr>sh_db := d\<rparr>)"
proof -
  have "closing_rows (tool_calls d) = closing_rows (tool_calls (sh_db s))"
    "recorded_start (si_start w) (tool_calls d) = recorded_start (si_start w) (tool_calls (sh_db s))"
    using assms(3) by (auto simp: recorded_start_append closes_def lifecycle_names_def)
  with assms(1,2) show ?thesis by (simp add: share_inv_def)
qed

text \<open>A row that closes the session its holder may close; the holder is done with it.\<close>

lemma inv_close:
  assumes "share_inv w s" and "ids_ok d" and "tool_calls d = tool_calls (sh_db s) @ [row]"
    and "may_close (sh_holder s i) = Some (e_session_id (row_entry row), l)"
    and "closes row" and "may_close p = None" and "holder_ok p" and "held_lease p = held_lease (sh_holder s i)"
  shows "share_inv w (become (s\<lparr>sh_db := d\<rparr>) i p)"
proof (rule share_invI)
  note D = share_invD [OF assms(1)]
  let ?s = "become (s\<lparr>sh_db := d\<rparr>) i p"
  have old: "j \<noteq> i \<and> may_close (sh_holder s j) = Some x" if "may_close (sh_holder ?s j) = Some x" for j x
    using that assms(6) by (auto split: if_splits)
  have start: "recorded_start (si_start w) (tool_calls d) = recorded_start (si_start w) (tool_calls (sh_db s))"
    using assms(3,5) by (auto simp: recorded_start_append closes_def fun_eq_iff)
  show "ids_ok (sh_db ?s)" using assms(2) by simp
  show "holds_lock ?s (si_db_path w)" using D(2) assms(8) by (intro holds_lock_become) simp_all
  show "holder_ok (sh_holder ?s j)" for j using D(3) assms(7) by simp
  show "closing_rows (tool_calls (sh_db ?s)) sid = [] \<and>
      (\<exists>t. recorded_start (si_start w) (tool_calls (sh_db ?s)) sid = Some (t, l))"
    if "may_close (sh_holder ?s j) = Some (sid, l)" for j sid l
    using old [OF that] D(4,5) D(6) [OF _ assms(4)] assms(3) start by fastforce
  show "j = k" if "may_close (sh_holder ?s j) = Some (sid, l)" "may_close (sh_holder ?s k) = Some (sid, m)" for j k sid l m
    using D(6) old [OF that(1)] old [OF that(2)] by blast
  show "length (closing_rows (tool_calls (sh_db ?s)) sid) \<le> 1" for sid
    using D(4) [OF assms(4)] D(7) assms(3) by auto
qed

text \<open>The first row of a session, whose start the holder has just written.\<close>

lemma inv_start:
  assumes "share_inv w s" and "ids_ok d" and "tool_calls d = tool_calls (sh_db s) @ [row]"
    and "\<forall>r\<in>set (tool_calls (sh_db s)). e_session_id (row_entry r) \<noteq> sid" and "e_session_id (row_entry row) = sid"
    and "\<not> closes row" and "recorded_start (si_start w) (tool_calls d) sid = Some (t, map_option le_id l)"
    and "\<And>sid'. sid' \<noteq> sid \<Longrightarrow> recorded_start (si_start w) (tool_calls d) sid' =
       recorded_start (si_start w) (tool_calls (sh_db s)) sid'"
    and "sh_holder s i = Created l"
  shows "share_inv w (become (s\<lparr>sh_db := d\<rparr>) i (Running sid l))"
proof (rule share_invI)
  note D = share_invD [OF assms(1)]
  let ?s = "become (s\<lparr>sh_db := d\<rparr>) i (Running sid l)"
  have closing: "closing_rows (tool_calls d) = closing_rows (tool_calls (sh_db s))"
    using assms(3,6) by (auto simp: fun_eq_iff)
  have fresh: "closing_rows (tool_calls (sh_db s)) sid = []"
    using assms(4) by (auto simp: closing_rows_def filter_empty_conv)
  have elsewhere: "sid' \<noteq> sid" if "may_close (sh_holder s j) = Some (sid', k)" for j sid' k
    using D(5) [OF that] assms(4) recorded_start_row by fastforce
  have now: "(j = i \<and> sid' = sid \<and> k = map_option le_id l) \<or> (j \<noteq> i \<and> may_close (sh_holder s j) = Some (sid', k))"
    if "may_close (sh_holder ?s j) = Some (sid', k)" for j sid' k
    using that by (auto split: if_splits)
  show "ids_ok (sh_db ?s)" using assms(2) by simp
  show "holds_lock ?s (si_db_path w)" using D(2) assms(9) by (intro holds_lock_become) simp_all
  show "holder_ok (sh_holder ?s j)" for j using D(3) by simp
  show "closing_rows (tool_calls (sh_db ?s)) sid' = [] \<and>
      (\<exists>t. recorded_start (si_start w) (tool_calls (sh_db ?s)) sid' = Some (t, k))"
    if "may_close (sh_holder ?s j) = Some (sid', k)" for j sid' k
    using now [OF that]
  proof
    assume "j = i \<and> sid' = sid \<and> k = map_option le_id l"
    then show ?thesis using closing fresh assms(7) by simp
  next
    assume "j \<noteq> i \<and> may_close (sh_holder s j) = Some (sid', k)"
    then have m: "may_close (sh_holder s j) = Some (sid', k)" by simp
    show ?thesis using D(4) [OF m] D(5) [OF m] assms(8) [OF elsewhere [OF m]] closing by simp
  qed
  show "j = k" if "may_close (sh_holder ?s j) = Some (sid', m)" "may_close (sh_holder ?s k) = Some (sid', n)" for j k sid' m n
    using now [OF that(1)] now [OF that(2)] elsewhere D(6) by blast
  show "length (closing_rows (tool_calls (sh_db ?s)) sid') \<le> 1" for sid' using closing D(7) by simp
qed

text \<open>A holder that may from now on close a session that is open, started and nobody else's to close.\<close>

lemma inv_claim:
  assumes "share_inv w s" and "may_close p = Some (sid, l)" and "holder_ok p" and "held_lease p = held_lease (sh_holder s i)"
    and "closing_rows (tool_calls (sh_db s)) sid = []"
    and "recorded_start (si_start w) (tool_calls (sh_db s)) sid = Some (t, l)"
    and "\<And>j k. may_close (sh_holder s j) = Some (sid, k) \<Longrightarrow> j = i"
  shows "share_inv w (become s i p)"
proof (rule share_invI)
  note D = share_invD [OF assms(1)]
  have now: "(j = i \<and> sid' = sid \<and> k = l) \<or> (j \<noteq> i \<and> may_close (sh_holder s j) = Some (sid', k))"
    if "may_close (sh_holder (become s i p) j) = Some (sid', k)" for j sid' k
    using that assms(2) by (auto split: if_splits)
  show "ids_ok (sh_db (become s i p))" using D(1) by simp
  show "holds_lock (become s i p) (si_db_path w)" using D(2) assms(4) by (intro holds_lock_become) simp_all
  show "holder_ok (sh_holder (become s i p) j)" for j using D(3) assms(3) by simp
  show "closing_rows (tool_calls (sh_db (become s i p))) sid' = [] \<and>
      (\<exists>t. recorded_start (si_start w) (tool_calls (sh_db (become s i p))) sid' = Some (t, k))"
    if "may_close (sh_holder (become s i p) j) = Some (sid', k)" for j sid' k
    using now [OF that] D(4,5) assms(5,6) by auto
  show "j = k" if "may_close (sh_holder (become s i p) j) = Some (sid', m)"
    "may_close (sh_holder (become s i p) k) = Some (sid', n)" for j k sid' m n
    using now [OF that(1)] now [OF that(2)] assms(7) D(6) by blast
  show "length (closing_rows (tool_calls (sh_db (become s i p))) sid') \<le> 1" for sid' using D(7) by simp
qed

section \<open>Locks\<close>

lemma leases_mutex:
  assumes "holds_lock s q" and "held_lease (sh_holder s i) = Some h" and "held_lease (sh_holder s j) = Some h'"
    and "le_id h = le_id h'"
  shows "i = j"
  using assms unfolding holds_lock_def by (metis option.inject)

text \<open>Whoever may close a session under a lease holds that lease.\<close>

lemma may_close_lease:
  assumes "holder_ok p" and "may_close p = Some (sid, Some l)"
  obtains h where "held_lease p = Some h" and "le_id h = l"
  using assms by (cases p) auto

lemma holds_lock_take:
  assumes "holds_lock s q" and "lock_view s (le_path h) = Locked" and "le_path h = lease_path q (le_id h)"
    and "held_lease p = Some h"
  shows "holds_lock (become (take_lock s i h) i p) q"
proof -
  have "sh_lock s (le_path h) = None" using assms(2) by (simp add: lock_view_def split: if_splits)
  then have path: "le_path h' \<noteq> le_path h" if "held_lease (sh_holder s j) = Some h'" for j h'
    using assms(1) that unfolding holds_lock_def by (metis option.distinct(1))
  show ?thesis
    unfolding holds_lock_def
  proof (intro allI impI)
    fix j h' assume h': "held_lease (sh_holder (become (take_lock s i h) i p) j) = Some h'"
    show "le_path h' = lease_path q (le_id h') \<and> sh_lock (become (take_lock s i h) i p) (le_path h') = Some j"
    proof (cases "j = i")
      case True
      with h' assms(3,4) show ?thesis by (simp add: take_lock_def)
    next
      case False
      with h' have h': "held_lease (sh_holder s j) = Some h'" by (simp add: take_lock_def)
      with assms(1) have "le_path h' = lease_path q (le_id h')" "sh_lock s (le_path h') = Some j"
        unfolding holds_lock_def by blast+
      with path [OF h'] show ?thesis by (simp add: take_lock_def)
    qed
  qed
qed

lemma holds_lock_let_go:
  assumes "holds_lock s q"
  shows "holds_lock (let_go s i) q"
  unfolding holds_lock_def
proof (intro allI impI)
  fix j h' assume h': "held_lease (sh_holder (let_go s i) j) = Some h'"
  then have j: "j \<noteq> i" "held_lease (sh_holder s j) = Some h'"
    by (auto simp: let_go_def split: option.splits if_splits)
  then have l: "le_path h' = lease_path q (le_id h')" "sh_lock s (le_path h') = Some j"
    using assms unfolding holds_lock_def by blast+
  moreover have "sh_lock s (le_path h) = Some i" if "held_lease (sh_holder s i) = Some h" for h
    using assms that unfolding holds_lock_def by blast
  ultimately show "le_path h' = lease_path q (le_id h') \<and> sh_lock (let_go s i) (le_path h') = Some j"
    using j(1) by (auto simp: let_go_def split: option.splits)
qed

lemma let_go_simps [simp]: "sh_db (let_go s i) = sh_db s" "sh_holder (let_go s i) = (sh_holder s)(i := Out)"
  by (auto simp: let_go_def split: option.splits)

lemma create_lease_Inr:
  "create_lease ios unix lock uuid db_path = Inr h \<Longrightarrow>
     lock (le_path h) = Locked \<and> le_path h = lease_path db_path (le_id h)"
  by (auto simp: create_lease_def Let_def and_then_Inr split: if_splits)

lemma try_recover_Some:
  "try_recover is_uuid openf lock db_path i = Inr (Some h) \<Longrightarrow>
     le_id h = i \<and> lock (le_path h) = Locked \<and> le_path h = lease_path db_path (le_id h)"
  by (auto simp: try_recover_def Let_def split: if_splits open_outcome.splits lock_outcome.splits)

section \<open>Every step keeps the invariant\<close>

lemma inv_take:
  assumes "share_inv w s" and "lock_view s (le_path h) = Locked" and "le_path h = lease_path (si_db_path w) (le_id h)"
    and "held_lease p = Some h" and "holder_ok p" and "may_close p = None"
  shows "share_inv w (become (take_lock s i h) i p)"
proof (rule inv_move [OF assms(1)])
  show "holds_lock (become (take_lock s i h) i p) (si_db_path w)"
    using holds_lock_take [OF share_invD(2) [OF assms(1)] assms(2-4)] .
  show "may_close p = None \<or> may_close p = may_close (sh_holder s i)" using assms(6) by simp
qed (simp_all add: take_lock_def assms(5))

lemma inv_decide:
  assumes "share_inv w s" and "sh_holder s i = Holding c h"
    and "marker_for (si_start w) (si_args w) now detected_at (Inr ((sh_db s)\<lparr>sql_fails := f\<rparr>)) c h = Some e"
  shows "share_inv w (become s i (Writing c h e))"
proof -
  note D = share_invD [OF assms(1)]
  have rows: "rows_by_id ((sh_db s)\<lparr>sql_fails := f\<rparr>) = tool_calls (sh_db s)"
    using D(1) by (simp add: ids_ok_def)
  note m = marker_for_Some [OF assms(3), unfolded rows]
  obtain t where t: "recorded_start (si_start w) (tool_calls (sh_db s)) (cd_session_id c) = Some (t, Some (cd_lease_id c))"
    using m(2) by blast
  have le: "le_id h = cd_lease_id c" using D(3) [of i] assms(2) by simp
  have "j = i" if j: "may_close (sh_holder s j) = Some (cd_session_id c, k)" for j k
  proof -
    from D(5) [OF j] t have "k = Some (cd_lease_id c)" by simp
    with D(3) j obtain h' where "held_lease (sh_holder s j) = Some h'" "le_id h' = cd_lease_id c"
      using may_close_lease by metis
    with leases_mutex [OF D(2)] assms(2) le show ?thesis by (metis held_lease.simps(5))
  qed
  then show ?thesis
    using assms(1,2) m(1,3,4) t le by (intro inv_claim [where sid = "cd_session_id c"]) simp_all
qed

lemma inv_start_session:
  assumes "share_inv w s" and "start_json_ok w" and "sh_holder s i = Created l"
    and "\<forall>r\<in>set (tool_calls (sh_db s)). e_session_id (row_entry r) \<noteq> sid"
    and "committed w f s (session_start_entry (si_args w) now sid name mn mx (map_option le_id l)) = (Inr hash, d, ws)"
  shows "share_inv w (become (s\<lparr>sh_db := d\<rparr>) i (Running sid l))"
proof -
  obtain row where d: "ids_ok d" "tool_calls d = tool_calls (sh_db s) @ [row]"
    "row_entry row = session_start_entry (si_args w) now sid name mn mx (map_option le_id l)"
    using committed_row [OF assms(5) share_invD(1) [OF assms(1)]] by auto
  note e = session_start_entry_def base_entry_def
  have args: "start_args_of (si_start w) row = Some \<lparr>sa_started_at = Some now,
      sa_liveness = map_option (\<lambda>i. \<lparr>la_mechanism = lease_mechanism, la_lease_id = i\<rparr>) (map_option le_id l)\<rparr>"
    using assms(2) by (simp add: start_args_of_def d(3) e start_json_ok_def)
  have "start_lease \<lparr>sa_started_at = Some now,
      sa_liveness = map_option (\<lambda>i. \<lparr>la_mechanism = lease_mechanism, la_lease_id = i\<rparr>) k\<rparr> = k" for k
    by (cases k) (simp_all add: start_lease_def)
  with args show ?thesis
    using assms(1,3,4) d by (intro inv_start [where row = row and t = now]) (auto simp: e closes_def recorded_start_append)
qed

lemma inv_step:
  assumes "share_step w s s'" and "share_inv w s" and "start_json_ok w"
  shows "share_inv w s'"
  using assms(1)
proof (cases rule: share_step.cases)
  case (create i ios unix uuid h)
  then show ?thesis using assms(2) by (auto dest!: create_lease_Inr intro: inv_take)
next
  case (create_fails i ios unix uuid e)
  then show ?thesis
    using share_invD(2) [OF assms(2)] by (intro inv_move [OF assms(2)]) (auto intro: holds_lock_become)
next
  case (start_session i l sid f now name mn mx hash d ws)
  then show ?thesis using assms(2,3) by (auto intro: inv_start_session)
next
  case (end_session i sid l f now name hash d ws)
  obtain row where "ids_ok d" "tool_calls d = tool_calls (sh_db s) @ [row]"
    "row_entry row = session_end_entry (si_args w) now sid name"
    using committed_row [OF end_session(3) share_invD(1) [OF assms(2)]] by auto
  then show ?thesis
    unfolding end_session(1) using end_session(2)
    by (intro inv_close [OF assms(2), where row = row]) (simp_all add: session_end_entry_def base_entry_def closes_def)
next
  case (other_row e f r d ws)
  then show ?thesis
    using committed_row [OF other_row(3) share_invD(1) [OF assms(2)]]
    by (auto intro!: inv_row [OF assms(2)] split: sum.splits)
next
  case (acquire i c h)
  then show ?thesis using assms(2) by (auto dest!: try_recover_Some intro: inv_take)
next
  case (decide i c h now detected_at f e)
  then show ?thesis using assms(2) by (auto intro: inv_decide)
next
  case (write_marker i c h e f r d ws)
  note row = committed_row [OF write_marker(3) share_invD(1) [OF assms(2)]]
  show ?thesis
  proof (cases r)
    case (Inl x)
    with row have "share_inv w (s\<lparr>sh_db := d\<rparr>)" by (intro inv_row [OF assms(2)]) auto
    then show ?thesis
      unfolding write_marker(1) by (rule inv_move [where i = i and p = "Wrote h"])
        (auto intro!: holds_lock_become simp: share_invD(2) [OF assms(2)] write_marker(2))
  next
    case (Inr x)
    with row obtain row where "ids_ok d" "tool_calls d = tool_calls (sh_db s) @ [row]" "row_entry row = e" by auto
    moreover have "e_session_id e = cd_session_id c" "e_tool_name e = session_abandoned_tool_name"
      using share_invD(3) [OF assms(2), of i] write_marker(2) by simp_all
    ultimately show ?thesis
      unfolding write_marker(1) using write_marker(2)
      by (intro inv_close [OF assms(2), where row = row]) (simp_all add: closes_def)
  qed
next
  case (release i)
  then show ?thesis
    using share_invD(2) [OF assms(2)] by (intro inv_move [OF assms(2)]) (auto intro: holds_lock_let_go)
qed

lemma inv_reach:
  assumes "share_reach w s s'" and "share_inv w s" and "start_json_ok w"
  shows "share_inv w s'"
  using assms(1) by induction (use assms(2,3) inv_step in blast)+

lemma inv_quiet: "ids_ok d \<Longrightarrow> closed_at_most_once d \<Longrightarrow> share_inv w (quiet d)"
  by (rule share_invI) (simp_all add: quiet_def holds_lock_def closed_at_most_once_def)

section \<open>Properties\<close>


text \<open>
  A run for the witness: a session starts under its lease, its process dies, another process
  acquires the lease and marks it; the JSON is the toy text of the two fields that are read back.
\<close>

definition toy_start_text :: "synthetic_args \<Rightarrow> string option" where
  "toy_start_text a = (case a of
     SessionStartArgs sid now mn mx l \<Rightarrow> Some (show_nat (length now) @ CHR ''.'' # now @ (case l of None \<Rightarrow> [] | Some i \<Rightarrow> CHR ''+'' # i))
   | _ \<Rightarrow> None)"

definition toy_start_parse :: "string \<Rightarrow> start_args option" where
  "toy_start_parse t =
     (let n = digits_val (takeWhile is_digit t); rest = drop 1 (dropWhile is_digit t)
      in Some \<lparr>sa_started_at = Some (take n rest),
           sa_liveness = (case drop n rest of [] \<Rightarrow> None | _ # i \<Rightarrow> Some \<lparr>la_mechanism = lease_mechanism, la_lease_id = i\<rparr>)\<rparr>)"

definition toy_site :: site where
  "toy_site = \<lparr>si_mac = toy_mac, si_canon = toy_canon, si_flags = sample_parse, si_key = toy_key,
     si_start = toy_start_parse, si_args = toy_start_text, si_uuid = (\<lambda>_. True), si_open = (\<lambda>_. Opened), si_db_path = ''db''\<rparr>"

lemma toy_start_json_ok: "start_json_ok toy_site"
proof -
  have "takeWhile is_digit (show_nat n @ CHR ''.'' # r) = show_nat n" "dropWhile is_digit (show_nat n @ CHR ''.'' # r) = CHR ''.'' # r" for n r
    using show_nat_digits [of n] by (simp_all add: takeWhile_append dropWhile_append list_all_iff is_digit_def)
  then show ?thesis
    by (auto simp: start_json_ok_def toy_site_def args_text_def toy_start_text_def toy_start_parse_def Let_def split: option.splits)
qed

lemma toy_commits: obtains hash d ws where "committed toy_site (\<lambda>_ _. False) s e = (Inr hash, d, ws)"
proof -
  let ?d = "(sh_db s)\<lparr>sql_fails := \<lambda>_ _. False\<rparr>"
  obtain p where p: "last_hash ?d = Inr p" by (simp add: last_hash_def sql_def)
  define d1 where "d1 = insert_call ?d e (hex_encode (toy_mac toy_key (p @ CHR ''{'' # e_tool_name e)))
    (if p = genesis_prev_hash then None else Some p)"
  obtain ws d2 where pr: "project_redactions sample_parse d1 e = (ws, d2)" by fastforce
  have "sql_fails d2 = (\<lambda>_ _. False)"
    using only_index_changed_fields(3) [OF project_redactions_only_index [of d1 sample_parse e]] pr
    by (simp add: d1_def insert_call_def)
  with p pr have "committed toy_site (\<lambda>_ _. False) s e =
      (Inr (hex_encode (toy_mac toy_key (p @ CHR ''{'' # e_tool_name e))), d2, ws)"
    by (simp add: committed_def toy_site_def insert_row_with_key_def compute_hash_hmac_def toy_canon_def sql_def Let_def d1_def)
  then show thesis by (rule that)
qed

lemma toy_start_dies:
  obtains s d row where "share_reach toy_site (quiet empty_database) s" and "sh_db s = d" and "sh_holder s = (\<lambda>_. Out)"
    and "sh_lock s = Map.empty" and "ids_ok d" and "tool_calls d = [row]"
    and "row_entry row = session_start_entry toy_start_text ''t'' ''s'' ''n'' 30 90 (Some ''u'')"
proof -
  let ?l = "\<lparr>le_id = ''u'', le_path = lease_path ''db'' ''u''\<rparr>"
  let ?s0 = "quiet empty_database" and ?e = "session_start_entry toy_start_text ''t'' ''s'' ''n'' 30 90 (Some ''u'')"
  have ids0: "ids_ok empty_database" by (simp add: ids_ok_def empty_database_def)
  define s1 where "s1 = become (take_lock ?s0 0 ?l) 0 (Created (Some ?l))"
  have r1: "share_reach toy_site ?s0 s1"
    unfolding s1_def
    by (rule reach_step [OF reach_init share_step.create [where ios = "\<lambda>_. False" and unix = False and uuid = "''u''"]])
      (simp_all add: quiet_def create_lease_def io_step_def Let_def lock_view_def toy_site_def)
  have d1: "sh_db s1 = empty_database" by (simp add: s1_def take_lock_def quiet_def)
  obtain hash d ws where c: "committed toy_site (\<lambda>_ _. False) s1 ?e = (Inr hash, d, ws)" by (rule toy_commits)
  obtain row where d: "ids_ok d" "tool_calls d = [row]" "row_entry row = ?e"
    using committed_row [OF c] ids0 by (auto simp: d1 empty_database_def)
  define s2 where "s2 = become (s1\<lparr>sh_db := d\<rparr>) 0 (Running ''s'' (Some ?l))"
  have r2: "share_reach toy_site ?s0 s2"
    unfolding s2_def
    by (rule reach_step [OF r1 share_step.start_session [where sid = "''s''" and now = "''t''" and name = "''n''" and
          mn = 30 and mx = 90 and hash = hash and ws = ws and f = "\<lambda>_ _. False"]])
      (use c in \<open>simp_all add: s1_def take_lock_def quiet_def empty_database_def toy_site_def\<close>)
  define s3 where "s3 = let_go s2 0"
  have r3: "share_reach toy_site ?s0 s3" unfolding s3_def by (rule reach_step [OF r2 share_step.release])
  have s3: "sh_db s3 = d" "sh_holder s3 = (\<lambda>_. Out)" "sh_lock s3 = Map.empty"
    by (simp_all add: s3_def s2_def) (auto simp: let_go_def s1_def take_lock_def quiet_def)
  from r3 s3 d show thesis by (rule that)
qed


end
