(* ===== verification/Reset.thy ===== *)
theory Reset
  imports Bootstrap Config Anchor Export
begin

text \<open>
  \<open>src/reset.rs\<close>: archiving or removing the database, its key and its anchor, and starting a fresh
  chain. A disk maps paths to contents; the write-ahead log is a file of its own, beside the database,
  and holds the state that includes the transactions not yet copied into the main file. Parameters:
  whether the database opens for the checkpoint, whether SQLite completes it (it reports a busy
  database in a result row, which the program discards), which file operations fail, and what the
  new database file contains when it is opened.
\<close>

datatype content = Db database | Wal database | Raw bytes

type_synonym disk = "string \<rightharpoonup> content"

definition wal_path :: "string \<Rightarrow> string" where "wal_path db_path = sidecar_paths db_path ! 1"

text \<open>What a connection to the database sees.\<close>

definition db_view :: "disk \<Rightarrow> string \<Rightarrow> database option" where
  "db_view disk db_path =
     (case disk db_path of
        Some (Db main) \<Rightarrow> Some (case disk (wal_path db_path) of Some (Wal d) \<Rightarrow> d | _ \<Rightarrow> main)
      | _ \<Rightarrow> None)"

definition checkpoint :: "string \<Rightarrow> disk \<Rightarrow> disk" where
  "checkpoint db_path disk =
     (case db_view disk db_path of
        None \<Rightarrow> disk
      | Some d \<Rightarrow> disk(db_path \<mapsto> Db d, wal_path db_path := None))"

record reset_env =
  rz_world :: world
  rz_home :: "string option"
  rz_stamp :: string
  rz_opens :: bool
  rz_checkpointed :: bool
  rz_io :: io
  rz_fresh :: "database result"

definition resolved_key_path :: "string option \<Rightarrow> config \<Rightarrow> string result" where
  "resolved_key_path home c = expand_tilde home (cf_key_path c)"

definition genesis_of :: "config \<Rightarrow> genesis_settings" where
  "genesis_of c = \<lparr>gs_cadence_min = hc_cadence_min_secs (cf_heartbeat c), gs_cadence_max = hc_cadence_max_secs (cf_heartbeat c),
     gs_heartbeat_enabled = hc_enabled (cf_heartbeat c), gs_anchor_enabled = ac_enabled (cf_anchor c)\<rparr>"

text \<open>\<open>with_file_name\<close> on a path whose last component is a name replaces that component.\<close>

definition append_suffix :: "string \<Rightarrow> string \<Rightarrow> string" where
  "append_suffix path sfx = (case file_name path of Some _ \<Rightarrow> path @ sfx | None \<Rightarrow> path_join path sfx)"

definition backup_of :: "reset_env \<Rightarrow> string \<Rightarrow> string" where
  "backup_of z path = append_suffix path (''.reset-bak-'' @ rz_stamp z)"

definition archive_or_remove :: "reset_env \<Rightarrow> string \<Rightarrow> string \<Rightarrow> bool \<Rightarrow> disk \<Rightarrow> unit result \<times> disk" where
  "archive_or_remove z path label keep_old disk =
     (case disk path of
        None \<Rightarrow> (Inr (), disk)
      | Some x \<Rightarrow>
          if keep_old
          then (case io_step (rz_io z) (''archive '' @ label) () of
                  Inl e \<Rightarrow> (Inl e, disk)
                | Inr _ \<Rightarrow> (Inr (), disk(path := None, backup_of z path \<mapsto> x)))
          else (case io_step (rz_io z) (''remove '' @ label) () of
                  Inl e \<Rightarrow> (Inl e, disk)
                | Inr _ \<Rightarrow> (Inr (), disk(path := None))))"

definition raw_bytes :: "disk \<Rightarrow> string \<Rightarrow> bytes option" where
  "raw_bytes disk path = (case disk path of Some (Raw b) \<Rightarrow> Some b | _ \<Rightarrow> None)"

text \<open>\<open>chain::bootstrap\<close> on the disk.\<close>

definition bootstrap_disk ::
  "reset_env \<Rightarrow> string \<Rightarrow> string \<Rightarrow> genesis_settings \<Rightarrow> disk \<Rightarrow> chain_mode result \<times> disk" where
  "bootstrap_disk z db_path key_path genesis disk =
     (let (r, d, k) = bootstrap (rz_world z) (disk db_path \<noteq> None) (rz_fresh z) (raw_bytes disk key_path) genesis
      in (r, disk(db_path := map_option Db d, key_path := map_option Raw k)))"

text \<open>The checkpoint, and the removal of the sidecar files; removal failures are ignored.\<close>

definition settle_wal :: "reset_env \<Rightarrow> string \<Rightarrow> disk \<Rightarrow> disk" where
  "settle_wal z db_path disk =
     (let disk = (if disk db_path \<noteq> None \<and> rz_opens z \<and> rz_checkpointed z then checkpoint db_path disk else disk)
      in foldl (\<lambda>disk p. if rz_io z ''remove sidecar'' then disk else disk(p := None)) disk (tl (sidecar_paths db_path)))"

definition clear_files :: "reset_env \<Rightarrow> string \<Rightarrow> string \<Rightarrow> string \<Rightarrow> bool \<Rightarrow> disk \<Rightarrow> unit result \<times> disk" where
  "clear_files z db_path key_path anchor_path keep_old disk =
     (case archive_or_remove z db_path ''database'' keep_old disk of
        (Inl e, disk) \<Rightarrow> (Inl e, disk)
      | (Inr _, disk) \<Rightarrow>
          (case archive_or_remove z key_path ''key'' keep_old disk of
             (Inl e, disk) \<Rightarrow> (Inl e, disk)
           | (Inr _, disk) \<Rightarrow> archive_or_remove z anchor_path ''anchor'' keep_old disk))"

definition run_reset :: "reset_env \<Rightarrow> config result \<Rightarrow> bool \<Rightarrow> bool \<Rightarrow> disk \<Rightarrow> unit result \<times> disk" where
  "run_reset z loaded yes keep_old disk =
     (if \<not> yes then (Inl (Refused ''refusing to run without --yes''), disk)
      else
        case and_then loaded (\<lambda>c. and_then (resolved_key_path (rz_home z) c) (\<lambda>key_path.
             and_then (resolve_anchor_path (rz_home z) (ac_path (cf_anchor c))) (\<lambda>anchor_path. Inr (c, key_path, anchor_path)))) of
          Inl e \<Rightarrow> (Inl e, disk)
        | Inr (c, key_path, anchor_path) \<Rightarrow>
            (let db_path = lg_db_path (cf_logging c) in
             case clear_files z db_path key_path anchor_path keep_old (settle_wal z db_path disk) of
               (Inl e, disk) \<Rightarrow> (Inl e, disk)
             | (Inr _, disk) \<Rightarrow>
                 (case bootstrap_disk z db_path key_path (genesis_of c) disk of
                    (Inl e, disk) \<Rightarrow> (Inl e, disk)
                  | (Inr _, disk) \<Rightarrow> (Inr (), disk))))"

section \<open>Lemmas\<close>

text \<open>The paths a reset touches, which must not coincide for the files to be told apart.\<close>

definition reset_paths :: "reset_env \<Rightarrow> string \<Rightarrow> string \<Rightarrow> string \<Rightarrow> string list" where
  "reset_paths z db_path key_path anchor_path =
     sidecar_paths db_path @ [key_path, anchor_path, backup_of z db_path, backup_of z key_path, backup_of z anchor_path]"

lemma archive_keeps:
  assumes "archive_or_remove z path label True disk = (Inr (), disk')" and "path \<noteq> backup_of z path"
  shows "disk' = (case disk path of None \<Rightarrow> disk | Some x \<Rightarrow> disk(path := None, backup_of z path \<mapsto> x))"
  using assms by (auto simp: archive_or_remove_def split: option.splits sum.splits)

lemma clear_files_archives:
  assumes "clear_files z p q a True disk = (Inr (), disk')" and "distinct (reset_paths z p q a)"
  shows "disk' p = None" "disk' q = None" "disk' a = None"
    "disk p \<noteq> None \<Longrightarrow> disk' (backup_of z p) = disk p" "disk q \<noteq> None \<Longrightarrow> disk' (backup_of z q) = disk q"
    "disk a \<noteq> None \<Longrightarrow> disk' (backup_of z a) = disk a"
proof -
  obtain d1 d2 where d: "archive_or_remove z p ''database'' True disk = (Inr (), d1)"
    "archive_or_remove z q ''key'' True d1 = (Inr (), d2)" "archive_or_remove z a ''anchor'' True d2 = (Inr (), disk')"
    using assms(1) by (auto simp: clear_files_def split: prod.splits sum.splits)
  have ne: "p \<noteq> backup_of z p" "q \<noteq> backup_of z q" "a \<noteq> backup_of z a" using assms(2) by (auto simp: reset_paths_def sidecar_paths_def)
  note k = archive_keeps [OF d(1) ne(1)] archive_keeps [OF d(2) ne(2)] archive_keeps [OF d(3) ne(3)]
  show "disk' p = None" "disk' q = None" "disk' a = None"
    "disk p \<noteq> None \<Longrightarrow> disk' (backup_of z p) = disk p" "disk q \<noteq> None \<Longrightarrow> disk' (backup_of z q) = disk q"
    "disk a \<noteq> None \<Longrightarrow> disk' (backup_of z a) = disk a"
    using assms(2) unfolding k by (auto simp: reset_paths_def sidecar_paths_def split: option.splits)
qed

lemma clear_files_elsewhere:
  assumes "clear_files z p q a keep disk = (r, disk')" and "x \<notin> set [p, q, a, backup_of z p, backup_of z q, backup_of z a]"
  shows "disk' x = disk x"
proof -
  have "d' x = d x" if "archive_or_remove z y label keep d = (r, d')" "y \<in> {p, q, a}" for y label d d' r
    using that assms(2) by (auto simp: archive_or_remove_def split: option.splits sum.splits if_splits)
  with assms(1) show ?thesis by (auto simp: clear_files_def split: prod.splits sum.splits) (metis insert_iff)+
qed

lemma settle_wal_rest:
  "x \<notin> set (sidecar_paths p) \<Longrightarrow> settle_wal z p disk x = disk x"
  by (auto simp: settle_wal_def sidecar_paths_def checkpoint_def wal_path_def Let_def split: option.split)

lemma settle_wal_db:
  "settle_wal z p disk p = (if rz_opens z \<and> rz_checkpointed z \<and> db_view disk p \<noteq> None then map_option Db (db_view disk p) else disk p)"
  by (auto simp: settle_wal_def sidecar_paths_def checkpoint_def wal_path_def Let_def db_view_def split: option.split content.split)

lemma genesis_calls:
  assumes "write_chain_metadata_genesis mac d now k u mn mx hb an = (r, d')"
  shows "tool_calls d' = tool_calls d"
proof (cases r)
  case (Inl e)
  with assms genesis_metadata_rolls_back show ?thesis by metis
next
  case (Inr x)
  with assms have "write_chain_metadata_genesis mac d now k u mn mx hb an = (Inr (), d')" by simp
  from genesis_metadata_result [OF this] show ?thesis by simp
qed

lemma bootstrap_disk_fresh:
  assumes "bootstrap_disk z p q g disk = (Inr mode, disk')" and "disk p = None" and "rz_fresh z = Inr d0"
    and "tool_calls d0 = []" and "p \<noteq> q"
  shows "(\<exists>d. disk' p = Some (Db d) \<and> tool_calls d = []) \<and> (\<forall>x. x \<noteq> p \<longrightarrow> x \<noteq> q \<longrightarrow> disk' x = disk x)"
proof -
  obtain d k where b: "bootstrap (rz_world z) False (rz_fresh z) (raw_bytes disk q) g = (Inr mode, d, k)"
    and disk': "disk' = disk(p := map_option Db d, q := map_option Raw k)"
    using assms(1,2) by (auto simp: bootstrap_disk_def split: prod.splits)
  have "\<exists>d'. d = Some d' \<and> tool_calls d' = []"
    using b assms(3,4)
    by (auto simp: bootstrap_def bootstrap_fresh_chain_def recover_or_clean_up_def Let_def dest: genesis_calls
        split: prod.splits sum.splits option.splits if_splits)
  with disk' assms(5) show ?thesis by auto
qed

end
