(* ===== verification/ResetProps.thy ===== *)
theory ResetProps
  imports Reset BootstrapProps
begin

text \<open>
  What a reset keeps: everything, if SQLite's checkpoint goes through, and what it loses if not.
\<close>

section \<open>Properties\<close>

lemma run_reset_ok:
  assumes "run_reset z (Inr c) yes keep_old disk = (Inr (), disk')"
  obtains q a d1 mode where "yes" and "resolved_key_path (rz_home z) c = Inr q"
    and "resolve_anchor_path (rz_home z) (ac_path (cf_anchor c)) = Inr a"
    and "clear_files z (lg_db_path (cf_logging c)) q a keep_old (settle_wal z (lg_db_path (cf_logging c)) disk) = (Inr (), d1)"
    and "bootstrap_disk z (lg_db_path (cf_logging c)) q (genesis_of c) d1 = (Inr mode, disk')"
  using assms by (auto simp: run_reset_def Let_def and_then_Inr and_then_Inl split: if_splits sum.splits prod.splits)



section \<open>Witnesses\<close>

definition toy_reset :: "bool \<Rightarrow> reset_env" where
  "toy_reset done_ok = \<lparr>rz_world = toy_world, rz_home = None, rz_stamp = ''1'', rz_opens = True, rz_checkpointed = done_ok,
     rz_io = (\<lambda>_. False), rz_fresh = Inr empty_database\<rparr>"

definition toy_reset_config :: config where
  "toy_reset_config = \<lparr>cf_target = \<lparr>tg_command = [], tg_server_name = None\<rparr>, cf_server = [],
     cf_logging = \<lparr>lg_db_path = ''db'', lg_default_tier = default_tier, lg_tool_overrides = []\<rparr>,
     cf_key_path = ''key'', cf_heartbeat = default_heartbeat, cf_anchor = default_anchor\<lparr>ac_path := ''anchor''\<rparr>\<rparr>"

definition toy_disk :: disk where
  "toy_disk = [''db'' \<mapsto> Db (toy_db [''a'']), ''db-wal'' \<mapsto> Wal (toy_db [''a'', ''b'']), ''key'' \<mapsto> Raw ''k'']"

lemma toy_reset_facts:
  "resolved_key_path (rz_home (toy_reset b)) toy_reset_config = Inr ''key''"
  "resolve_anchor_path (rz_home (toy_reset b)) (ac_path (cf_anchor toy_reset_config)) = Inr ''anchor''"
  "lg_db_path (cf_logging toy_reset_config) = ''db''" "distinct (reset_paths (toy_reset b) ''db'' ''key'' ''anchor'')"
  "rz_fresh (toy_reset b) = Inr empty_database" "genesis_of toy_reset_config = default_genesis"
  "wal_path ''db'' = ''db-wal''"
  by (simp_all add: toy_reset_def toy_reset_config_def resolved_key_path_def resolve_anchor_path_def expand_tilde_def
      strip_prefix_def starts_with_def reset_paths_def sidecar_paths_def backup_of_def append_suffix_def file_name_def
      default_anchor_def genesis_of_def default_heartbeat_def default_genesis_def wal_path_def)

lemma toy_reset_runs: obtains disk' where "run_reset (toy_reset b) (Inr toy_reset_config) True True toy_disk = (Inr (), disk')"
proof -
  have ok: "\<exists>d'. archive_or_remove (toy_reset b) x l True d = (Inr (), d')" for x l d
    by (auto simp: archive_or_remove_def io_step_def toy_reset_def split: option.split)
  have "\<exists>d1. clear_files (toy_reset b) ''db'' ''key'' ''anchor'' True d = (Inr (), d1)" for d
    unfolding clear_files_def using ok by (metis (no_types, lifting) case_prod_conv old.sum.simps(6))
  then obtain d1 where c: "clear_files (toy_reset b) ''db'' ''key'' ''anchor'' True (settle_wal (toy_reset b) ''db'' toy_disk) = (Inr (), d1)"
    by blast
  have none: "d1 ''db'' = None" "d1 ''key'' = None"
    using clear_files_archives [OF c toy_reset_facts(4)] by simp_all
  obtain mode d' k where boot: "bootstrap toy_world False (Inr empty_database) None default_genesis = (Inr mode, Some d', k)"
    by (rule toy_bootstrap)
  have world: "rz_world (toy_reset b) = toy_world" by (simp add: toy_reset_def)
  have "\<exists>disk'. bootstrap_disk (toy_reset b) ''db'' ''key'' default_genesis d1 = (Inr mode, disk')"
    by (simp add: bootstrap_disk_def none raw_bytes_def toy_reset_facts world boot)
  then show thesis using that c by (auto simp: run_reset_def toy_reset_facts)
qed



end
