(* ===== verification/HeartbeatRun.thy ===== *)
theory HeartbeatRun
  imports Heartbeat
begin

text \<open>
  The loop of \<open>heartbeat::run\<close>: sleep for a random cadence, log a heartbeat, draw again. Instants are
  nanoseconds; \<open>show_time\<close> is their RFC 3339 text. A beat is what one turn meets: the number its
  cadence is drawn from, how much longer than that the turn took, and the number drawn for the
  deadline it names.
\<close>

text \<open>\<open>gen_range\<close> is uniform on the range: every number it can return, and no other, comes from some draw.\<close>

definition random_cadence :: "nat \<Rightarrow> nat \<Rightarrow> nat \<Rightarrow> nat" where
  "random_cadence draw min_secs max_secs =
     (if max_secs \<le> min_secs then min_secs else min_secs + draw mod (max_secs - min_secs + 1))"

record beat =
  bt_draw :: nat
  bt_delay :: nat
  bt_next_draw :: nat

definition nanos :: "nat \<Rightarrow> int" where "nanos secs = int secs * 10 ^ 9"

text \<open>Each heartbeat with the instant it is logged at and the deadline it names.\<close>

fun heartbeat_run ::
  "(synthetic_args \<Rightarrow> string option) \<Rightarrow> (int \<Rightarrow> string) \<Rightarrow> string \<Rightarrow> string \<Rightarrow> nat \<Rightarrow> nat \<Rightarrow> nat \<Rightarrow> int \<Rightarrow> beat list \<Rightarrow>
   (int \<times> int \<times> tool_call_entry) list" where
  "heartbeat_run args show_time sid name mn mx n t [] = []"
| "heartbeat_run args show_time sid name mn mx n t (b # bs) =
     (let now = t + nanos (random_cadence (bt_draw b) mn mx) + int (bt_delay b);
          expected_next_before = now + nanos (random_cadence (bt_next_draw b) mn mx);
          k = (n + 1) mod 2 ^ 64
      in (now, expected_next_before, heartbeat_entry args (show_time now) sid name k (show_time expected_next_before)) #
         heartbeat_run args show_time sid name mn mx k now bs)"

section \<open>Lemmas\<close>

lemma random_cadence_range: "mn \<le> mx \<Longrightarrow> mn \<le> random_cadence k mn mx \<and> random_cadence k mn mx \<le> mx"
proof -
  assume "mn \<le> mx"
  moreover have "k mod Suc (mx - mn) \<le> mx - mn" by (simp add: less_Suc_eq_le [symmetric])
  ultimately have "mn + k mod Suc (mx - mn) \<le> mx" by linarith
  with \<open>mn \<le> mx\<close> show ?thesis by (simp add: random_cadence_def)
qed

lemma random_cadence_onto: "mn \<le> k \<Longrightarrow> k \<le> mx \<Longrightarrow> random_cadence (k - mn) mn mx = k"
  by (simp add: random_cadence_def)

lemma heartbeat_run_entry:
  "(now, deadline, e) \<in> set (heartbeat_run args show_time sid name mn mx n t bs) \<Longrightarrow>
     e_timestamp e = show_time now \<and> e_session_id e = sid \<and> e_tool_name e = heartbeat_tool_name"
  by (induction bs arbitrary: n t)
     (auto simp: Let_def heartbeat_entry_def base_entry_def)

lemma heartbeat_run_next:
  "Suc i < length bs \<Longrightarrow>
     fst (heartbeat_run args show_time sid name mn mx n t bs ! Suc i) =
     fst (heartbeat_run args show_time sid name mn mx n t bs ! i) +
       nanos (random_cadence (bt_draw (bs ! Suc i)) mn mx) + int (bt_delay (bs ! Suc i))"
proof (induction bs arbitrary: i n t)
  case (Cons b bs)
  show ?case
  proof (cases i)
    case 0
    with Cons.prems show ?thesis by (cases bs) (simp_all add: Let_def)
  next
    case (Suc j)
    with Cons.prems Cons.IH show ?thesis by (simp add: Let_def)
  qed
qed simp

lemma length_heartbeat_run [simp]: "length (heartbeat_run args show_time sid name mn mx n t bs) = length bs"
  by (induction bs arbitrary: n t) (simp_all add: Let_def)

lemma on_time_allowed:
  assumes "c \<le> mx" and "int dl \<le> nanos (mx div 2)" and "3 * mx div 2 < 2 ^ 63"
  shows "num_seconds (nanos c + int dl) \<le> max_allowed_secs mx"
proof -
  have "nanos c + int dl \<le> int (mx + mx div 2) * 10 ^ 9" using assms(1,2) by (simp add: nanos_def)
  then have "(nanos c + int dl) div 10 ^ 9 \<le> int (mx + mx div 2)"
    by (metis nonzero_mult_div_cancel_right power_not_zero zdiv_mono1 zero_less_numeral zero_less_power zero_neq_numeral)
  moreover have "0 \<le> nanos c + int dl" by (simp add: nanos_def)
  moreover have "mx + mx div 2 \<le> 3 * mx div 2" by linarith
  then have "int (mx + mx div 2) \<le> int (3 * mx div 2)" by (simp only: of_nat_le_iff)
  moreover have "int (3 * mx div 2) < int (2 ^ 63)" using assms(3) by (simp only: of_nat_less_iff)
  ultimately show ?thesis unfolding num_seconds_def max_allowed_secs_def by simp
qed

section \<open>Properties\<close>

text \<open>
  C32. A session that runs on time raises no alarm: if every turn of the heartbeat loop is late by
  at most half the longest cadence, the gap check over any database that holds the session's
  heartbeats, among whatever other rows, reports no gap for it.
\<close>

theorem punctual_session_has_no_gap:
  assumes "map row_entry (session_heartbeats rows sid) =
      map (snd \<circ> snd) (heartbeat_run args show_time sid name mn mx n t bs)"
    and "mn \<le> mx" and "3 * mx div 2 < 2 ^ 63" and "\<forall>b\<in>set bs. int (bt_delay b) \<le> nanos (mx div 2)"
    and "\<forall>x. parse_time (show_time x) = Some x"
  shows "\<forall>g\<in>set (find_heartbeat_gaps parse_time rows mx). hg_session g \<noteq> sid"
proof (intro ballI notI)
  let ?hs = "session_heartbeats rows sid" and ?run = "heartbeat_run args show_time sid name mn mx n t bs"
  fix g assume "g \<in> set (find_heartbeat_gaps parse_time rows mx)" and sid: "hg_session g = sid"
  then obtain sid' a b where ab: "(a, b) \<in> set (windows2 (session_heartbeats rows sid'))"
    "g \<in> set (pair_gap parse_time (max_allowed_secs mx) a b)" by (auto simp: gap_mem simp del: pair_gap.simps)
  obtain i where i: "Suc i < length (session_heartbeats rows sid')" "a = session_heartbeats rows sid' ! i" "b = session_heartbeats rows sid' ! Suc i"
    using ab(1) by (auto simp: set_windows2)
  have "a \<in> set (session_heartbeats rows sid')" using i by simp
  with ab(2) sid have same: "sid' = sid" by (auto simp: pair_gap_iff set_session_heartbeats)
  have len: "length ?hs = length bs" using arg_cong [OF assms(1), of length] by simp
  have time: "parse_time (e_timestamp (row_entry (?hs ! j))) = Some (fst (?run ! j))" if "j < length bs" for j
  proof -
    have "row_entry (?hs ! j) = snd (snd (?run ! j))"
      using arg_cong [OF assms(1), of "\<lambda>xs. xs ! j"] that len by simp
    moreover have "(fst (?run ! j), fst (snd (?run ! j)), snd (snd (?run ! j))) \<in> set ?run" using that by simp
    ultimately show ?thesis using heartbeat_run_entry assms(5) by (metis (no_types))
  qed
  have j: "Suc i < length bs" using i(1) same len by simp
  have "num_seconds (fst (?run ! Suc i) - fst (?run ! i)) \<le> max_allowed_secs mx"
    using on_time_allowed [OF conjunct2 [OF random_cadence_range [OF assms(2)]] _ assms(3), of "bt_delay (bs ! Suc i)" "bt_draw (bs ! Suc i)"]
      assms(4) j by (simp add: heartbeat_run_next)
  with ab(2) show False using time [OF j] time [of i] j i(2,3) same by (auto simp: pair_gap_iff)
qed

text \<open>
  A heartbeat's \<open>expected_next_before\<close> is not a deadline that the loop keeps: the cadence it is
  computed from is not the one slept next. For every earlier beat whose draw named the shortest
  cadence and every later one that slept the longest, the next heartbeat comes after the deadline,
  with no delay at all.
\<close>

theorem named_deadline_missed:
  assumes "mn < mx" and "Suc i < length bs" and "random_cadence (bt_next_draw (bs ! i)) mn mx = mn"
    and "random_cadence (bt_draw (bs ! Suc i)) mn mx = mx"
  shows "fst (snd (heartbeat_run args show_time sid name mn mx n t bs ! i)) <
    fst (heartbeat_run args show_time sid name mn mx n t bs ! Suc i)"
proof -
  have "fst (snd (heartbeat_run args show_time sid name mn mx n t bs ! i)) =
      fst (heartbeat_run args show_time sid name mn mx n t bs ! i) + nanos (random_cadence (bt_next_draw (bs ! i)) mn mx)"
    using assms(2)
  proof (induction bs arbitrary: i n t)
    case (Cons b bs)
    then show ?case by (cases i) (simp_all add: Let_def)
  qed simp
  moreover have "nanos mn < nanos mx" using assms(1) by (simp add: nanos_def)
  ultimately show ?thesis using heartbeat_run_next [OF assms(2), of args show_time sid name mn mx n t] assms(3,4) by simp
qed

section \<open>Witnesses\<close>

definition show_instant :: "int \<Rightarrow> string" where
  "show_instant t = (if t < 0 then CHR ''-'' else CHR ''+'') # show_nat (nat \<bar>t\<bar>)"

definition parse_instant :: "string \<Rightarrow> int option" where
  "parse_instant s = (case s of [] \<Rightarrow> None | c # ds \<Rightarrow> Some (if c = CHR ''-'' then - int (digits_val ds) else int (digits_val ds)))"

lemma parse_show_instant: "parse_instant (show_instant t) = Some t"
  by (simp add: parse_instant_def show_instant_def)

definition sample_beats :: "beat list" where
  "sample_beats = [\<lparr>bt_draw = 5, bt_delay = 1000, bt_next_draw = 0\<rparr>, \<lparr>bt_draw = 60, bt_delay = 2000, bt_next_draw = 7\<rparr>]"

definition sample_heartbeats :: "stored_row list" where
  "sample_heartbeats = map (\<lambda>(i, now, dl, e). \<lparr>row_id = i, row_entry = e, row_hash = [], row_prev_hash = None\<rparr>)
     (zip [1, 2] (heartbeat_run (\<lambda>_. None) show_instant ''s'' ''n'' 30 90 0 0 sample_beats))"

lemma sample_heartbeats_read:
  "map row_entry (session_heartbeats sample_heartbeats ''s'') =
     map (snd \<circ> snd) (heartbeat_run (\<lambda>_. None) show_instant ''s'' ''n'' 30 90 0 0 sample_beats)"
  by (simp add: session_heartbeats_def sample_heartbeats_def sample_beats_def Let_def heartbeat_entry_def base_entry_def)

theorem punctual_session_has_no_gap_witness:
  "list_all (\<lambda>g. hg_session g \<noteq> ''s'') (find_heartbeat_gaps parse_instant sample_heartbeats 90)"
  unfolding list_all_iff
  by (rule punctual_session_has_no_gap [OF sample_heartbeats_read])
     (simp_all add: parse_show_instant sample_beats_def nanos_def)

theorem named_deadline_missed_witness:
  "fst (snd (heartbeat_run (\<lambda>_. None) show_instant ''s'' ''n'' 30 90 0 0 sample_beats ! 0)) <
    fst (heartbeat_run (\<lambda>_. None) show_instant ''s'' ''n'' 30 90 0 0 sample_beats ! Suc 0)"
  by (rule named_deadline_missed) (simp_all add: sample_beats_def random_cadence_def)

end
