(* ===== verification/Startup.thy ===== *)
theory Startup
  imports Reset Secrets Recovery
begin

text \<open>
  The start of \<open>proxy::run\<close> (\<open>src/proxy.rs\<close>) and of \<open>serve\<close> (\<open>src/http/server.rs\<close>): what is opened, in
  which order, which failures refuse to start and which are put up with. A start also returns the rows
  it has handed to the writer, because a later step can still fail.

  Parameters: what the database file, the key file and the bundled patterns give when they are opened,
  whether the writer's connection opens, the outcome of creating a lease, what recovery meets, whether
  the target spawns, and whether an address can be bound.
\<close>

record start_env =
  st_world :: world
  st_home :: "string option"
  st_parsers :: parsers
  st_db_existed :: bool
  st_opened :: "database result"
  st_keyfile :: "bytes option"
  st_writer :: "unit result"
  st_lease :: "string \<Rightarrow> lease result"
  st_recovered :: "(nat \<times> tool_call_entry list) result"
  st_args :: "synthetic_args \<Rightarrow> string option"
  st_now :: string
  st_patterns :: "pattern list result"
  st_allowlist_db :: "database result"
  st_spawns :: "string list \<Rightarrow> bool"
  st_binds :: "socket_addr \<Rightarrow> bool"
  st_on_path :: "string \<Rightarrow> string option"
  st_windows :: bool

section \<open>The target command on Windows\<close>

text \<open>Lower-casing is that of ASCII, which is all that can match the three endings.\<close>

definition wrap_shim :: "string \<Rightarrow> string list \<Rightarrow> string list" where
  "wrap_shim shim rest = [''cmd'', ''/c'', shim] @ rest"

definition maybe_wrap_windows_shim :: "bool \<Rightarrow> (string \<Rightarrow> string option) \<Rightarrow> string list \<Rightarrow> string list" where
  "maybe_wrap_windows_shim windows find_on_path target =
     (if \<not> windows then target
      else case target of
        [] \<Rightarrow> target
      | program # rest \<Rightarrow>
          (let lower = to_lower program in
           if CHR 0x5C \<in> set program \<or> CHR ''/'' \<in> set program then target
           else if ends_with lower ''.exe'' then target
           else if ends_with lower ''.cmd'' \<or> ends_with lower ''.bat''
           then wrap_shim (case find_on_path program of Some full \<Rightarrow> full | None \<Rightarrow> program) rest
           else case find_on_path (program @ ''.exe'') of
             Some _ \<Rightarrow> target
           | None \<Rightarrow>
               (case find_on_path (program @ ''.cmd'') of
                  Some shim \<Rightarrow> wrap_shim shim rest
                | None \<Rightarrow>
                    (case find_on_path (program @ ''.bat'') of Some shim \<Rightarrow> wrap_shim shim rest | None \<Rightarrow> target))))"

section \<open>What both commands open\<close>

record audit =
  au_mode :: chain_mode
  au_lease :: "lease option"
  au_anchor :: "(string \<times> bytes \<times> nat) option"
  au_patterns :: "pattern list"
  au_allowlist :: "string set"

definition start_row :: "start_env \<Rightarrow> string \<Rightarrow> string \<Rightarrow> chain_mode \<Rightarrow> lease option \<Rightarrow> tool_call_entry" where
  "start_row e sid name mode held =
     (let (mn, mx) = mode_heartbeat_cadence mode
      in session_start_entry (st_args e) (st_now e) sid name mn mx (map_option le_id held))"

definition end_row :: "start_env \<Rightarrow> string \<Rightarrow> string \<Rightarrow> tool_call_entry" where
  "end_row e sid name = session_end_entry (st_args e) (st_now e) sid name"

text \<open>The anchor task needs its path; without a key there is none, with a warning.\<close>

definition anchor_plan :: "start_env \<Rightarrow> config \<Rightarrow> chain_mode \<Rightarrow> (string \<times> bytes \<times> nat) option result" where
  "anchor_plan e c mode =
     (if \<not> ac_enabled (cf_anchor c) then Inr None
      else case mode_anchor_key mode of
        None \<Rightarrow> Inr None
      | Some key \<Rightarrow>
          and_then (resolve_anchor_path (st_home e) (ac_path (cf_anchor c))) (\<lambda>path. Inr (Some (path, key, ac_cadence_secs (cf_anchor c)))))"

definition allowlist_or_empty :: "database result \<Rightarrow> string set" where
  "allowlist_or_empty opened = (case and_then opened load_allowlist of Inr hs \<Rightarrow> hs | Inl _ \<Rightarrow> {})"

text \<open>From the key path to the allowlist: the same steps in both commands.\<close>

definition open_audit ::
  "start_env \<Rightarrow> config \<Rightarrow> string \<Rightarrow> string \<Rightarrow> audit result \<times> tool_call_entry list" where
  "open_audit e c sid name =
     (case and_then (resolved_key_path (st_home e) c) (\<lambda>key_path.
           and_then (fst (bootstrap (st_world e) (st_db_existed e) (st_opened e) (st_keyfile e) (genesis_of c))) (\<lambda>mode.
           and_then (st_writer e) (\<lambda>_. Inr mode))) of
        Inl x \<Rightarrow> (Inl x, [])
      | Inr mode \<Rightarrow>
          (let held = (case st_lease e (lg_db_path (cf_logging c)) of Inr h \<Rightarrow> Some h | Inl _ \<Rightarrow> None);
               markers = (case st_recovered e of Inr (n, es) \<Rightarrow> es | Inl _ \<Rightarrow> []);
               logged = markers @ (if hc_enabled (cf_heartbeat c) then [start_row e sid name mode held] else [])
           in case and_then (anchor_plan e c mode) (\<lambda>plan. and_then (st_patterns e) (\<lambda>ps. Inr (plan, ps))) of
                Inl x \<Rightarrow> (Inl x, logged)
              | Inr (plan, ps) \<Rightarrow>
                  (Inr \<lparr>au_mode = mode, au_lease = held, au_anchor = plan, au_patterns = ps,
                        au_allowlist = allowlist_or_empty (st_allowlist_db e)\<rparr>, logged)))"

section \<open>run\<close>

text \<open>The audit state, the command spawned, and the name rows are logged under.\<close>

definition run_start ::
  "start_env \<Rightarrow> config result \<Rightarrow> string \<Rightarrow> string list \<Rightarrow> (audit \<times> string list \<times> string) result \<times> tool_call_entry list" where
  "run_start e loaded sid cli_target =
     (case and_then loaded (\<lambda>c. and_then (resolve_target c cli_target) (\<lambda>target. Inr (c, target))) of
        Inl x \<Rightarrow> (Inl x, [])
      | Inr (c, target) \<Rightarrow>
          (let name = server_name_for c (hd target);
               command = maybe_wrap_windows_shim (st_windows e) (st_on_path e) target
           in case open_audit e c sid name of
                (Inl x, logged) \<Rightarrow> (Inl x, logged)
              | (Inr a, logged) \<Rightarrow>
                  if st_spawns e command then (Inr (a, command, name), logged)
                  else (Inl (Invalid ''failed to spawn target command''), logged)))"

section \<open>serve\<close>

definition serve_heartbeat_server_name :: string where "serve_heartbeat_server_name = ''auditmcp-serve''"

text \<open>Every address is bound before any listener is built.\<close>

fun bind_all :: "start_env \<Rightarrow> server_config list \<Rightarrow> (socket_addr \<times> server_config) list result" where
  "bind_all e [] = Inr []"
| "bind_all e (s # ss) =
     and_then (socket_addr_of (st_parsers e) s) (\<lambda>a.
     if st_binds e a then and_then (bind_all e ss) (\<lambda>bs. Inr ((a, s) # bs))
     else Inl (IoFailed ''could not bind''))"

fun build_listeners :: "start_env \<Rightarrow> (socket_addr \<times> server_config) list \<Rightarrow> (socket_addr \<times> server_config) list result" where
  "build_listeners e [] = Inr []"
| "build_listeners e ((a, s) # bs) =
     and_then (upstream_uri (st_parsers e) s) (\<lambda>_. and_then (build_listeners e bs) (\<lambda>ls. Inr ((a, s) # ls)))"

definition serve_start ::
  "start_env \<Rightarrow> config result \<Rightarrow> string \<Rightarrow> (audit \<times> (socket_addr \<times> server_config) list) result \<times> tool_call_entry list" where
  "serve_start e loaded uuid =
     (case and_then loaded (\<lambda>c. and_then (http_servers c) (\<lambda>servers. Inr (c, servers))) of
        Inl x \<Rightarrow> (Inl x, [])
      | Inr (c, servers) \<Rightarrow>
          (case open_audit e c (''serve:'' @ uuid) serve_heartbeat_server_name of
             (Inl x, logged) \<Rightarrow> (Inl x, logged)
           | (Inr a, logged) \<Rightarrow>
               (case and_then (bind_all e servers) (build_listeners e) of
                  Inl x \<Rightarrow> (Inl x, logged)
                | Inr ls \<Rightarrow> (Inr (a, ls), logged))))"

text \<open>The last row of a session that ends properly.\<close>

definition closing_row :: "start_env \<Rightarrow> config \<Rightarrow> string \<Rightarrow> string \<Rightarrow> tool_call_entry list" where
  "closing_row e c sid name = (if hc_enabled (cf_heartbeat c) then [end_row e sid name] else [])"

section \<open>Lemmas\<close>

lemma open_audit_ok:
  assumes "open_audit e c sid name = (Inr a, logged)"
  shows "fst (bootstrap (st_world e) (st_db_existed e) (st_opened e) (st_keyfile e) (genesis_of c)) = Inr (au_mode a)"
    and "st_writer e = Inr ()" and "st_patterns e = Inr (au_patterns a)"
    and "au_allowlist a = allowlist_or_empty (st_allowlist_db e)"
    and "hc_enabled (cf_heartbeat c) \<Longrightarrow> last logged = start_row e sid name (au_mode a) (au_lease a)"
    and "hc_enabled (cf_heartbeat c) \<Longrightarrow> logged \<noteq> []"
    and "anchor_plan e c (au_mode a) = Inr (au_anchor a)"
  using assms by (auto simp: open_audit_def and_then_Inr Let_def split: sum.splits prod.splits)

lemma run_start_ok:
  assumes "run_start e (Inr c) sid cli = (Inr (a, command, name), logged)"
  obtains target where "resolve_target c cli = Inr target" and "name = server_name_for c (hd target)"
    and "open_audit e c sid name = (Inr a, logged)" and "st_spawns e command"
  using assms by (auto simp: run_start_def and_then_Inr Let_def split: sum.splits prod.splits if_splits)

lemma serve_start_ok:
  assumes "serve_start e (Inr c) uuid = (Inr (a, ls), logged)"
  obtains servers where "http_servers c = Inr servers"
    and "open_audit e c (''serve:'' @ uuid) serve_heartbeat_server_name = (Inr a, logged)"
    and "and_then (bind_all e servers) (build_listeners e) = Inr ls"
  using assms by (auto simp: serve_start_def and_then_Inr split: sum.splits prod.splits)

lemma bind_all_ok: "bind_all e ss = Inr bs \<Longrightarrow> map snd bs = ss \<and> (\<forall>(a, s)\<in>set bs. socket_addr_of (st_parsers e) s = Inr a \<and> st_binds e a)"
  by (induction ss arbitrary: bs) (auto simp: and_then_Inr split: if_splits)

lemma build_listeners_ok: "build_listeners e bs = Inr ls \<Longrightarrow> ls = bs \<and> (\<forall>(a, s)\<in>set bs. upstream_uri (st_parsers e) s = Inr ())"
  by (induction e bs arbitrary: ls rule: build_listeners.induct) (auto simp: and_then_Inr)

end
