(* ===== verification/StartupProps.thy ===== *)
theory StartupProps
  imports Startup ResetProps RecoveryProps
begin

text \<open>
  What a start promises, across the components it puts together: configuration, bootstrap, writer,
  secret patterns, listeners, the lifecycle rows, and what a later start's recovery makes of them.
\<close>

lemma load_servers:
  assumes "load px pf parse_toml read_file path = Inr c"
  shows "list_all (server_ok px) (cf_server c)"
proof -
  have "validate px c = Inr ()" if "load_default px pf = Inr c"
    using that by (auto simp: load_default_def and_then_Inr Let_def)
  moreover have "\<exists>c'. validate px c' = Inr () \<and> cf_server c = cf_server c'" if "load_file px pf parse_toml x p = Inr c" for x p
    using that by (auto simp: load_file_def and_then_Inr Let_def split: option.splits) blast
  ultimately obtain c' where "validate px c' = Inr ()" and "cf_server c = cf_server c'"
    using assms unfolding load_def by metis
  then show ?thesis unfolding validate_exact by metis
qed

section \<open>Finding the start row again\<close>

lemma scan_keeps_start:
  "c \<in> set (fst acc) \<Longrightarrow> c \<in> set (fst (foldl (scan_row parse) acc rows))"
  by (induction rows arbitrary: acc) (auto simp: scan_row_def Let_def split: prod.splits option.splits if_splits)

lemma scan_closed:
  "snd (foldl (scan_row parse) acc rows) \<subseteq> snd acc \<union> {e_session_id (row_entry r) | r. r \<in> set rows \<and>
     e_tool_name (row_entry r) \<noteq> session_start_tool_name}"
proof (induction rows arbitrary: acc)
  case (Cons r rows)
  have "snd (scan_row parse acc r) \<subseteq> snd acc \<union> {e_session_id (row_entry r) | x. e_tool_name (row_entry r) \<noteq> session_start_tool_name}"
    by (auto simp: scan_row_def Let_def split: prod.splits option.splits if_splits)
  with Cons.IH [of "scan_row parse acc r"] show ?case by fastforce
qed simp

lemma scan_other:
  "e_session_id (row_entry r) \<noteq> sid \<Longrightarrow> sid \<notin> cd_session_id ` set (fst acc) \<Longrightarrow>
     sid \<notin> cd_session_id ` set (fst (scan_row parse acc r))"
  by (auto simp: scan_row_def Let_def split: prod.splits option.splits if_splits)

lemma scan_others:
  "\<forall>r\<in>set rows. e_session_id (row_entry r) \<noteq> sid \<Longrightarrow> sid \<notin> cd_session_id ` set (fst acc) \<Longrightarrow>
     sid \<notin> cd_session_id ` set (fst (foldl (scan_row parse) acc rows))"
  by (induction rows arbitrary: acc) (simp_all add: scan_other)

text \<open>A session whose only lifecycle row is a start under a lease is a candidate.\<close>

lemma lone_start_is_candidate:
  assumes "filter is_lifecycle (rows_by_id d) = xs @ r # ys" and "\<forall>l n. \<not> sql_fails d l n"
    and "\<forall>x\<in>set xs \<union> set ys. e_session_id (row_entry x) \<noteq> sid" and "e_session_id (row_entry r) = sid"
    and "e_tool_name (row_entry r) = session_start_tool_name"
    and "start_args_of parse r = Some \<lparr>sa_started_at = t, sa_liveness = Some \<lparr>la_mechanism = lease_mechanism, la_lease_id = l\<rparr>\<rparr>"
  shows "\<exists>cs. candidates parse d = Inr cs \<and> \<lparr>cd_session_id = sid, cd_lease_id = l\<rparr> \<in> set cs"
proof -
  let ?c = "\<lparr>cd_session_id = sid, cd_lease_id = l\<rparr>" and ?scan = "foldl (scan_row parse)"
  let ?acc = "?scan ([], {}) xs"
  have "sid \<notin> cd_session_id ` set (fst ?acc)" by (rule scan_others) (use assms(3) in auto)
  then have "?c \<in> set (fst (scan_row parse ?acc r))"
    using assms(4-6) by (auto simp: scan_row_def Let_def split: prod.splits)
  then have "?c \<in> set (fst (?scan ([], {}) (xs @ r # ys)))" using scan_keeps_start by simp
  moreover have "sid \<notin> snd (?scan ([], {}) (xs @ r # ys))"
    using scan_closed [of parse "([], {})" "xs @ r # ys"] assms(3-5) by fastforce
  ultimately show ?thesis
    using assms(1,2) by (auto simp: candidates_def sql_def case_prod_beta)
qed

lemma open_audit_logged:
  "open_audit e c sid name = (Inr a, logged) \<Longrightarrow>
     logged = (case st_recovered e of Inr (n, es) \<Rightarrow> es | Inl _ \<Rightarrow> []) @
       (if hc_enabled (cf_heartbeat c) then [start_row e sid name (au_mode a) (au_lease a)] else [])"
  by (auto simp: open_audit_def Let_def split: sum.splits prod.splits)

section \<open>Properties\<close>

text \<open>
  C29. Nothing is proxied unless it can be recorded and redacted: when \<open>run\<close> gets as far as the
  target, the database it writes to has metadata and rows that verify under the session's key, the
  writer's connection is open, and the patterns that are used are the bundled ones, all of which
  loaded. The allowlist alone may fall back, to the empty set, which redacts more.
\<close>

theorem run_starts_recordable:
  assumes "run_start e (Inr c) sid cli = (Inr (a, command, name), logged)" and "st_opened e = Inr d"
    and "hc_cadence_min_secs (cf_heartbeat c) < 2 ^ 64" and "hc_cadence_max_secs (cf_heartbeat c) < 2 ^ 64"
    and "\<forall>l n. \<not> sql_fails d l n"
    and "st_db_existed e \<or> chain_metadata d ''db_uuid'' \<noteq> None \<or> tool_calls d = []"
  shows "(\<exists>d' m n. fst (snd (bootstrap (st_world e) (st_db_existed e) (Inr d) (st_keyfile e) (genesis_of c))) = Some d' \<and>
      verify_chain_metadata_hmac (w_mac (st_world e)) d' (cm_chain_key (au_mode a)) m = Inr True \<and>
      verify_chain_with_key (w_mac (st_world e)) (w_canon (st_world e)) d' (mode_hash_key (au_mode a)) = Inr (Inr n)) \<and>
    st_writer e = Inr () \<and> st_patterns e = Inr (au_patterns a) \<and>
    (au_allowlist a = {} \<or> (\<exists>conn. st_allowlist_db e = Inr conn \<and> au_allowlist a = dom (secret_allowlist conn)))"
proof -
  obtain target where o: "open_audit e c sid name = (Inr a, logged)" by (rule run_start_ok [OF assms(1)])
  note ok = open_audit_ok [OF o]
  obtain db' k where b: "bootstrap (st_world e) (st_db_existed e) (Inr d) (st_keyfile e) (genesis_of c) = (Inr (au_mode a), db', k)"
    using ok(1) assms(2) by (metis prod.collapse)
  from bootstrap_only_verified_chains [OF b _ _ assms(5,6)] assms(3,4)
  obtain d' m n where "db' = Some d'"
    "verify_chain_metadata_hmac (w_mac (st_world e)) d' (cm_chain_key (au_mode a)) m = Inr True"
    "verify_chain_with_key (w_mac (st_world e)) (w_canon (st_world e)) d' (mode_hash_key (au_mode a)) = Inr (Inr n)"
    by (auto simp: genesis_of_def)
  moreover have "au_allowlist a = {} \<or> (\<exists>conn. st_allowlist_db e = Inr conn \<and> au_allowlist a = dom (secret_allowlist conn))"
    using ok(4) by (auto simp: allowlist_or_empty_def and_then_Inr load_allowlist_def split: sum.splits)
  ultimately show ?thesis using b ok(2,3) by auto
qed

text \<open>
  C30. \<open>serve\<close> listens on loopback only: with any configuration that loads, every listener of a
  start that succeeds, one for each configured server, is bound to a loopback address and mirrors an
  upstream with a scheme and a host.
\<close>

theorem serve_listens_on_loopback:
  assumes "load (st_parsers e) pf parse_toml read_file path = Inr c"
    and "serve_start e (Inr c) uuid = (Inr (a, ls), logged)"
  shows "ls \<noteq> [] \<and> map snd ls = cf_server c \<and>
    (\<forall>(addr, s)\<in>set ls. is_loopback addr \<and> st_binds e addr \<and> upstream_uri (st_parsers e) s = Inr ())"
proof -
  obtain servers where srv: "http_servers c = Inr servers" and l: "and_then (bind_all e servers) (build_listeners e) = Inr ls"
    by (rule serve_start_ok [OF assms(2)])
  then have servers: "servers = cf_server c" "servers \<noteq> []" by (auto simp: http_servers_def split: if_splits)
  from l obtain bs where bs: "bind_all e servers = Inr bs" "build_listeners e bs = Inr ls" by (auto simp: and_then_Inr)
  note bound = bind_all_ok [OF bs(1)] and built = build_listeners_ok [OF bs(2)]
  have "is_loopback addr" if "(addr, s) \<in> set ls" for addr s
  proof -
    have bs: "(addr, s) \<in> set bs" using that built by simp
    then have "s \<in> set (map snd bs)" by force
    then have "s \<in> set (cf_server c)" "socket_addr_of (st_parsers e) s = Inr addr"
      using bound servers(1) bs by auto
    with load_servers [OF assms(1)] show ?thesis
      by (auto simp: list_all_iff server_ok_def socket_addr_of_def split: option.splits)
  qed
  with bound built servers show ?thesis by auto
qed

text \<open>
  A session that was cut off is found: once its start row is stored and no row closes it, the
  next start's scan has it as a candidate under the lease of that row, and whoever then holds the
  lease writes its marker.
\<close>

theorem cut_off_session_recovered:
  assumes "run_start e (Inr c) sid cli = (Inr (a, command, name), logged)" and "hc_enabled (cf_heartbeat c)"
    and "au_lease a = Some h" and "start_json_ok w" and "si_args w = st_args e"
    and "filter is_lifecycle (rows_by_id d) = xs @ r # ys" and "row_entry r = last logged"
    and "\<forall>x\<in>set xs \<union> set ys. e_session_id (row_entry x) \<noteq> sid" and "\<forall>l n. \<not> sql_fails d l n"
  shows "\<exists>cs. candidates (si_start w) d = Inr cs \<and> \<lparr>cd_session_id = sid, cd_lease_id = le_id h\<rparr> \<in> set cs \<and>
    (\<exists>m. marker_for (si_start w) args' now detected_at (Inr d) \<lparr>cd_session_id = sid, cd_lease_id = le_id h\<rparr> h = Some m \<and>
       e_session_id m = sid \<and> e_tool_name m = session_abandoned_tool_name \<and> e_server_name m = Some name)"
proof -
  obtain target where o: "open_audit e c sid name = (Inr a, logged)" by (rule run_start_ok [OF assms(1)])
  obtain mn mx where r: "row_entry r = session_start_entry (st_args e) (st_now e) sid name mn mx (Some (le_id h))"
    using open_audit_ok(5) [OF o assms(2)] assms(3,7) by (auto simp: start_row_def case_prod_beta)
  note e = session_start_entry_def base_entry_def
  have args: "start_args_of (si_start w) r = Some \<lparr>sa_started_at = Some (st_now e),
      sa_liveness = Some \<lparr>la_mechanism = lease_mechanism, la_lease_id = le_id h\<rparr>\<rparr>"
    using assms(4,5) by (simp add: start_args_of_def r e start_json_ok_def)
  have own: "filter (\<lambda>x. e_session_id (row_entry x) = sid \<and> is_lifecycle x) (rows_by_id d) = [r]"
  proof -
    have "filter (\<lambda>x. e_session_id (row_entry x) = sid \<and> is_lifecycle x) (rows_by_id d) =
        filter (\<lambda>x. e_session_id (row_entry x) = sid) (filter is_lifecycle (rows_by_id d))"
      by (simp add: conj_commute)
    also have "\<dots> = [r]" using assms(6,8) by (simp add: r e)
    finally show ?thesis .
  qed
  have "\<exists>m. marker_for (si_start w) args' now detected_at (Inr d) \<lparr>cd_session_id = sid, cd_lease_id = le_id h\<rparr> h = Some m \<and>
      e_session_id m = sid \<and> e_tool_name m = session_abandoned_tool_name \<and> e_server_name m = Some name"
    using args assms(9)
    by (simp add: marker_for_def session_state_def sql_def own Let_def lifecycle_row_def start_lease_def no_lifecycle_def r e
        session_abandoned_entry_def)
  with lone_start_is_candidate [OF assms(6,9,8) _ _ args] show ?thesis by (simp add: r e)
qed

text \<open>
  A start that fails late leaves its session open: when the target does not spawn, the start row
  has been handed to the writer and nothing handed over closes the session, so that a later recovery
  reports a session as abandoned that never proxied anything.
\<close>

theorem failed_spawn_leaves_session_open:
  assumes "run_start e (Inr c) sid cli = (Inl x, logged)" and "x = Invalid ''failed to spawn target command''"
    and "hc_enabled (cf_heartbeat c)" and "st_patterns e = Inr ps"
    and "fst (open_audit e c sid (server_name_for c (hd target))) = Inr a" and "resolve_target c cli = Inr target"
    and "\<forall>n es. st_recovered e = Inr (n, es) \<longrightarrow> (\<forall>m\<in>set es. e_session_id m \<noteq> sid)"
  shows "start_row e sid (server_name_for c (hd target)) (au_mode a) (au_lease a) \<in> set logged \<and>
    (\<forall>m\<in>set logged. e_session_id m = sid \<longrightarrow> e_tool_name m = session_start_tool_name)"
proof -
  have o: "open_audit e c sid (server_name_for c (hd target)) = (Inr a, logged)"
    using assms(1,5,6) by (auto simp: run_start_def Let_def split: prod.splits sum.splits if_splits)
  have "start_row e sid (server_name_for c (hd target)) (au_mode a) (au_lease a) \<in> set logged"
    using open_audit_ok(5,6) [OF o assms(3)] by (metis last_in_set)
  moreover have "e_tool_name (start_row e sid n m h) = session_start_tool_name" for n m h
    by (simp add: start_row_def case_prod_beta session_start_entry_def base_entry_def)
  then have "\<forall>m\<in>set logged. e_session_id m = sid \<longrightarrow> e_tool_name m = session_start_tool_name"
    using open_audit_logged [OF o] assms(7) by (auto split: if_splits sum.splits)
  ultimately show ?thesis by blast
qed

section \<open>Witnesses\<close>

definition toy_server :: server_config where
  "toy_server = \<lparr>sv_name = ''srv'', sv_upstream = ''http://h'', sv_listen = ''lo'', sv_request_timeout_secs = 60,
     sv_allowed_origins = None\<rparr>"

definition toy_start_config :: config where
  "toy_start_config = toy_reset_config\<lparr>cf_server := [toy_server],
     cf_logging := \<lparr>lg_db_path = ''/db'', lg_default_tier = default_tier, lg_tool_overrides = []\<rparr>,
     cf_key_path := ''/key'', cf_anchor := default_anchor\<lparr>ac_path := ''/anchor''\<rparr>\<rparr>"

definition toy_platform :: platform where
  "toy_platform = \<lparr>pf_xdg_state_home = Some ''/s'', pf_home = None, pf_absolute = Inr, pf_sha256 = id\<rparr>"

definition toy_start :: "bool \<Rightarrow> start_env" where
  "toy_start spawns =
     \<lparr>st_world = toy_world, st_home = None,
      st_parsers = \<lparr>px_addr = (\<lambda>_. Some (V4 [127, 0, 0, 1] 8787)), px_scheme_host = (\<lambda>_. Some (Some ''http'', True))\<rparr>,
      st_db_existed = False, st_opened = Inr empty_database, st_keyfile = None, st_writer = Inr (),
      st_lease = (\<lambda>_. Inr \<lparr>le_id = ''u'', le_path = ''p''\<rparr>), st_recovered = Inr (0, []), st_args = toy_start_text, st_now = ''t'',
      st_patterns = Inr [], st_allowlist_db = Inl (DbFailed ''open''), st_spawns = (\<lambda>_. spawns), st_binds = (\<lambda>_. True),
      st_on_path = (\<lambda>_. None), st_windows = False\<rparr>"

lemma toy_start_fields [simp]:
  "st_world (toy_start b) = toy_world" "st_home (toy_start b) = None" "st_db_existed (toy_start b) = False"
  "st_opened (toy_start b) = Inr empty_database" "st_keyfile (toy_start b) = None" "st_writer (toy_start b) = Inr ()"
  "st_lease (toy_start b) p = Inr \<lparr>le_id = ''u'', le_path = ''p''\<rparr>" "st_recovered (toy_start b) = Inr (0, [])"
  "st_args (toy_start b) = toy_start_text" "st_patterns (toy_start b) = Inr []" "st_allowlist_db (toy_start b) = Inl (DbFailed ''open'')"
  "st_spawns (toy_start b) x = b" "st_binds (toy_start b) y = True" "st_windows (toy_start b) = False"
  by (simp_all add: toy_start_def)

lemma toy_paths:
  "resolved_key_path None toy_start_config = Inr ''/key''"
  "resolve_anchor_path None (ac_path (cf_anchor toy_start_config)) = Inr ''/anchor''"
  "ac_enabled (cf_anchor toy_start_config)" "hc_enabled (cf_heartbeat toy_start_config)"
  "genesis_of toy_start_config = default_genesis"
  by (simp_all add: toy_start_config_def toy_reset_config_def resolved_key_path_def resolve_anchor_path_def expand_tilde_def
      strip_prefix_def starts_with_def default_anchor_def default_heartbeat_def genesis_of_def default_genesis_def)

text \<open>Opening succeeds; the lease is \<open>u\<close>, and the start row is the only row handed over.\<close>

lemma toy_open:
  obtains a where "open_audit (toy_start b) toy_start_config sid name = (Inr a, [start_row (toy_start b) sid name (au_mode a) (au_lease a)])"
    and "au_lease a = Some \<lparr>le_id = ''u'', le_path = ''p''\<rparr>"
proof -
  obtain mode d' k where boot: "bootstrap toy_world False (Inr empty_database) None default_genesis = (Inr mode, Some d', k)"
    by (rule toy_bootstrap)
  obtain ck ak mn mx where mode: "mode = HmacMode ck ak mn mx" by (cases mode)
  show thesis
    by (rule that [of "\<lparr>au_mode = mode, au_lease = Some \<lparr>le_id = ''u'', le_path = ''p''\<rparr>,
          au_anchor = Some (''/anchor'', ak, ac_cadence_secs (cf_anchor toy_start_config)), au_patterns = [], au_allowlist = {}\<rparr>"])
       (simp_all add: open_audit_def toy_paths boot mode anchor_plan_def allowlist_or_empty_def Let_def)
qed

lemma toy_run:
  obtains a where "run_start (toy_start True) (Inr toy_start_config) ''s'' [''x''] =
      (Inr (a, [''x''], ''x''), [start_row (toy_start True) ''s'' ''x'' (au_mode a) (au_lease a)])"
    and "au_lease a = Some \<lparr>le_id = ''u'', le_path = ''p''\<rparr>"
proof -
  have name: "server_name_for toy_start_config ''x'' = ''x''"
    by (simp add: server_name_for_def toy_start_config_def toy_reset_config_def path_separator_def)
  obtain a where "open_audit (toy_start True) toy_start_config ''s'' ''x'' =
      (Inr a, [start_row (toy_start True) ''s'' ''x'' (au_mode a) (au_lease a)])" and "au_lease a = Some \<lparr>le_id = ''u'', le_path = ''p''\<rparr>"
    by (rule toy_open)
  then show thesis
    by (intro that [of a]) (simp_all add: run_start_def resolve_target_def name maybe_wrap_windows_shim_def Let_def)
qed

theorem run_starts_recordable_witness:
  "\<exists>a logged d' m n. run_start (toy_start True) (Inr toy_start_config) ''s'' [''x''] = (Inr (a, [''x''], ''x''), logged) \<and>
     fst (snd (bootstrap toy_world False (Inr empty_database) None default_genesis)) = Some d' \<and>
     verify_chain_metadata_hmac toy_mac d' (cm_chain_key (au_mode a)) m = Inr True \<and>
     verify_chain_with_key toy_mac toy_canon d' (mode_hash_key (au_mode a)) = Inr (Inr n)"
proof -
  obtain a where r: "run_start (toy_start True) (Inr toy_start_config) ''s'' [''x''] =
      (Inr (a, [''x''], ''x''), [start_row (toy_start True) ''s'' ''x'' (au_mode a) (au_lease a)])" by (rule toy_run)
  have "hc_cadence_min_secs (cf_heartbeat toy_start_config) < 2 ^ 64" "hc_cadence_max_secs (cf_heartbeat toy_start_config) < 2 ^ 64"
    by (simp_all add: toy_start_config_def toy_reset_config_def default_heartbeat_def)
  moreover have "tool_calls empty_database = []" by (simp add: empty_database_def)
  ultimately show ?thesis
    using run_starts_recordable [OF r _ _ _ empty_no_fault] r by (simp add: toy_paths)
qed

text \<open>The start row of that run, stored.\<close>

theorem cut_off_session_recovered_witness:
  "\<exists>a row m. run_start (toy_start True) (Inr toy_start_config) ''s'' [''x''] = (Inr (a, [''x''], ''x''), [row_entry row]) \<and>
     marker_for toy_start_parse toy_start_text ''t'' ''t'' (Inr (empty_database\<lparr>tool_calls := [row]\<rparr>))
       \<lparr>cd_session_id = ''s'', cd_lease_id = ''u''\<rparr> \<lparr>le_id = ''u'', le_path = ''p''\<rparr> = Some m"
proof -
  obtain a where r: "run_start (toy_start True) (Inr toy_start_config) ''s'' [''x''] =
      (Inr (a, [''x''], ''x''), [start_row (toy_start True) ''s'' ''x'' (au_mode a) (au_lease a)])"
    and l: "au_lease a = Some \<lparr>le_id = ''u'', le_path = ''p''\<rparr>" by (rule toy_run)
  define row where "row = \<lparr>row_id = 1, row_entry = start_row (toy_start True) ''s'' ''x'' (au_mode a) (au_lease a),
    row_hash = [], row_prev_hash = None\<rparr>"
  have "is_lifecycle row"
    by (simp add: row_def is_lifecycle_def lifecycle_names_def start_row_def case_prod_beta session_start_entry_def base_entry_def)
  then have rows: "filter is_lifecycle (rows_by_id (empty_database\<lparr>tool_calls := [row]\<rparr>)) = [] @ row # []"
    by (simp add: rows_by_id_def)
  have "\<forall>l n. \<not> sql_fails (empty_database\<lparr>tool_calls := [row]\<rparr>) l n" by (simp add: empty_database_def)
  moreover have re: "row_entry row = last [start_row (toy_start True) ''s'' ''x'' (au_mode a) (au_lease a)]" by (simp add: row_def)
  ultimately obtain m where "marker_for toy_start_parse toy_start_text ''t'' ''t'' (Inr (empty_database\<lparr>tool_calls := [row]\<rparr>))
      \<lparr>cd_session_id = ''s'', cd_lease_id = ''u''\<rparr> \<lparr>le_id = ''u'', le_path = ''p''\<rparr> = Some m"
    using cut_off_session_recovered [OF r toy_paths(4) l toy_start_json_ok _ rows re, of toy_start_text "''t''" "''t''"]
    by (auto simp: toy_site_def)
  with r re show ?thesis by (intro exI [of _ a] exI [of _ row] exI [of _ m]) simp
qed

theorem failed_spawn_leaves_session_open_witness:
  "\<exists>(a :: audit) logged. run_start (toy_start False) (Inr toy_start_config) ''s'' [''x''] = (Inl (Invalid ''failed to spawn target command''), logged) \<and>
     start_row (toy_start False) ''s'' ''x'' (au_mode a) (au_lease a) \<in> set logged"
proof -
  have name: "server_name_for toy_start_config ''x'' = ''x''"
    by (simp add: server_name_for_def toy_start_config_def toy_reset_config_def path_separator_def)
  obtain a where o: "open_audit (toy_start False) toy_start_config ''s'' ''x'' =
      (Inr a, [start_row (toy_start False) ''s'' ''x'' (au_mode a) (au_lease a)])" by (rule toy_open)
  have target: "resolve_target toy_start_config [''x''] = Inr [''x'']" by (simp add: resolve_target_def)
  have r: "run_start (toy_start False) (Inr toy_start_config) ''s'' [''x''] =
      (Inl (Invalid ''failed to spawn target command''), [start_row (toy_start False) ''s'' ''x'' (au_mode a) (au_lease a)])"
    using o by (simp add: run_start_def target name maybe_wrap_windows_shim_def Let_def)
  have "start_row (toy_start False) ''s'' ''x'' (au_mode a) (au_lease a) \<in>
      set [start_row (toy_start False) ''s'' ''x'' (au_mode a) (au_lease a)]"
    using failed_spawn_leaves_session_open [OF r refl toy_paths(4) toy_start_fields(10) _ target, of a] o by (simp add: name)
  with r show ?thesis by blast
qed

lemma toy_config_loads:
  "load (st_parsers (toy_start b)) toy_platform (\<lambda>_. Some toy_start_config) (\<lambda>_. Inr ''x'') ''/c'' = Inr toy_start_config"
  unfolding toy_start_def toy_start_config_def toy_reset_config_def default_heartbeat_def default_anchor_def by code_simp

theorem serve_listens_on_loopback_witness:
  "\<exists>a ls logged. serve_start (toy_start True) (Inr toy_start_config) ''u'' = (Inr (a, ls), logged) \<and> ls \<noteq> [] \<and>
     list_all (\<lambda>(addr, s). is_loopback addr) ls"
proof -
  obtain a where o: "open_audit (toy_start True) toy_start_config (''serve:'' @ ''u'') serve_heartbeat_server_name =
      (Inr a, [start_row (toy_start True) (''serve:'' @ ''u'') serve_heartbeat_server_name (au_mode a) (au_lease a)])"
    by (rule toy_open)
  have servers: "http_servers toy_start_config = Inr [toy_server]" by (simp add: http_servers_def toy_start_config_def)
  obtain ls where "and_then (bind_all (toy_start True) [toy_server]) (build_listeners (toy_start True)) = Inr ls"
    by (simp add: socket_addr_of_def upstream_uri_def toy_start_def)
  with o servers have s: "serve_start (toy_start True) (Inr toy_start_config) ''u'' = (Inr (a, ls),
      [start_row (toy_start True) (''serve:'' @ ''u'') serve_heartbeat_server_name (au_mode a) (au_lease a)])"
    by (simp add: serve_start_def)
  from serve_listens_on_loopback [OF toy_config_loads s] s show ?thesis by (fastforce simp: list_all_iff)
qed

end
