(* ===== verification/KeyFiles.thy ===== *)
theory KeyFiles
  imports Keys
begin

text \<open>
  The writing of a key file as the operating system sees it (\<open>write_restricted\<close> and
  \<open>write_restricted_new\<close> in \<open>src/keys.rs\<close>), and several processes in \<open>load_or_generate\<close> over one path at
  the same time. \<open>own p\<close> is the key process \<open>p\<close> generates. A process can fail or die between any two
  operations, and a failing write can leave any part of the text behind.
\<close>

section \<open>Permissions while a key is written\<close>

record held_file =
  hf_bytes :: bytes
  hf_private :: bool

text \<open>
  On Unix the mode is given at creation and does not touch a file that exists; on Windows a new file
  inherits its access list, which others can be on, until it is rewritten.
\<close>

datatype key_op = CreateTruncate bool | CreateNew bool | Restrict | WriteAll bytes

fun do_op :: "key_op \<Rightarrow> held_file option \<Rightarrow> held_file option" where
  "do_op (CreateTruncate private) None = Some \<lparr>hf_bytes = [], hf_private = private\<rparr>"
| "do_op (CreateTruncate private) (Some f) = Some (f\<lparr>hf_bytes := []\<rparr>)"
| "do_op (CreateNew private) None = Some \<lparr>hf_bytes = [], hf_private = private\<rparr>"
| "do_op (CreateNew private) (Some f) = Some f"
| "do_op Restrict f = map_option (hf_private_update (\<lambda>_. True)) f"
| "do_op (WriteAll bs) f = map_option (hf_bytes_update (\<lambda>_. bs)) f"

definition write_restricted :: "bool \<Rightarrow> string \<Rightarrow> key_op list" where
  "write_restricted windows json =
     (if windows then [CreateTruncate False, Restrict, WriteAll json]
      else [CreateTruncate True, WriteAll json, Restrict])"

text \<open>Run only where the path was free; otherwise nothing is done.\<close>

definition write_restricted_new :: "bool \<Rightarrow> string \<Rightarrow> key_op list" where
  "write_restricted_new windows json =
     (if windows then [CreateNew False, Restrict, WriteAll json] else [CreateNew True, WriteAll json])"

definition after_ops :: "key_op list \<Rightarrow> nat \<Rightarrow> held_file option \<Rightarrow> held_file option" where
  "after_ops ops n f = fold do_op (take n ops) f"

text \<open>
  What another user reads who opens the path after \<open>i\<close> operations and reads from that handle after
  \<open>j\<close>: access is checked when the file is opened.
\<close>

definition seen_by_others :: "key_op list \<Rightarrow> nat \<Rightarrow> nat \<Rightarrow> bytes option" where
  "seen_by_others ops i j =
     (case after_ops ops i None of
        None \<Rightarrow> None
      | Some f \<Rightarrow> if hf_private f then None else map_option hf_bytes (after_ops ops j None))"

section \<open>Processes racing to create the key\<close>

datatype keyproc = Looking | Missed | Created | Beaten | Holds key_file | Stopped

record keyspot =
  ks_file :: "bytes option"
  ks_proc :: "nat \<Rightarrow> keyproc"

record key_world =
  kw_render :: "key_file \<Rightarrow> string"
  kw_parse :: "string \<Rightarrow> key_file option"
  kw_own :: "nat \<Rightarrow> key_file"

fun after_look :: "key_file option result \<Rightarrow> keyproc" where
  "after_look (Inl e) = Stopped"
| "after_look (Inr None) = Missed"
| "after_look (Inr (Some key)) = Holds key"

fun after_reread :: "key_file option result \<Rightarrow> keyproc" where
  "after_reread (Inr (Some key)) = Holds key"
| "after_reread _ = Stopped"

definition turn :: "keyspot \<Rightarrow> nat \<Rightarrow> keyproc \<Rightarrow> keyspot" where
  "turn s p x = s\<lparr>ks_proc := (ks_proc s)(p := x)\<rparr>"

inductive key_step :: "key_world \<Rightarrow> keyspot \<Rightarrow> keyspot \<Rightarrow> bool" for w where
  look: "ks_proc s p = Looking \<Longrightarrow> key_step w s (turn s p (after_look (load_key (kw_parse w) kio (ks_file s))))"
| create: "ks_proc s p = Missed \<Longrightarrow> ks_file s = None \<Longrightarrow> key_step w s (turn s p Created\<lparr>ks_file := Some []\<rparr>)"
| beaten: "ks_proc s p = Missed \<Longrightarrow> ks_file s = Some raw \<Longrightarrow> key_step w s (turn s p Beaten)"
| fill: "ks_proc s p = Created \<Longrightarrow>
    key_step w s (turn s p (Holds (kw_own w p))\<lparr>ks_file := Some (kw_render w (kw_own w p))\<rparr>)"
| torn: "ks_proc s p = Created \<Longrightarrow> strict_prefix bs (kw_render w (kw_own w p)) \<Longrightarrow>
    key_step w s (turn s p Stopped\<lparr>ks_file := Some bs\<rparr>)"
| reread: "ks_proc s p = Beaten \<Longrightarrow>
    key_step w s (turn s p (after_reread (load_key (kw_parse w) kio (ks_file s))))"
| dies: "key_step w s (turn s p Stopped)"

inductive_cases key_stepE: "key_step w s s'"

inductive key_reach :: "key_world \<Rightarrow> keyspot \<Rightarrow> keyspot \<Rightarrow> bool" for w s where
  none: "key_reach w s s"
| more: "key_reach w s t \<Longrightarrow> key_step w t u \<Longrightarrow> key_reach w s u"

definition all_looking :: "bytes option \<Rightarrow> keyspot" where
  "all_looking file = \<lparr>ks_file = file, ks_proc = (\<lambda>_. Looking)\<rparr>"

definition key_world_ok :: "key_world \<Rightarrow> bool" where
  "key_world_ok w \<longleftrightarrow> kw_parse w [] = None \<and> (\<forall>p. kw_parse w (kw_render w (kw_own w p)) = Some (kw_own w p))"

section \<open>Lemmas\<close>

lemma turn_simps [simp]: "ks_file (turn s p x) = ks_file s" "ks_proc (turn s p x) = (ks_proc s)(p := x)"
  by (simp_all add: turn_def)

lemma after_look_Holds: "after_look r = Holds k \<longleftrightarrow> r = Inr (Some k)"
  by (cases r rule: after_look.cases) simp_all

lemma after_reread_Holds: "after_reread r = Holds k \<longleftrightarrow> r = Inr (Some k)"
  by (cases r rule: after_reread.cases) simp_all

lemma not_Created [simp]: "after_look r \<noteq> Created" "after_reread r \<noteq> Created"
  by (cases r rule: after_look.cases; simp)+

lemmas holding = after_look_Holds after_reread_Holds

definition keyspot_ok :: "key_world \<Rightarrow> keyspot \<Rightarrow> bool" where
  "keyspot_ok w s \<longleftrightarrow>
     (\<forall>p k. ks_proc s p = Holds k \<longrightarrow> (\<exists>raw. ks_file s = Some raw \<and> kw_parse w raw = Some k)) \<and>
     (\<forall>p. ks_proc s p = Created \<longrightarrow> ks_file s = Some []) \<and>
     (\<forall>p q. ks_proc s p = Created \<longrightarrow> ks_proc s q = Created \<longrightarrow> p = q)"

lemma keyspot_ok_step:
  assumes "key_step w s s'" and "keyspot_ok w s" and "key_world_ok w"
  shows "keyspot_ok w s'"
  using assms
proof (induction rule: key_step.induct)
  case (look s p kio)
  then show ?case unfolding keyspot_ok_def by (auto simp: holding dest!: load_key_Some split: if_splits)
next
  case (create s p)
  then show ?case unfolding keyspot_ok_def by (simp split: if_splits)
next
  case (beaten s p raw)
  then show ?case unfolding keyspot_ok_def by (auto split: if_splits)
next
  case (fill s p)
  then have "\<forall>q k. ks_proc s q \<noteq> Holds k" unfolding keyspot_ok_def key_world_ok_def
    by (metis option.distinct(1) option.inject)
  with fill show ?case unfolding keyspot_ok_def key_world_ok_def by (auto split: if_splits)
next
  case (torn s p bs)
  then have "\<forall>q k. ks_proc s q \<noteq> Holds k" unfolding keyspot_ok_def key_world_ok_def
    by (metis option.distinct(1) option.inject)
  with torn show ?case unfolding keyspot_ok_def by (auto split: if_splits)
next
  case (reread s p kio)
  then show ?case unfolding keyspot_ok_def by (auto simp: holding dest!: load_key_Some split: if_splits)
next
  case (dies s p)
  then show ?case unfolding keyspot_ok_def by (auto split: if_splits)
qed

lemma keyspot_ok_reach: "key_reach w s s' \<Longrightarrow> keyspot_ok w s \<Longrightarrow> key_world_ok w \<Longrightarrow> keyspot_ok w s'"
  by (induction rule: key_reach.induct) (auto intro: keyspot_ok_step)

lemma all_looking_ok: "keyspot_ok w (all_looking file)"
  by (simp add: keyspot_ok_def all_looking_def)

text \<open>A file that does not parse and that nobody is writing stays, and nobody comes to hold a key.\<close>

definition stuck :: "key_world \<Rightarrow> bytes \<Rightarrow> keyspot \<Rightarrow> bool" where
  "stuck w bs s \<longleftrightarrow> ks_file s = Some bs \<and> kw_parse w bs = None \<and> (\<forall>q. ks_proc s q \<noteq> Created \<and> (\<forall>k. ks_proc s q \<noteq> Holds k))"

lemma stuck_step: "key_step w s s' \<Longrightarrow> stuck w bs s \<Longrightarrow> stuck w bs s'"
  by (induction rule: key_step.induct) (auto simp: stuck_def holding dest: load_key_Some split: if_splits)

lemma stuck_reach: "key_reach w s s' \<Longrightarrow> stuck w bs s \<Longrightarrow> stuck w bs s'"
  by (induction rule: key_reach.induct) (auto intro: stuck_step)

section \<open>Properties\<close>


text \<open>
  C38. A process that dies between the creation of the key file and its writing leaves an empty file
  that nothing ever repairs: whatever steps any processes take afterwards, the file stays as it is
  and none of them comes to hold a key.
\<close>

theorem interrupted_creation_wedges:
  assumes "key_reach w (all_looking None) s" and "key_world_ok w" and "ks_proc s p = Created"
    and "key_reach w (turn s p Stopped) s'"
  shows "ks_file s' = Some [] \<and> (\<forall>q k. ks_proc s' q \<noteq> Holds k)"
proof -
  have "keyspot_ok w s" by (rule keyspot_ok_reach [OF assms(1) all_looking_ok assms(2)])
  with assms(2,3) have "stuck w [] (turn s p Stopped)"
    unfolding stuck_def keyspot_ok_def key_world_ok_def by auto
  from stuck_reach [OF assms(4) this] show ?thesis by (simp add: stuck_def)
qed

text \<open>
  A key written to a path that was free is never readable by others on Unix, whatever operation
  the writing stops at, and on Windows nobody who opens the path reads a byte of it at once; but the
  file is open to others for one moment on Windows, and a handle opened then reads the key later.
\<close>

theorem key_text_exposure:
  "seen_by_others (write_restricted False json) i j = None \<and> seen_by_others (write_restricted_new False json) i j = None \<and>
   seen_by_others (write_restricted True json) i i \<in> {None, Some []} \<and>
   seen_by_others (write_restricted_new True json) i i \<in> {None, Some []} \<and>
   seen_by_others (write_restricted True json) 1 3 = Some json \<and> seen_by_others (write_restricted_new True json) 1 3 = Some json"
  by (simp add: seen_by_others_def after_ops_def write_restricted_def write_restricted_new_def take_Cons' numeral_3_eq_3)

text \<open>
  A process alone: every run of \<open>load_or_generate\<close> is a run of the step relation, with the same
  key held and the same file left behind, or the same refusal.
\<close>

theorem load_or_generate_runs_alone:
  assumes "load_or_generate (kw_render w) (kw_parse w) kio now rk file file u = (r, file')"
    and "kw_own w p = generate now rk u"
  shows "\<exists>s. key_reach w (all_looking file) s \<and> ks_file s = file' \<and>
    ks_proc s p = (case r of Inr key \<Rightarrow> Holds key | Inl e \<Rightarrow> Stopped)"
proof -
  let ?s = "all_looking file"
  let ?l = "turn ?s p (after_look (load_key (kw_parse w) kio file))"
  have look: "key_reach w ?s ?l"
    using key_reach.more [OF key_reach.none key_step.look [of ?s p w kio]] by (simp add: all_looking_def)
  show ?thesis
  proof (cases "file")
    case (Some raw)
    then have "load_key (kw_parse w) kio file \<noteq> Inr None" by (simp add: load_key_None)
    with look assms show ?thesis
      by (intro exI [of _ ?l], cases "load_key (kw_parse w) kio file" rule: after_look.cases)
         (auto simp: load_or_generate_def all_looking_def)
  next
    case None
    let ?c = "turn ?l p Created\<lparr>ks_file := Some []\<rparr>"
    have m: "load_key (kw_parse w) kio file = Inr None" "ks_proc ?l p = Missed" "ks_file ?l = None"
      using None by (simp_all add: load_key_def all_looking_def)
    have c: "key_reach w ?s ?c" by (rule key_reach.more [OF look key_step.create [OF m(2,3)]])
    have ends: "key_reach w ?s (turn ?l p Stopped)" "key_reach w ?s (turn ?c p Stopped)"
      "key_reach w ?s (turn ?c p (Holds (kw_own w p))\<lparr>ks_file := Some (kw_render w (kw_own w p))\<rparr>)"
      using look c key_step.dies key_step.fill [of ?c p w] by (auto intro: key_reach.more)
    consider "kio ''create key directory'' \<or> kio ''create key file''"
      | "\<not> kio ''create key directory''" "\<not> kio ''create key file''" "kio ''write key file''"
      | "\<not> kio ''create key directory''" "\<not> kio ''create key file''" "\<not> kio ''write key file''" by blast
    then show ?thesis
    proof cases
      case 1
      with assms None m(1) ends(1) show ?thesis
        by (intro exI [of _ "turn ?l p Stopped"]) (auto simp: load_or_generate_def save_new_def Let_def all_looking_def split: if_splits)
    next
      case 2
      with assms None m(1) ends(2) show ?thesis
        by (intro exI [of _ "turn ?c p Stopped"]) (auto simp: load_or_generate_def save_new_def Let_def)
    next
      case 3
      with assms None m(1) ends(3) show ?thesis
        by (intro exI [of _ "turn ?c p (Holds (kw_own w p))\<lparr>ks_file := Some (kw_render w (kw_own w p))\<rparr>"])
           (auto simp: load_or_generate_def save_new_def Let_def)
    qed
  qed
qed

section \<open>Witnesses\<close>

definition spot_key :: "nat \<Rightarrow> key_file" where "spot_key p = generate ''t'' (replicate 32 (CHR ''k'')) (show_nat p)"

definition toy_key_world :: key_world where
  "toy_key_world = \<lparr>kw_render = (\<lambda>k. CHR ''j'' # kf_db_uuid k),
     kw_parse = (\<lambda>s. case s of [] \<Rightarrow> None | c # u \<Rightarrow> Some (generate ''t'' (replicate 32 (CHR ''k'')) u)), kw_own = spot_key\<rparr>"

lemma toy_key_world_ok: "key_world_ok toy_key_world"
  by (simp add: key_world_ok_def toy_key_world_def spot_key_def generate_def)

text \<open>Process 0 creates the file while process 1 has already found nothing; process 1 adopts the key.\<close>

lemma toy_created:
  "key_reach toy_key_world (all_looking None) \<lparr>ks_file = Some [], ks_proc = (\<lambda>_. Looking)(0 := Missed, 1 := Missed, 0 := Created)\<rparr>"
proof -
  let ?m = "turn (turn (all_looking None) 0 Missed) 1 Missed"
  have "key_step toy_key_world (all_looking None) (turn (all_looking None) 0 Missed)"
    using key_step.look [of "all_looking None" 0 toy_key_world "\<lambda>_. False"] by (simp add: load_key_def all_looking_def)
  moreover have "key_step toy_key_world (turn (all_looking None) 0 Missed) ?m"
    using key_step.look [of "turn (all_looking None) 0 Missed" 1 toy_key_world "\<lambda>_. False"] by (simp add: load_key_def all_looking_def)
  moreover have "key_step toy_key_world ?m (turn ?m 0 Created\<lparr>ks_file := Some []\<rparr>)"
    by (rule key_step.create) (simp_all add: all_looking_def)
  ultimately have "key_reach toy_key_world (all_looking None) (turn ?m 0 Created\<lparr>ks_file := Some []\<rparr>)"
    by (meson key_reach.intros)
  then show ?thesis by (simp add: turn_def all_looking_def)
qed

theorem interrupted_creation_wedges_witness:
  "\<exists>s :: keyspot. key_reach toy_key_world (all_looking None) s \<and> ks_proc s 0 = Created \<and>
     ks_file (turn s 0 Stopped) = Some [] \<and> ks_proc (turn s 0 Stopped) 1 \<noteq> Holds (spot_key 1)"
  using interrupted_creation_wedges [OF toy_created toy_key_world_ok _ key_reach.none, of 0] toy_created by fastforce


theorem load_or_generate_runs_alone_witness:
  "\<exists>s :: keyspot. key_reach toy_key_world (all_looking None) s \<and> ks_proc s 0 = Holds (spot_key 0)"
proof -
  have "load_or_generate (kw_render toy_key_world) (kw_parse toy_key_world) (\<lambda>_. False) ''t'' (replicate 32 (CHR ''k'')) None None (show_nat 0) =
      (Inr (spot_key 0), Some (kw_render toy_key_world (spot_key 0)))"
    by (simp add: load_or_generate_def save_new_def load_key_def spot_key_def Let_def)
  from load_or_generate_runs_alone [OF this, of 0] show ?thesis by (auto simp: toy_key_world_def spot_key_def)
qed

end
