(* ===== verification/Transactions.thy ===== *)
theory Transactions
  imports WriterProps
begin

text \<open>
  Several writer threads over one database: the \<open>BEGIN IMMEDIATE\<close> transaction of
  \<open>insert_row_with_key\<close> (\<open>src/db/writer.rs\<close>) taken apart into the statements other processes can run
  between. SQLite's part is its documented one: an immediate transaction holds the one write lock
  until it commits or is rolled back, what it wrote is seen by others at the commit only, and the
  death of its process is a rollback.

  A statement that fails is a rollback; a failing statement of the redaction index is put up with
  inside the transaction, so the insert step comes with its own fault oracle.
\<close>

datatype txn = Idle | Begun tool_call_entry | HeadRead tool_call_entry string | Pending database

record bank =
  bk_db :: database
  bk_lock :: "nat option"
  bk_txn :: "nat \<Rightarrow> txn"

record chain_params =
  cp_mac :: "bytes \<Rightarrow> bytes \<Rightarrow> bytes"
  cp_canon :: "tool_call_entry \<Rightarrow> string option"
  cp_parse :: parse_flags
  cp_key :: hash_key

definition transact :: "bank \<Rightarrow> nat \<Rightarrow> nat option \<Rightarrow> txn \<Rightarrow> bank" where
  "transact s p l x = s\<lparr>bk_lock := l, bk_txn := (bk_txn s)(p := x)\<rparr>"

text \<open>An oracle that lets the statements of the row itself pass.\<close>

definition index_faults :: "(string \<Rightarrow> nat \<Rightarrow> bool) \<Rightarrow> bool" where
  "index_faults f \<longleftrightarrow> \<not> f ''begin insert transaction'' 0 \<and> \<not> f ''read last hash'' 0 \<and> \<not> f ''insert row'' 0 \<and>
     \<not> f ''commit insert transaction'' 0"

inductive txn_step :: "chain_params \<Rightarrow> bank \<Rightarrow> bank \<Rightarrow> bool" for w where
  begin_immediate: "bk_lock s = None \<Longrightarrow> bk_txn s p = Idle \<Longrightarrow> txn_step w s (transact s p (Some p) (Begun e))"
| read_head: "bk_txn s p = Begun e \<Longrightarrow> last_hash (healthy (bk_db s)) = Inr prev_hash \<Longrightarrow>
    txn_step w s (transact s p (bk_lock s) (HeadRead e prev_hash))"
| insert_row: "bk_txn s p = HeadRead e prev_hash \<Longrightarrow>
    hash_key_compute (cp_mac w) (cp_canon w) (cp_key w) prev_hash e = Inr h \<Longrightarrow> index_faults f \<Longrightarrow>
    project_redactions (cp_parse w)
      (insert_call (bk_db s\<lparr>sql_fails := f\<rparr>) e h (if prev_hash = genesis_prev_hash then None else Some prev_hash)) e = (ws, d) \<Longrightarrow>
    txn_step w s (transact s p (bk_lock s) (Pending d))"
| commit: "bk_txn s p = Pending d \<Longrightarrow> txn_step w s (transact s p None Idle\<lparr>bk_db := d\<rparr>)"
| rollback: "bk_txn s p \<noteq> Idle \<Longrightarrow> txn_step w s (transact s p None Idle)"

inductive txn_reach :: "chain_params \<Rightarrow> bank \<Rightarrow> bank \<Rightarrow> bool" for w s where
  none: "txn_reach w s s"
| more: "txn_reach w s t \<Longrightarrow> txn_step w t u \<Longrightarrow> txn_reach w s u"

definition idle_bank :: "database \<Rightarrow> bank" where
  "idle_bank d = \<lparr>bk_db = d, bk_lock = None, bk_txn = (\<lambda>_. Idle)\<rparr>"

text \<open>The same entries inserted one after the other by \<open>insert_row_with_key\<close>.\<close>

definition serially :: "chain_params \<Rightarrow> database \<Rightarrow> ((string \<Rightarrow> nat \<Rightarrow> bool) \<times> tool_call_entry) list \<Rightarrow> database" where
  "serially w d fes = foldl (\<lambda>d (f, e). snd (insert_result (cp_mac w) (cp_canon w) (cp_parse w) (cp_key w) (d\<lparr>sql_fails := f\<rparr>) e)) d fes"

section \<open>Lemmas\<close>

lemma transact_simps [simp]: "bk_db (transact s p l x) = bk_db s" "bk_lock (transact s p l x) = l"
  "bk_txn (transact s p l x) = (bk_txn s)(p := x)"
  by (simp_all add: transact_def)

fun txn_ok :: "chain_params \<Rightarrow> database \<Rightarrow> txn \<Rightarrow> bool" where
  "txn_ok w d (HeadRead e prev_hash) \<longleftrightarrow> last_hash (healthy d) = Inr prev_hash"
| "txn_ok w d (Pending d') \<longleftrightarrow>
     (\<exists>f e h ws. insert_row_with_key (cp_mac w) (cp_canon w) (cp_parse w) (d\<lparr>sql_fails := f\<rparr>) e (cp_key w) = (Inr h, d', ws))"
| "txn_ok w d _ \<longleftrightarrow> True"

definition bank_ok :: "chain_params \<Rightarrow> bank \<Rightarrow> bool" where
  "bank_ok w s \<longleftrightarrow> (\<forall>p. (bk_txn s p \<noteq> Idle \<longrightarrow> bk_lock s = Some p) \<and> txn_ok w (bk_db s) (bk_txn s p))"

lemma last_hash_faults: "last_hash (healthy d) = Inr p \<Longrightarrow> index_faults f \<Longrightarrow> last_hash (d\<lparr>sql_fails := f\<rparr>) = Inr p"
  by (auto simp: last_hash_def index_faults_def rows_by_id_def split: if_splits)

lemma pending_ok:
  assumes "last_hash (healthy d) = Inr p" and "hash_key_compute (cp_mac w) (cp_canon w) (cp_key w) p e = Inr h"
    and "index_faults f"
    and "project_redactions (cp_parse w)
      (insert_call (d\<lparr>sql_fails := f\<rparr>) e h (if p = genesis_prev_hash then None else Some p)) e = (ws, d')"
  shows "insert_row_with_key (cp_mac w) (cp_canon w) (cp_parse w) (d\<lparr>sql_fails := f\<rparr>) e (cp_key w) = (Inr h, d', ws)"
proof -
  let ?d1 = "insert_call (d\<lparr>sql_fails := f\<rparr>) e h (if p = genesis_prev_hash then None else Some p)"
  have "only_index_changed ?d1 d'" using project_redactions_only_index [of ?d1 "cp_parse w" e] assms(4) by simp
  then have "sql_fails d' = f" by (simp add: only_index_changed_fields insert_call_def)
  then show ?thesis
    using assms last_hash_faults [OF assms(1,3)]
    by (simp add: insert_row_with_key_def sql_def index_faults_def Let_def)
qed

lemma bank_ok_step: "txn_step w s s' \<Longrightarrow> bank_ok w s \<Longrightarrow> bank_ok w s'"
proof (induction rule: txn_step.induct)
  case (begin_immediate s p e)
  then show ?case unfolding bank_ok_def by auto
next
  case (read_head s p e prev_hash)
  then show ?case unfolding bank_ok_def by auto
next
  case (insert_row s p e prev_hash h f ws d)
  then have "last_hash (healthy (bk_db s)) = Inr prev_hash" unfolding bank_ok_def by (metis txn_ok.simps(1))
  from pending_ok [OF this insert_row(2-4)] have "txn_ok w (bk_db s) (Pending d)" by auto
  with insert_row show ?case unfolding bank_ok_def by auto
next
  case (commit s p d)
  then have "\<forall>q. q \<noteq> p \<longrightarrow> bk_txn s q = Idle" unfolding bank_ok_def by (metis option.inject txn.distinct(5))
  then show ?case unfolding bank_ok_def by simp
next
  case (rollback s p)
  then show ?case unfolding bank_ok_def by (auto) (metis option.inject)
qed

lemma bank_ok_reach: "txn_reach w s s' \<Longrightarrow> bank_ok w s \<Longrightarrow> bank_ok w s'"
  by (induction rule: txn_reach.induct) (auto intro: bank_ok_step)

lemma idle_bank_ok: "bank_ok w (idle_bank d)"
  by (simp add: bank_ok_def idle_bank_def)

text \<open>Only a commit changes what is committed, and it changes it as the insert does.\<close>

lemma committed_step:
  assumes "txn_step w s s'" and "bank_ok w s"
  shows "bk_db s' = bk_db s \<or> (\<exists>f e h. insert_result (cp_mac w) (cp_canon w) (cp_parse w) (cp_key w) (bk_db s\<lparr>sql_fails := f\<rparr>) e = (Inr h, bk_db s'))"
  using assms
proof (cases rule: txn_step.cases)
  case (commit p d)
  with assms(2) have "txn_ok w (bk_db s) (Pending d)" unfolding bank_ok_def by metis
  then obtain f e h ws where
    "insert_row_with_key (cp_mac w) (cp_canon w) (cp_parse w) (bk_db s\<lparr>sql_fails := f\<rparr>) e (cp_key w) = (Inr h, d, ws)" by auto
  with commit have "insert_result (cp_mac w) (cp_canon w) (cp_parse w) (cp_key w) (bk_db s\<lparr>sql_fails := f\<rparr>) e = (Inr h, bk_db s')"
    by (simp add: insert_result_def)
  then show ?thesis by blast
qed simp_all

lemma serially_snoc: "serially w d (fes @ [(f, e)]) =
    snd (insert_result (cp_mac w) (cp_canon w) (cp_parse w) (cp_key w) (serially w d fes\<lparr>sql_fails := f\<rparr>) e)"
  by (simp add: serially_def)

lemma serially_chain_ok:
  assumes "chain_ok (cp_mac w) (cp_canon w) k d" and "cp_key w = Hmac k"
  shows "chain_ok (cp_mac w) (cp_canon w) k (serially w d fes)"
proof (induction fes rule: rev_induct)
  case (snoc fe fes)
  obtain f e where fe: "fe = (f, e)" by (cases fe)
  show ?case unfolding fe serially_snoc assms(2)
    by (rule insert_result_chain_ok [OF prod.collapse [symmetric]]) (simp add: chain_ok_faults snoc.IH)
qed (simp add: serially_def assms(1))

lemma committed_serially:
  assumes "txn_reach w (idle_bank d) s" and "cp_key w = Hmac k"
  shows "\<exists>fes. bk_db s = serially w d fes \<and>
    map row_entry (tool_calls (bk_db s)) = map row_entry (tool_calls d) @ map snd fes"
  using assms(1)
proof (induction rule: txn_reach.induct)
  case none
  show ?case by (intro exI [of _ "[]"]) (simp add: idle_bank_def serially_def)
next
  case (more t u)
  then obtain fes where fes: "bk_db t = serially w d fes"
    "map row_entry (tool_calls (bk_db t)) = map row_entry (tool_calls d) @ map snd fes" by blast
  consider "bk_db u = bk_db t" | f e h where
    "insert_result (cp_mac w) (cp_canon w) (cp_parse w) (cp_key w) (bk_db t\<lparr>sql_fails := f\<rparr>) e = (Inr h, bk_db u)"
    using committed_step [OF more(2) bank_ok_reach [OF more(1) idle_bank_ok]] by blast
  then show ?case
  proof cases
    case 1
    with fes show ?thesis by metis
  next
    case 2
    with insert_result_rows [OF 2 [unfolded assms(2)]] fes show ?thesis
      by (intro exI [of _ "fes @ [(f, e)]"]) (simp add: serially_snoc)
  qed
qed

section \<open>Properties\<close>

text \<open>
  C11. However the transactions of any number of processes interleave, fail and are cut off, what is
  committed is what inserting some entries one after the other gives: one linear chain, each committed
  entry in it once, in commit order.
\<close>

theorem transactions_serialize:
  assumes "txn_reach w (idle_bank d) s" and "cp_key w = Hmac k"
  shows "\<exists>fes. bk_db s = serially w d fes \<and>
    map row_entry (tool_calls (bk_db s)) = map row_entry (tool_calls d) @ map snd fes"
  by (rule committed_serially [OF assms])

text \<open>
  A chain that verifies, verifies at every moment of any interleaving of writers: a reader never
  sees a fork or a half-written row.
\<close>

theorem concurrent_writers_keep_chain:
  assumes "verify_chain_with_key (cp_mac w) (cp_canon w) (healthy d) (Hmac k) = Inr (Inr n)" and "ids_ok d"
    and "txn_reach w (idle_bank d) s" and "cp_key w = Hmac k"
  shows "\<exists>m \<ge> n. verify_chain_with_key (cp_mac w) (cp_canon w) (healthy (bk_db s)) (Hmac k) = Inr (Inr m)"
proof -
  obtain fes where fes: "bk_db s = serially w d fes"
    "map row_entry (tool_calls (bk_db s)) = map row_entry (tool_calls d) @ map snd fes"
    using committed_serially [OF assms(3,4)] by blast
  have start: "chain_ok (cp_mac w) (cp_canon w) k d" "n = length (tool_calls d)" using verify_healthy assms(1,2) by blast+
  have ok: "chain_ok (cp_mac w) (cp_canon w) k (bk_db s)" using serially_chain_ok [OF start(1) assms(4)] fes(1) by simp
  moreover have "n \<le> length (tool_calls (bk_db s))" using arg_cong [OF fes(2), of length] start(2) by simp
  moreover have "ids_ok (bk_db s)" using ok by (simp add: chain_ok_def)
  ultimately show ?thesis using verify_healthy by blast
qed

section \<open>Witnesses\<close>

definition sample_params :: chain_params where
  "sample_params = \<lparr>cp_mac = toy_mac, cp_canon = toy_canon, cp_parse = (\<lambda>_. Inr []), cp_key = Hmac toy_key\<rparr>"

text \<open>Process 0 commits one row into an empty table, then process 1 takes the lock.\<close>

lemma one_commit:
  assumes "tool_calls d = []" and "cp_key p = Hmac k" and "cp_canon p e = Some t" and "e_redaction_flags e = None"
  shows "\<exists>s :: bank. txn_reach p (idle_bank d) s \<and> length (tool_calls (bk_db s)) = 1 \<and> bk_lock s = Some 1"
proof -
  let ?s0 = "idle_bank d"
  let ?s1 = "transact ?s0 0 (Some 0) (Begun e)"
  let ?s2 = "transact ?s1 0 (Some 0) (HeadRead e genesis_prev_hash)"
  let ?h = "hex_encode (cp_mac p k (genesis_prev_hash @ t))"
  let ?d = "insert_call (d\<lparr>sql_fails := (\<lambda>_ _. False)\<rparr>) e ?h None"
  let ?s3 = "transact ?s2 0 (Some 0) (Pending ?d)"
  let ?s4 = "transact ?s3 0 None Idle\<lparr>bk_db := ?d\<rparr>"
  let ?s5 = "transact ?s4 1 (Some 1) (Begun e)"
  have "txn_step p ?s0 ?s1" by (rule txn_step.begin_immediate) (simp_all add: idle_bank_def)
  moreover have "txn_step p ?s1 ?s2"
    using txn_step.read_head [of ?s1 0 e genesis_prev_hash p] assms(1) by (simp add: last_hash_def healthy_def idle_bank_def)
  moreover have "txn_step p ?s2 ?s3"
    using txn_step.insert_row [of ?s2 0 e genesis_prev_hash p ?h "\<lambda>_ _. False" "[]" ?d] assms
    by (simp add: index_faults_def compute_hash_hmac_def project_redactions_def idle_bank_def)
  moreover have "txn_step p ?s3 ?s4" by (rule txn_step.commit) simp
  moreover have "txn_step p ?s4 ?s5" by (rule txn_step.begin_immediate) (simp_all add: idle_bank_def)
  ultimately have "txn_reach p ?s0 ?s5" by (meson txn_reach.intros)
  then show ?thesis using assms(1) by (intro exI [of _ ?s5]) (simp add: insert_call_def)
qed

lemma sample_entry_flags: "e_redaction_flags sample_entry = None"
  by (simp add: sample_entry_def)

lemma sample_transaction:
  "\<exists>s :: bank. txn_reach sample_params (idle_bank empty_database) s \<and> length (tool_calls (bk_db s)) = 1 \<and> bk_lock s = Some 1"
proof (rule one_commit)
  show "tool_calls empty_database = []" by (simp add: empty_database_def)
  show "cp_key sample_params = Hmac toy_key" by (simp add: sample_params_def)
  show "cp_canon sample_params sample_entry = Some (CHR ''{'' # ''echo'')" by (simp add: sample_params_def toy_canon_def sample_entry_def)
qed (rule sample_entry_flags)

theorem transactions_serialize_witness:
  "\<exists>(s :: bank) fes. txn_reach sample_params (idle_bank empty_database) s \<and> length (tool_calls (bk_db s)) = 1 \<and>
     bk_db s = serially sample_params empty_database fes \<and> length fes = 1"
proof -
  obtain s where s: "txn_reach sample_params (idle_bank empty_database) s" "length (tool_calls (bk_db s)) = 1"
    using sample_transaction by blast
  have "cp_key sample_params = Hmac toy_key" by (simp add: sample_params_def)
  from transactions_serialize [OF s(1) this] obtain fes where
    "bk_db s = serially sample_params empty_database fes" and m: "map row_entry (tool_calls (bk_db s)) = map row_entry (tool_calls empty_database) @ map snd fes"
    by blast
  moreover have "length fes = 1" using arg_cong [OF m, of length] s(2) by (simp add: empty_database_def)
  ultimately show ?thesis using s by blast
qed

theorem concurrent_writers_keep_chain_witness:
  "\<exists>(s :: bank) m. txn_reach sample_params (idle_bank empty_database) s \<and> length (tool_calls (bk_db s)) = 1 \<and>
     verify_chain_with_key toy_mac toy_canon (healthy (bk_db s)) (Hmac toy_key) = Inr (Inr m)"
proof -
  obtain s where s: "txn_reach sample_params (idle_bank empty_database) s" "length (tool_calls (bk_db s)) = 1"
    using sample_transaction by blast
  have p: "cp_mac sample_params = toy_mac" "cp_canon sample_params = toy_canon" "cp_key sample_params = Hmac toy_key"
    by (simp_all add: sample_params_def)
  have e: "ids_ok empty_database" by (simp add: ids_ok_def empty_database_def)
  moreover have "chain_ok toy_mac toy_canon toy_key empty_database"
    using toy_rows_accepted [of 1 genesis_cursor "[]"] e by (simp add: chain_ok_def empty_database_def genesis_cursor_def)
  then have "verify_chain_with_key (cp_mac sample_params) (cp_canon sample_params) (healthy empty_database) (Hmac toy_key) = Inr (Inr 0)"
    using verify_healthy [OF e] p by (simp add: empty_database_def)
  ultimately show ?thesis using concurrent_writers_keep_chain [OF _ _ s(1) p(3)] s p by fastforce
qed

end
