(* ===== verification/Opening.thy ===== *)
theory Opening
  imports Store
begin

text \<open>
  Opening the audit database (\<open>open_db\<close>, \<open>is_busy\<close>, \<open>open_readonly\<close> in \<open>src/db/mod.rs\<close>). What SQLite and
  the file system answer is a parameter: the directory, the open itself, each pragma and the schema,
  and for every attempt at the WAL pragma its error, if any. \<open>now n\<close> is the clock, in milliseconds, when
  attempt \<open>n\<close> has failed.

  The retry loop has no bound of its own: it is a partial function, and that it returns is a property
  of the clock.
\<close>

datatype sqlite_error = DatabaseBusy | DatabaseLocked | OtherCode | NoCode

definition is_busy :: "sqlite_error \<Rightarrow> bool" where
  "is_busy e \<longleftrightarrow> e \<in> {DatabaseBusy, DatabaseLocked}"

definition busy_timeout_ms :: nat where "busy_timeout_ms = 5000"
definition retry_sleep_ms :: nat where "retry_sleep_ms = 25"

partial_function (option) enable_wal ::
  "(nat \<Rightarrow> sqlite_error option) \<Rightarrow> (nat \<Rightarrow> nat) \<Rightarrow> nat \<Rightarrow> nat \<Rightarrow> unit result option" where
  "enable_wal pragma now deadline n =
     (case pragma n of
        None \<Rightarrow> Some (Inr ())
      | Some e \<Rightarrow>
          if is_busy e \<and> now n < deadline then enable_wal pragma now deadline (Suc n)
          else Some (Inl (DbFailed ''failed to enable WAL mode'')))"

record open_env =
  op_parent :: "string option"
  op_io :: "string \<Rightarrow> bool"
  op_pragma :: "nat \<Rightarrow> sqlite_error option"
  op_start :: nat
  op_now :: "nat \<Rightarrow> nat"

record connection =
  cn_db :: database
  cn_writable :: bool
  cn_busy_timeout_ms :: nat
  cn_wal :: bool
  cn_foreign_keys :: bool

text \<open>A file that is not there is created, with empty tables; one that is there keeps its rows.\<close>

definition with_schema :: "database option \<Rightarrow> database" where
  "with_schema file = (case file of None \<Rightarrow> empty_database | Some d \<Rightarrow> d)"

definition fails_at :: "open_env \<Rightarrow> string \<Rightarrow> unit result" where
  "fails_at ev what = (if op_io ev what then Inl (DbFailed what) else Inr ())"

definition open_db :: "open_env \<Rightarrow> database option \<Rightarrow> connection result option" where
  "open_db ev file =
     (case and_then (if op_parent ev \<in> {None, Some []} then Inr () else fails_at ev ''create db directory'') (\<lambda>_.
           and_then (fails_at ev ''open db'') (\<lambda>_.
           fails_at ev ''set busy timeout'')) of
        Inl e \<Rightarrow> Some (Inl e)
      | Inr _ \<Rightarrow>
          Option.bind (enable_wal (op_pragma ev) (op_now ev) (op_start ev + busy_timeout_ms) 0) (\<lambda>wal.
          Some (and_then wal (\<lambda>_.
            and_then (fails_at ev ''set synchronous pragma'') (\<lambda>_.
            and_then (fails_at ev ''enable foreign keys'') (\<lambda>_.
            and_then (fails_at ev ''apply schema'') (\<lambda>_.
            Inr \<lparr>cn_db = with_schema file, cn_writable = True, cn_busy_timeout_ms = busy_timeout_ms, cn_wal = True,
                 cn_foreign_keys = True\<rparr>)))))))"

definition open_readonly :: "open_env \<Rightarrow> database option \<Rightarrow> connection result" where
  "open_readonly ev file =
     (case file of
        None \<Rightarrow> Inl (DbFailed ''failed to open db read-only'')
      | Some d \<Rightarrow>
          and_then (fails_at ev ''open db read-only'') (\<lambda>_.
          and_then (fails_at ev ''set busy timeout'') (\<lambda>_.
          Inr \<lparr>cn_db = d, cn_writable = False, cn_busy_timeout_ms = busy_timeout_ms, cn_wal = False, cn_foreign_keys = False\<rparr>)))"

section \<open>Lemmas\<close>

lemma enable_wal_Inr:
  assumes "enable_wal pragma now deadline n = Some (Inr ())"
  shows "\<exists>m. pragma m = None"
proof -
  have "r = Inr () \<longrightarrow> (\<exists>m. p m = None)" if ret: "enable_wal p c d k = Some r" for p c d k r
  proof (rule enable_wal.raw_induct [where P = "\<lambda>p c d k r. r = Inr () \<longrightarrow> (\<exists>m. p m = None)", OF _ ret])
    fix f p c d k r
    assume IH: "\<And>p c d k r. f p c d k = Some r \<Longrightarrow> r = Inr () \<longrightarrow> (\<exists>m. p m = None)"
      and eq: "(case p k of None \<Rightarrow> Some (Inr ())
        | Some e \<Rightarrow> if is_busy e \<and> c k < d then f p c d (Suc k) else Some (Inl (DbFailed ''failed to enable WAL mode''))) = Some r"
    show "r = Inr () \<longrightarrow> (\<exists>m. p m = None)"
    proof (cases "p k")
      case None
      then show ?thesis by blast
    next
      case (Some e)
      with eq IH [of p c d "Suc k" r] show ?thesis by (auto split: if_splits)
    qed
  qed
  with assms show ?thesis by blast
qed

text \<open>The attempts that are retried.\<close>

definition retried :: "(nat \<Rightarrow> sqlite_error option) \<Rightarrow> (nat \<Rightarrow> nat) \<Rightarrow> nat \<Rightarrow> nat \<Rightarrow> bool" where
  "retried pragma now deadline n \<longleftrightarrow> (\<exists>e. pragma n = Some e \<and> is_busy e \<and> now n < deadline)"

lemma enable_wal_retry: "retried pragma now deadline n \<Longrightarrow> enable_wal pragma now deadline n = enable_wal pragma now deadline (Suc n)"
  by (subst enable_wal.simps) (auto simp: retried_def)

lemma enable_wal_end:
  "\<not> retried pragma now deadline n \<Longrightarrow> enable_wal pragma now deadline n =
     Some (if pragma n = None then Inr () else Inl (DbFailed ''failed to enable WAL mode''))"
  by (subst enable_wal.simps) (auto simp: retried_def split: option.splits)

lemma enable_wal_skip: "\<forall>m<n. retried pragma now deadline m \<Longrightarrow> enable_wal pragma now deadline 0 = enable_wal pragma now deadline n"
  by (induction n) (simp_all add: enable_wal_retry)

lemma clock_advances: "\<forall>n. now n + step \<le> now (Suc n) \<Longrightarrow> now 0 + n * step \<le> (now n :: nat)"
proof (induction n)
  case (Suc n)
  then have "now 0 + n * step \<le> now n" "now n + step \<le> now (Suc n)" by simp_all
  then show ?case by simp
qed simp

section \<open>Properties\<close>

text \<open>
  C36. Opening for writing returns: if every wait between two attempts advances the clock by at least
  what the loop sleeps, no more than 201 attempts are made at the WAL pragma, all but the last of
  them busy and in time, and the last one decides.
\<close>

theorem wal_retry_ends:
  assumes "\<forall>n. now n + retry_sleep_ms \<le> now (Suc n)" and "start \<le> now 0"
  shows "\<exists>n \<le> 200. (\<forall>m<n. retried pragma now (start + busy_timeout_ms) m) \<and>
    enable_wal pragma now (start + busy_timeout_ms) 0 =
      Some (if pragma n = None then Inr () else Inl (DbFailed ''failed to enable WAL mode''))"
proof -
  let ?retried = "retried pragma now (start + busy_timeout_ms)"
  have "start + 200 * retry_sleep_ms \<le> now 200" using clock_advances [OF assms(1), of 200] assms(2) by simp
  then have last: "\<not> ?retried 200" by (auto simp: retried_def busy_timeout_ms_def retry_sleep_ms_def)
  define n where "n = (LEAST n. \<not> ?retried n)"
  have "n \<le> 200" "\<not> ?retried n" "\<forall>m<n. ?retried m"
    unfolding n_def using last Least_le [of "\<lambda>n. \<not> ?retried n" 200] LeastI [of "\<lambda>n. \<not> ?retried n" 200]
    by (auto dest: not_less_Least)
  then show ?thesis using enable_wal_skip [of n pragma now] enable_wal_end [of pragma now] by (intro exI [of _ n]) simp
qed

text \<open>
  An opened database is the one that was there: every row of it, or a fresh one with empty tables
  where there was no file; and it is opened for writing with the WAL journal only. A read-only open
  creates nothing: without a file it fails.
\<close>

theorem opened_database_kept:
  assumes "open_db ev file = Some (Inr c)"
  shows "(\<forall>d. file = Some d \<longrightarrow> cn_db c = d \<and> (\<forall>c'. open_readonly ev file = Inr c' \<longrightarrow> cn_db c' = d \<and> \<not> cn_writable c')) \<and>
    (file = None \<longrightarrow> cn_db c = empty_database \<and> \<not> is_ok (open_readonly ev file)) \<and>
    (\<exists>n. op_pragma ev n = None)"
proof -
  have "enable_wal (op_pragma ev) (op_now ev) (op_start ev + busy_timeout_ms) 0 = Some (Inr ())"
    using assms by (auto simp: open_db_def and_then_Inr split: sum.splits bind_splits)
  then have "\<exists>n. op_pragma ev n = None" by (rule enable_wal_Inr)
  with assms show ?thesis
    by (auto simp: open_db_def open_readonly_def with_schema_def and_then_Inr split: sum.splits bind_splits)
qed

section \<open>Witnesses\<close>

text \<open>Another process converts the file first: three attempts are busy.\<close>

definition contended :: open_env where
  "contended = \<lparr>op_parent = Some ''state'', op_io = (\<lambda>_. False),
     op_pragma = (\<lambda>n. if n < 3 then Some DatabaseBusy else None), op_start = 10, op_now = (\<lambda>n. 12 + 30 * n)\<rparr>"

theorem wal_retry_ends_witness:
  "\<exists>n \<le> 200. op_pragma contended n = None \<and> enable_wal (op_pragma contended) (op_now contended) (op_start contended + busy_timeout_ms) 0 = Some (Inr ())"
proof -
  obtain n where n: "n \<le> 200" "\<forall>m<n. retried (op_pragma contended) (op_now contended) (op_start contended + busy_timeout_ms) m"
    "enable_wal (op_pragma contended) (op_now contended) (op_start contended + busy_timeout_ms) 0 =
      Some (if op_pragma contended n = None then Inr () else Inl (DbFailed ''failed to enable WAL mode''))"
    using wal_retry_ends [of "op_now contended" "op_start contended" "op_pragma contended"]
    by (auto simp: contended_def retry_sleep_ms_def)
  have "enable_wal (op_pragma contended) (op_now contended) (op_start contended + busy_timeout_ms) 0 = Some (Inr ())"
    by (simp add: contended_def busy_timeout_ms_def enable_wal.simps is_busy_def)
  with n show ?thesis by (auto split: if_splits)
qed

theorem opened_database_kept_witness:
  "\<exists>c :: connection. open_db contended None = Some (Inr c) \<and> cn_db c = empty_database"
proof -
  have "open_db contended None = Some (Inr \<lparr>cn_db = empty_database, cn_writable = True, cn_busy_timeout_ms = busy_timeout_ms,
      cn_wal = True, cn_foreign_keys = True\<rparr>)"
    by (simp add: open_db_def fails_at_def with_schema_def contended_def busy_timeout_ms_def enable_wal.simps is_busy_def)
  with opened_database_kept [OF this] show ?thesis by blast
qed

end
