(* ===== verification/Stops.thy ===== *)
theory Stops
  imports Stdio
begin

text \<open>
  How \<open>run\<close> stops (the select and the match over \<open>Stop\<close> in \<open>src/proxy.rs\<close>, the enums, timings and the
  console handler of \<open>src/shutdown.rs\<close>): what ends it, whether and when the target is killed, how long
  each wait can last, and how long the console handler holds the process open.

  Times are milliseconds. A time at which something happens by itself is \<open>None\<close> if it never does.
\<close>

type_synonym time = "nat option"

definition drain_timeout :: nat where "drain_timeout = 10000"
definition pump_shutdown_timeout :: nat where "pump_shutdown_timeout = 2000"
definition target_exit_grace :: nat where "target_exit_grace = 2000"
definition handler_grace :: nat where "handler_grace = 4000"

text \<open>\<open>tokio::time::timeout\<close>: whether the wait ended in time, and how long it took.\<close>

definition timed :: "nat \<Rightarrow> time \<Rightarrow> bool \<times> nat" where
  "timed limit t = (case t of Some d \<Rightarrow> if d \<le> limit then (True, d) else (False, limit) | None \<Rightarrow> (False, limit))"

datatype stop =
    TargetExited int
  | TargetWaitFailure string
  | Signal string
  | InboundEnded inbound_exit

text \<open>Whichever of the three happens first.\<close>

datatype first = ChildWait "string + int" | InboundJoin "string + inbound_exit" | SignalSeen string

fun selected :: "first \<Rightarrow> stop \<times> bool" where
  "selected (ChildWait (Inr status)) = (TargetExited status, False)"
| "selected (ChildWait (Inl e)) = (TargetWaitFailure e, False)"
| "selected (InboundJoin (Inr x)) = (InboundEnded x, True)"
| "selected (InboundJoin (Inl e)) = (InboundEnded (PumpTaskFailure e), True)"
| "selected (SignalSeen name) = (Signal name, False)"

text \<open>
  What the outside does: when the input pump returns once told to, when the target exits by itself
  and after a kill, what \<open>wait\<close> answers then, and when the response pump and the writer are done.
\<close>

record stopping =
  sp_inbound :: time
  sp_exit :: time
  sp_exit_killed :: time
  sp_wait :: "string + int"
  sp_outbound :: time
  sp_drain :: time

record target_end =
  te_status :: "int option"
  te_error :: "string option"
  te_killed :: bool
  te_took :: nat

definition waited :: "stopping \<Rightarrow> bool \<Rightarrow> nat \<Rightarrow> bool \<times> nat \<Rightarrow> target_end" where
  "waited w killed before t =
     (case t of
        (True, d) \<Rightarrow> (case sp_wait w of
            Inr status \<Rightarrow> \<lparr>te_status = Some status, te_error = None, te_killed = killed, te_took = before + d\<rparr>
          | Inl e \<Rightarrow> \<lparr>te_status = None, te_error = Some e, te_killed = killed, te_took = before + d\<rparr>)
      | (False, d) \<Rightarrow> \<lparr>te_status = None, te_error = Some ''target did not exit after termination'', te_killed = killed,
          te_took = before + d\<rparr>)"

definition after_kill :: "stopping \<Rightarrow> nat \<Rightarrow> target_end" where
  "after_kill w before = waited w True before (timed pump_shutdown_timeout (sp_exit_killed w))"

fun stop_target :: "stopping \<Rightarrow> stop \<Rightarrow> target_end" where
  "stop_target w (TargetExited status) = \<lparr>te_status = Some status, te_error = None, te_killed = False, te_took = 0\<rparr>"
| "stop_target w (InboundEnded x) =
     (case timed target_exit_grace (sp_exit w) of
        (True, d) \<Rightarrow> waited w False 0 (True, d)
      | (False, d) \<Rightarrow> after_kill w d)"
| "stop_target w (Signal name) = after_kill w 0"
| "stop_target w (TargetWaitFailure e) = after_kill w 0"

text \<open>The kill that comes before the input pump is waited for.\<close>

fun killed_first :: "stop \<Rightarrow> bool" where
  "killed_first (Signal name) = True"
| "killed_first (TargetWaitFailure e) = True"
| "killed_first _ = False"

definition inbound_wait :: "stopping \<Rightarrow> bool \<Rightarrow> nat" where
  "inbound_wait w completed = (if completed then 0 else snd (timed pump_shutdown_timeout (sp_inbound w)))"

text \<open>Up to the drain of the calls left open, and from there to the end of the writer.\<close>

definition until_drain :: "stopping \<Rightarrow> first \<Rightarrow> nat" where
  "until_drain w f =
     (let (stop, completed) = selected f
      in inbound_wait w completed + te_took (stop_target w stop) + snd (timed pump_shutdown_timeout (sp_outbound w)))"

definition writer_wait :: "stopping \<Rightarrow> nat" where
  "writer_wait w = snd (timed drain_timeout (sp_drain w))"

section \<open>The console handler on Windows\<close>

datatype ctrl = CtrlC | CtrlBreak | CtrlClose | CtrlLogoff | CtrlShutdown

text \<open>Whether the event is handled, and how long the handler blocks, given when the drain is noted as complete.\<close>

definition blocking_close_handler :: "ctrl \<Rightarrow> time \<Rightarrow> bool \<times> nat" where
  "blocking_close_handler c noted =
     (if c \<in> {CtrlClose, CtrlLogoff, CtrlShutdown} then (True, snd (timed handler_grace noted)) else (False, 0))"

section \<open>Signals\<close>

text \<open>
  The name under which a stop is noticed, given whether the handlers could be installed and the
  signal that is delivered, if any. A \<open>ctrl_c\<close> that cannot be installed is ready at once with an error, which
  the \<open>select\<close> takes for the signal.
\<close>

datatype posix_signal = SigInt | SigTerm | SigHup

definition shutdown_signal_unix :: "bool \<Rightarrow> bool \<Rightarrow> posix_signal option \<Rightarrow> string option" where
  "shutdown_signal_unix term ctrl_c sig =
     (if \<not> term then None
      else if \<not> ctrl_c then Some ''SIGINT (Ctrl-C)''
      else case sig of Some SigInt \<Rightarrow> Some ''SIGINT (Ctrl-C)'' | Some SigTerm \<Rightarrow> Some ''SIGTERM'' | _ \<Rightarrow> None)"

definition shutdown_signal_windows :: "bool \<Rightarrow> bool \<Rightarrow> ctrl option \<Rightarrow> string option" where
  "shutdown_signal_windows handlers ctrl_c ev =
     (if \<not> handlers then None
      else if \<not> ctrl_c then Some ''Ctrl-C''
      else case ev of
        Some CtrlC \<Rightarrow> Some ''Ctrl-C'' | Some CtrlBreak \<Rightarrow> Some ''Ctrl-Break''
      | Some CtrlClose \<Rightarrow> Some ''console close'' | Some CtrlShutdown \<Rightarrow> Some ''system shutdown'' | _ \<Rightarrow> None)"

section \<open>Lemmas\<close>

lemma timed_le: "snd (timed limit t) \<le> limit"
  by (simp add: timed_def split: option.split)

lemma after_kill_took: "te_took (after_kill w d) \<le> d + pump_shutdown_timeout"
  using timed_le [of pump_shutdown_timeout "sp_exit_killed w"]
  by (auto simp: after_kill_def waited_def split: prod.splits bool.splits sum.splits)

lemma stop_target_took: "te_took (stop_target w stop) \<le> target_exit_grace + pump_shutdown_timeout"
proof (cases stop)
  case (InboundEnded x)
  obtain ok d where t: "timed target_exit_grace (sp_exit w) = (ok, d)" by fastforce
  then have "d \<le> target_exit_grace" using timed_le [of target_exit_grace "sp_exit w"] by simp
  then show ?thesis using after_kill_took [of w d] InboundEnded t
    by (simp add: waited_def split: bool.splits sum.splits)
qed (use after_kill_took [of w 0] in simp_all)

section \<open>Properties\<close>


text \<open>
  \<open>run\<close> never stops with the target neither gone nor killed, unless waiting for it failed: after a
  signal or a failed wait it is killed at once, and when the input ended it has two seconds to exit.
\<close>

theorem target_not_left_running:
  "let e = stop_target w stop in
     (te_status e = None \<longleftrightarrow> te_error e \<noteq> None) \<and> (killed_first stop \<longrightarrow> te_killed e) \<and>
     (te_status e = None \<longrightarrow> te_killed e \<or> (\<exists>err. sp_wait w = Inl err \<and> te_error e = Some err)) \<and>
     (te_killed e \<longrightarrow> killed_first stop \<or> (\<exists>x. stop = InboundEnded x \<and> (\<forall>d. sp_exit w = Some d \<longrightarrow> target_exit_grace < d)))"
  by (cases stop)
     (auto simp: after_kill_def waited_def timed_def Let_def split: prod.splits bool.splits sum.splits option.splits if_splits)

text \<open>
  The handler that holds the process open when a console is closed can give up before the drain
  of the audit log has begun: it waits four seconds, and the steps before the drain can take six.
\<close>

theorem close_handler_gives_up_early:
  assumes "sp_inbound w = None" and "sp_exit_killed w = None" and "sp_outbound w = None" and "c \<in> {CtrlClose, CtrlLogoff, CtrlShutdown}"
  shows "until_drain w (SignalSeen name) = 6000 \<and>
    snd (blocking_close_handler c (Some (until_drain w (SignalSeen name) + writer_wait w))) < until_drain w (SignalSeen name)"
proof -
  have "until_drain w (SignalSeen name) = 6000"
    using assms by (simp add: until_drain_def inbound_wait_def after_kill_def waited_def timed_def pump_shutdown_timeout_def)
  then show ?thesis by (simp add: blocking_close_handler_def timed_def handler_grace_def)
qed

text \<open>
  With its handlers in place the program hears every event but two: a hangup, which ends a process
  that does not handle it, and a logoff, for which the console handler holds the process open for
  its whole grace although nothing has begun to drain. And if \<open>ctrl_c\<close> alone could not be installed, the
  program stops by itself, while the comment says that it would go on and never stop.
\<close>

lemma signals_heard:
  "shutdown_signal_unix True True (Some sig) = None \<longleftrightarrow> sig = SigHup"
  "shutdown_signal_windows True True (Some ev) = None \<longleftrightarrow> ev = CtrlLogoff"
  "blocking_close_handler CtrlLogoff None = (True, handler_grace)"
  "shutdown_signal_unix True False None = Some ''SIGINT (Ctrl-C)''" "shutdown_signal_windows True False None = Some ''Ctrl-C''"
  by (simp_all add: shutdown_signal_unix_def shutdown_signal_windows_def blocking_close_handler_def timed_def
      split: posix_signal.split ctrl.split)

section \<open>Witnesses\<close>

text \<open>A target that reads nothing, answers nothing and cannot be killed, and a writer that takes five seconds.\<close>

definition stubborn :: stopping where
  "stubborn = \<lparr>sp_inbound = None, sp_exit = None, sp_exit_killed = None, sp_wait = Inr 0, sp_outbound = None, sp_drain = Some 5000\<rparr>"

theorem target_not_left_running_witness:
  "te_status (stop_target stubborn (InboundEnded ClientEof)) = None \<and> te_killed (stop_target stubborn (InboundEnded ClientEof)) \<and>
   te_killed (stop_target stubborn (Signal ''SIGTERM''))"
proof -
  have "te_status (stop_target stubborn (InboundEnded ClientEof)) = None"
    by (simp add: stubborn_def timed_def after_kill_def waited_def)
  moreover have "sp_wait stubborn = Inr 0" by (simp add: stubborn_def)
  ultimately show ?thesis
    using target_not_left_running [of stubborn "InboundEnded ClientEof"] target_not_left_running [of stubborn "Signal ''SIGTERM''"]
    by (simp add: Let_def)
qed

theorem close_handler_gives_up_early_witness:
  "until_drain stubborn (SignalSeen ''console close'') = 6000 \<and>
   snd (blocking_close_handler CtrlClose (Some (until_drain stubborn (SignalSeen ''console close'') + writer_wait stubborn))) <
     until_drain stubborn (SignalSeen ''console close'')"
  by (rule close_handler_gives_up_early) (simp_all add: stubborn_def)

end
