(* ===== verification/Lifecycle.thy ===== *)
theory Lifecycle
  imports VerifyProps Transactions
begin

text \<open>
  From a start over any number of writers to \<open>verify\<close>: \<open>chain::bootstrap\<close>, the transactions of
  \<open>db/writer.rs\<close> and \<open>verify::run\<close> composed.
\<close>

section \<open>What a start establishes\<close>

definition established :: "world \<Rightarrow> database \<Rightarrow> bytes option \<Rightarrow> chain_mode \<Rightarrow> bool" where
  "established w d keyfile mode \<longleftrightarrow> (\<exists>m n raw key.
     read_chain_metadata d = Inr (Some m) \<and> is_supported_hmac_version (cm_hmac_version m) \<and>
     keyfile = Some raw \<and> w_key_parse w raw = Some key \<and>
     derive_subkeys (w_hkdf w) key (cm_db_uuid m) = Inr (cm_chain_key mode, cm_anchor_key mode) \<and>
     verify_chain_metadata_hmac (w_mac w) d (cm_chain_key mode) m = Inr True \<and>
     verify_chain_with_key (w_mac w) (w_canon w) d (mode_hash_key mode) = Inr (Inr n))"

lemma classify_establishes:
  assumes "classify_existing_chain w d keyfile = Inr mode"
  shows "established w d keyfile mode"
proof -
  obtain m n where m: "read_chain_metadata d = Inr (Some m)" "is_supported_hmac_version (cm_hmac_version m)"
    "verify_chain_metadata_hmac (w_mac w) d (cm_chain_key mode) m = Inr True"
    "verify_chain_with_key (w_mac w) (w_canon w) d (mode_hash_key mode) = Inr (Inr n)"
    using classify_sound [OF assms] by blast
  then obtain k where k: "load_key (w_key_parse w) (w_key_io w) keyfile = Inr k"
    using assms by (cases "load_key (w_key_parse w) (w_key_io w) keyfile") (auto simp: classify_existing_chain_def)
  then obtain key where key: "load_key (w_key_parse w) (w_key_io w) keyfile = Inr (Some key)"
    using assms m by (cases k) (auto simp: classify_existing_chain_def)
  then obtain ks where "derive_subkeys (w_hkdf w) key (cm_db_uuid m) = Inr ks"
    using assms m by (cases "derive_subkeys (w_hkdf w) key (cm_db_uuid m)") (auto simp: classify_existing_chain_def)
  then have "derive_subkeys (w_hkdf w) key (cm_db_uuid m) = Inr (cm_chain_key mode, cm_anchor_key mode)"
    using assms m key by (cases ks) (auto simp: classify_existing_chain_def and_then_Inr split: if_splits)
  with m key show ?thesis by (auto simp: established_def dest!: load_key_Some)
qed

lemma bootstrap_establishes:
  assumes "bootstrap w db_existed (Inr d) keyfile gs = (Inr mode, Some d', keyfile')"
    and "gs_cadence_min gs < 2 ^ 64" and "gs_cadence_max gs < 2 ^ 64" and "\<forall>l n. \<not> sql_fails d l n"
    and "db_existed \<or> chain_metadata d ''db_uuid'' \<noteq> None \<or> tool_calls d = []"
    and "w_key_parse w (w_key_render w (generate (w_now w) (w_root_key w) (w_uuid w))) = Some (generate (w_now w) (w_root_key w) (w_uuid w))"
  shows "established w d' keyfile' mode \<and> tool_calls d' = tool_calls d \<and> calls_seq d' = calls_seq d"
proof (cases db_existed)
  case True
  with assms(1) show ?thesis by (auto simp: bootstrap_def intro: classify_establishes)
next
  case False
  obtain r d1 keyfile1 where f: "bootstrap_fresh_chain w d keyfile gs = (r, d1, keyfile1)" by (cases "bootstrap_fresh_chain w d keyfile gs")
  show ?thesis
  proof (cases r)
    case (Inl e)
    have "d1 = d" using f Inl genesis_metadata_rolls_back
      by (auto simp: bootstrap_fresh_chain_def split: prod.splits sum.splits)
    with False f Inl assms(1) show ?thesis
      by (auto simp: bootstrap_def recover_or_clean_up_def split: sum.splits option.splits if_splits intro: classify_establishes)
  next
    case (Inr mode')
    then have same: "mode' = mode" "d1 = d'" "keyfile1 = keyfile'" using False f assms(1) by (simp_all add: bootstrap_def)
    obtain key ck ak where
      lg: "load_or_generate (w_key_render w) (w_key_parse w) (w_key_io w) (w_now w) (w_root_key w)
        keyfile (w_key_appeared w) (w_uuid w) = (Inr key, keyfile')"
      and sub: "derive_subkeys (w_hkdf w) key (w_uuid w) = Inr (ck, ak)"
      and g: "write_chain_metadata_genesis (w_mac w) d (w_now w) ck (w_uuid w) (gs_cadence_min gs) (gs_cadence_max gs)
        (gs_heartbeat_enabled gs) (gs_anchor_enabled gs) = (Inr (), d')"
      and mode: "mode = HmacMode ck ak (gs_cadence_min gs) (gs_cadence_max gs)"
      using fresh_result [OF f [unfolded Inr same]] by metis
    note rb = genesis_reads_back [OF g assms(2-4)]
    have "tool_calls d = []" using assms(5) False g genesis_refused_over_existing [of d] by (metis Inl_Inr_False prod.inject)
    moreover have "d' = d\<lparr>chain_metadata := chain_metadata d'\<rparr>"
      using genesis_metadata_result [OF g] by simp
    then have "calls_seq d' = calls_seq d" by (metis database.select_convs(2) database.surjective database.update_convs(6))
    ultimately show ?thesis
      using load_or_generate_on_disk_aux [OF lg assms(6)] sub rb mode assms(4) verify_empty [of d' "w_mac w" "w_canon w" ck]
      by (auto simp: established_def is_supported_hmac_version_def supported_hmac_versions_def)
  qed
qed

section \<open>What writing keeps\<close>

lemma insert_result_metadata:
  assumes "insert_result mac canon parse (Hmac k) d e = (r, d')"
  shows "chain_metadata d' = chain_metadata d"
proof (cases r)
  case (Inl x)
  with assms insert_row_fails [of mac canon parse d e "Hmac k" x d'] show ?thesis
    by (auto simp: insert_result_def split: prod.splits)
next
  case (Inr h)
  then obtain ws where "insert_row_with_key mac canon parse d e (Hmac k) = (Inr h, d', ws)"
    using assms by (auto simp: insert_result_def split: prod.splits)
  from insert_row_result [OF this] obtain p d1 where
    "d1 = insert_call d e h (if p = genesis_prev_hash then None else Some p)" "only_index_changed d1 d'" by metis
  then show ?thesis by (auto simp: insert_call_def dest!: only_index_changed_fields(4))
qed

lemma serially_metadata:
  assumes "cp_key p = Hmac k"
  shows "chain_metadata (serially p d fes) = chain_metadata d"
proof (induction fes rule: rev_induct)
  case (snoc fe fes)
  obtain f e where fe: "fe = (f, e)" by (cases fe)
  show ?case unfolding fe serially_snoc assms
    using insert_result_metadata [OF prod.collapse [symmetric], of "cp_mac p" "cp_canon p" "cp_parse p" k "serially p d fes\<lparr>sql_fails := f\<rparr>" e]
    by (simp add: snoc.IH)
qed (simp add: serially_def)

lemma metadata_read_later:
  assumes "chain_metadata d' = chain_metadata d"
  shows "read_chain_metadata d = Inr (Some m) \<Longrightarrow> read_chain_metadata (healthy d') = Inr (Some m)"
    and "verify_chain_metadata_hmac mac d ck m = Inr True \<Longrightarrow> verify_chain_metadata_hmac mac (healthy d') ck m = Inr True"
proof -
  have g: "chain_metadata_get (healthy d') key = Inr (chain_metadata d key)" for key
    using assms by (simp add: healthy_def)
  show "read_chain_metadata d = Inr (Some m) \<Longrightarrow> read_chain_metadata (healthy d') = Inr (Some m)"
    by (auto simp: read_chain_metadata_def and_then_Inr g split: option.splits)
  show "verify_chain_metadata_hmac mac d ck m = Inr True \<Longrightarrow> verify_chain_metadata_hmac mac (healthy d') ck m = Inr True"
    by (auto simp: verify_chain_metadata_hmac_def and_then_Inr g split: option.splits if_splits)
qed

lemma check_index_not_tampered: "fst (check_index v config repair yes m ak d) \<noteq> Inr Tampered"
proof -
  have "finish_clean v config m ak d' \<noteq> Inr Tampered" for d'
    by (auto simp: finish_clean_def finish_anchor_def and_then_Inr Let_def split: if_splits option.splits)
  then show ?thesis
    by (auto simp: check_index_def and_then_Inr split: sum.splits prod.splits if_splits)
qed

lemma load_hmac_key_later:
  assumes "expand_tilde (v_home v) (vc_key_path config) = Inr key_path" and "v_files v key_path = Some raw"
    and "v_key_parse v raw = Some key" and "\<not> v_key_io v ''read key file''"
    and "derive_subkeys (v_hkdf v) key u = Inr (ck, ak)"
  shows "\<exists>fp. load_hmac_key v config u = Inr (ck, ak, fp)"
proof -
  obtain rk where "root_key_bytes key = Inr rk" using assms(5) by (auto simp: derive_subkeys_def and_then_Inr)
  with assms show ?thesis by (auto simp: load_hmac_key_def load_key_def fingerprint_def)
qed
section \<open>A session without faults\<close>

definition flags_ok :: "parse_flags \<Rightarrow> tool_call_entry \<Rightarrow> bool" where
  "flags_ok parse e \<longleftrightarrow> (case e_redaction_flags e of None \<Rightarrow> True | Some f \<Rightarrow> is_ok (parse f))"

definition no_fault :: "string \<Rightarrow> nat \<Rightarrow> bool" where "no_fault l n = False"

lemma records_without_fault:
  "sql_fails d = no_fault \<Longrightarrow> fst (insert_redaction_records d n call rs) = []"
  by (induction d n call rs rule: insert_redaction_records.induct) (auto simp: sql_def no_fault_def insert_redaction_def)

lemma insert_without_fault:
  assumes "canon e \<noteq> None" and "flags_ok parse e"
  shows "\<exists>h d'. insert_row_with_key mac canon parse (d\<lparr>sql_fails := no_fault\<rparr>) e (Hmac k) = (Inr h, d', [])"
proof -
  obtain t where t: "canon e = Some t" using assms(1) by blast
  obtain q where q: "last_hash (d\<lparr>sql_fails := no_fault\<rparr>) = Inr q" by (simp add: last_hash_def sql_def no_fault_def)
  let ?h = "hex_encode (mac k (q @ t))"
  let ?d1 = "insert_call (d\<lparr>sql_fails := no_fault\<rparr>) e ?h (if q = genesis_prev_hash then None else Some q)"
  have f: "sql_fails ?d1 = no_fault" by (simp add: insert_call_def)
  then have w: "fst (project_redactions parse ?d1 e) = []"
    using assms(2) by (auto simp: project_redactions_def insert_redaction_rows_def flags_ok_def records_without_fault split: option.splits sum.splits)
  have "sql_fails (snd (project_redactions parse ?d1 e)) = no_fault"
    using only_index_changed_fields(3) [OF project_redactions_only_index [of ?d1 parse e]] f by simp
  with w q t show ?thesis
    by (simp add: insert_row_with_key_def compute_hash_hmac_def Let_def case_prod_beta sql_def no_fault_def)
qed

lemma fresh_start:
  assumes "bootstrap w False (Inr d) keyfile gs = (Inr mode, Some d', keyfile')" and "chain_metadata d = Map.empty"
    and "\<forall>l n. \<not> sql_fails d l n" and "gs_cadence_min gs < 2 ^ 64" and "gs_cadence_max gs < 2 ^ 64"
  shows "\<exists>m. read_chain_metadata d' = Inr (Some m) \<and> cm_cadence_max m = Some (gs_cadence_max gs) \<and>
    d' = d\<lparr>chain_metadata := chain_metadata d'\<rparr>"
proof -
  obtain r d1 keyfile1 where f: "bootstrap_fresh_chain w d keyfile gs = (r, d1, keyfile1)" by (cases "bootstrap_fresh_chain w d keyfile gs")
  have "r = Inr mode \<and> d1 = d'"
  proof (cases r)
    case (Inl e)
    then have "d1 = d" using f genesis_metadata_rolls_back
      by (auto simp: bootstrap_fresh_chain_def split: prod.splits sum.splits)
    then have "read_chain_metadata d1 = Inr None"
      using assms(2,3) by (simp add: read_chain_metadata_def chain_metadata_get_def sql_def)
    with f Inl assms(1) show ?thesis by (simp add: bootstrap_def recover_or_clean_up_def)
  qed (use f assms(1) in \<open>simp add: bootstrap_def\<close>)
  then obtain ck where g: "write_chain_metadata_genesis (w_mac w) d (w_now w) ck (w_uuid w) (gs_cadence_min gs) (gs_cadence_max gs)
      (gs_heartbeat_enabled gs) (gs_anchor_enabled gs) = (Inr (), d')"
    using fresh_result f by metis
  show ?thesis using genesis_reads_back(1) [OF g assms(4,5,3)] genesis_metadata_result [OF g] by simp
qed

definition index_fits :: "parse_flags \<Rightarrow> database \<Rightarrow> bool" where
  "index_fits parse d \<longleftrightarrow> (\<forall>i. index_of d i = recorded_hits parse d i) \<and> (\<forall>row\<in>set (tool_calls d). flags_parse parse row)"

lemma index_fits_faults: "index_fits parse (d\<lparr>sql_fails := f\<rparr>) = index_fits parse d"
  by (simp add: index_fits_def index_of_def recorded_hits_def rows_by_id_def)

lemma faultless_session:
  assumes "cp_key p = Hmac k" and "ids_ok d" and "index_fits (cp_parse p) d"
    and "\<forall>e\<in>set es. cp_canon p e \<noteq> None \<and> flags_ok (cp_parse p) e"
  shows "map row_entry (tool_calls (serially p d (map (Pair no_fault) es))) = map row_entry (tool_calls d) @ es \<and>
    ids_ok (serially p d (map (Pair no_fault) es)) \<and> index_fits (cp_parse p) (serially p d (map (Pair no_fault) es))"
  using assms(4)
proof (induction es rule: rev_induct)
  case Nil
  with assms show ?case by (simp add: serially_def)
next
  case (snoc e es)
  let ?d = "serially p d (map (Pair no_fault) es)"
  obtain h d' where ins: "insert_row_with_key (cp_mac p) (cp_canon p) (cp_parse p) (?d\<lparr>sql_fails := no_fault\<rparr>) e (Hmac k) = (Inr h, d', [])"
    using insert_without_fault snoc.prems by (metis in_set_conv_decomp)
  then have step: "serially p d (map (Pair no_fault) (es @ [e])) = d'"
    using serially_snoc [of p d "map (Pair no_fault) es" no_fault e] assms(1) by (simp add: insert_result_def)
  have ih: "ids_ok (?d\<lparr>sql_fails := no_fault\<rparr>)" "index_fits (cp_parse p) (?d\<lparr>sql_fails := no_fault\<rparr>)"
    using snoc by (simp_all add: index_fits_faults ids_ok_def)
  obtain row where row: "tool_calls d' = tool_calls ?d @ [row]" "row_entry row = e" "ids_ok d'"
    using insert_row_extends [OF ins ih(1)] by auto
  have "index_fits (cp_parse p) d'"
    using insert_row_keeps_index [OF ins ih(1)] ih(2) row snoc.prems
    by (auto simp: index_fits_def flags_parse_def flags_ok_def split: option.splits)
  with row snoc step show ?case by simp
qed

lemma index_fits_check:
  assumes "index_fits parse d" and "ids_ok d"
  shows "check_redaction_consistency parse (healthy d) = Inr []"
proof -
  obtain st where st: "load_redaction_state parse (healthy d) = Inr st"
    by (auto simp: load_redaction_state_def sql_def healthy_def Let_def case_prod_beta)
  have "call_keys_ok (healthy d)" using assms(2) by (simp add: call_keys_ok_def ids_ok_def strict_sorted_iff)
  with redaction_check_iff_aux [OF st] assms(1) index_fits_faults [where d = d and parse = parse] show ?thesis
    by (simp add: index_fits_def healthy_def)
qed

text \<open>Where a \<open>verify\<close> of what was written after a start gets to.\<close>

lemma verify_reaches_index:
  assumes "bootstrap w db_existed (Inr d) keyfile gs = (Inr mode, Some d', keyfile')"
    and "gs_cadence_min gs < 2 ^ 64" and "gs_cadence_max gs < 2 ^ 64" and "\<forall>l n. \<not> sql_fails d l n"
    and "db_existed \<or> chain_metadata d ''db_uuid'' \<noteq> None \<or> tool_calls d = []" and "ids_ok d"
    and "w_key_parse w (w_key_render w (generate (w_now w) (w_root_key w) (w_uuid w))) = Some (generate (w_now w) (w_root_key w) (w_uuid w))"
    and "cp_mac p = w_mac w" and "cp_canon p = w_canon w" and "cp_key p = mode_hash_key mode"
    and "v_mac v = w_mac w" and "v_canon v = w_canon w" and "v_hkdf v = w_hkdf w" and "v_key_parse v = w_key_parse w"
    and "\<not> v_key_io v ''read key file''" and "expand_tilde (v_home v) (vc_key_path config) = Inr key_path"
    and "v_files v key_path = keyfile'"
  shows "\<exists>m ak. run_verify v (Inr config) repair (repair \<and> yes) (healthy (serially p d' fes)) =
      check_index v config repair (repair \<and> yes) m ak (healthy (serially p d' fes)) \<and>
    read_chain_metadata d' = Inr (Some m)"
proof -
  note est = bootstrap_establishes [OF assms(1-5,7)]
  then obtain m n raw key where e: "read_chain_metadata d' = Inr (Some m)" "is_supported_hmac_version (cm_hmac_version m)"
    "keyfile' = Some raw" "w_key_parse w raw = Some key"
    "derive_subkeys (w_hkdf w) key (cm_db_uuid m) = Inr (cm_chain_key mode, cm_anchor_key mode)"
    "verify_chain_metadata_hmac (w_mac w) d' (cm_chain_key mode) m = Inr True"
    "verify_chain_with_key (w_mac w) (w_canon w) d' (mode_hash_key mode) = Inr (Inr n)"
    unfolding established_def by blast
  have k: "cp_key p = Hmac (cm_chain_key mode)" using assms(10) by (cases mode) simp
  have ids: "ids_ok d'" using est assms(6) by (simp add: ids_ok_def)
  have "chain_ok (w_mac w) (w_canon w) (cm_chain_key mode) d'"
    using e(7) ids by (cases mode) (auto simp: verify_chain_ok_iff chain_ok_def read_all_rows_def sql_def split: if_splits)
  then have ok: "chain_ok (w_mac w) (w_canon w) (cm_chain_key mode) (serially p d' fes)"
    using serially_chain_ok [of p "cm_chain_key mode" d' fes] assms(8,9) k by simp
  then have "ids_ok (serially p d' fes)" by (simp add: chain_ok_def)
  with ok have chain: "verify_chain_with_key (v_mac v) (v_canon v) (healthy (serially p d' fes)) (Hmac (cm_chain_key mode)) =
      Inr (Inr (length (tool_calls (serially p d' fes))))"
    using verify_healthy assms(11,12) by simp
  note later = metadata_read_later [OF serially_metadata [OF k, of d' fes]]
  obtain fp where "load_hmac_key v config (cm_db_uuid m) = Inr (cm_chain_key mode, cm_anchor_key mode, fp)"
    using load_hmac_key_later [OF assms(16) _ _ assms(15)] e assms(13,14,17) by metis
  with chain later(1) [OF e(1)] later(2) [OF e(6)] e(2) have
    "run_verify v (Inr config) repair (repair \<and> yes) (healthy (serially p d' fes)) =
      check_index v config repair (repair \<and> yes) m (cm_anchor_key mode) (healthy (serially p d' fes))"
    using assms(11) by (auto simp: run_verify_def verify_keyed_def sql_def healthy_def)
  then show ?thesis using e(1) by blast
qed

section \<open>Properties\<close>

text \<open>
  C10. An honest log is never called tampered: after a start, whichever branch it took, and any
  interleaving of the transactions of any number of writers under its key, with any of them failing
  or cut off, a \<open>verify\<close> with the key file of that start passes the checks of the metadata and of the
  chain at every moment; the verdict it gives is that of the index and the witness checks alone.
\<close>

theorem honest_log_passes:
  assumes "bootstrap w db_existed (Inr d) keyfile gs = (Inr mode, Some d', keyfile')"
    and "gs_cadence_min gs < 2 ^ 64" and "gs_cadence_max gs < 2 ^ 64" and "\<forall>l n. \<not> sql_fails d l n"
    and "db_existed \<or> chain_metadata d ''db_uuid'' \<noteq> None \<or> tool_calls d = []" and "ids_ok d"
    and "w_key_parse w (w_key_render w (generate (w_now w) (w_root_key w) (w_uuid w))) = Some (generate (w_now w) (w_root_key w) (w_uuid w))"
    and "txn_reach p (idle_bank d') s" and "cp_mac p = w_mac w" and "cp_canon p = w_canon w" and "cp_key p = mode_hash_key mode"
    and "v_mac v = w_mac w" and "v_canon v = w_canon w" and "v_hkdf v = w_hkdf w" and "v_key_parse v = w_key_parse w"
    and "\<not> v_key_io v ''read key file''" and "expand_tilde (v_home v) (vc_key_path config) = Inr key_path"
    and "v_files v key_path = keyfile'"
  shows "\<exists>m ak. run_verify v (Inr config) repair (repair \<and> yes) (healthy (bk_db s)) =
      check_index v config repair (repair \<and> yes) m ak (healthy (bk_db s)) \<and>
    fst (run_verify v (Inr config) repair (repair \<and> yes) (healthy (bk_db s))) \<noteq> Inr Tampered"
proof -
  have "cp_key p = Hmac (cm_chain_key mode)" using assms(11) by (cases mode) simp
  then obtain fes where fes: "bk_db s = serially p d' fes" using committed_serially [OF assms(8)] by blast
  obtain m ak where "run_verify v (Inr config) repair (repair \<and> yes) (healthy (bk_db s)) =
      check_index v config repair (repair \<and> yes) m ak (healthy (bk_db s))"
    unfolding fes using verify_reaches_index [OF assms(1-7) assms(9-18)] by blast
  then show ?thesis by (metis check_index_not_tampered)
qed


section \<open>Witnesses\<close>

theorem honest_log_passes_witness:
  "\<exists>mode d' keyfile' (s :: bank). bootstrap toy_world False (Inr empty_database) None default_genesis = (Inr mode, Some d', keyfile') \<and>
     length (tool_calls (bk_db s)) = 1 \<and>
     fst (run_verify (toy_env\<lparr>v_files := (\<lambda>_. keyfile')\<rparr>) (Inr toy_config) False False (healthy (bk_db s))) \<noteq> Inr Tampered"
proof -
  obtain mode d' keyfile' where b: "bootstrap toy_world False (Inr empty_database) None default_genesis = (Inr mode, Some d', keyfile')"
    by (rule toy_bootstrap)
  let ?p = "sample_params\<lparr>cp_key := mode_hash_key mode\<rparr>"
  have e: "tool_calls empty_database = []" "ids_ok empty_database" by (simp_all add: empty_database_def ids_ok_def)
  have g: "gs_cadence_min default_genesis < 2 ^ 64" "gs_cadence_max default_genesis < 2 ^ 64" by (simp_all add: default_genesis_def)
  have rt: "w_key_parse toy_world (w_key_render toy_world (generate (w_now toy_world) (w_root_key toy_world) (w_uuid toy_world))) =
      Some (generate (w_now toy_world) (w_root_key toy_world) (w_uuid toy_world))"
    by (simp add: sample_key_parse_def sample_key_render_def generate_def)
  have "tool_calls d' = []" using bootstrap_establishes [OF b g empty_no_fault _ rt] e by simp
  moreover have "cp_key ?p = Hmac (cm_chain_key mode)" "cp_canon ?p sample_entry = Some (CHR ''{'' # ''echo'')"
    by (cases mode; simp add: sample_params_def toy_canon_def sample_entry_def)+
  ultimately obtain s where s: "txn_reach ?p (idle_bank d') s" "length (tool_calls (bk_db s)) = 1"
    using one_commit by (metis sample_entry_flags)
  have "expand_tilde (v_home (toy_env\<lparr>v_files := (\<lambda>_. keyfile')\<rparr>)) (vc_key_path toy_config) = Inr (vc_key_path toy_config)"
    by (simp add: toy_env_def toy_config_def expand_tilde_def strip_prefix_def starts_with_def)
  from honest_log_passes [OF b g empty_no_fault _ e(2) rt s(1) _ _ _ _ _ _ _ _ this, where repair = False and yes = False] b s e(1)
  show ?thesis by (intro exI [of _ mode] exI [of _ d'] exI [of _ keyfile'] exI [of _ s])
    (auto simp: sample_params_def toy_env_def toy_world_def)
qed


end
