(* ===== verification/Commands.thy ===== *)
theory Commands
  imports Verify ResetProps Query Export
begin

text \<open>
  \<open>src/main.rs\<close>: the command line as data, the dispatch to the commands, the \<open>key\<close> subcommands and the
  exit status. The commands modelled elsewhere are arguments of the dispatch (\<open>commands\<close>), as are the
  configuration loader and the file contents; parsing the arguments is clap's.
\<close>

datatype key_action = KeyPath | KeyFingerprint | KeyBackup string bool

datatype command =
    Run "string list"
  | Serve
  | QueryRows query_args
  | VerifyChain bool bool
  | ExportRows export_args "string option"
  | UnmaskHash string string
  | Key key_action
  | ResetChain bool bool

definition config_path :: "string option \<Rightarrow> string" where
  "config_path config = (case config of Some p \<Rightarrow> p | None \<Rightarrow> [])"

record commands =
  co_run :: "string \<Rightarrow> string list \<Rightarrow> unit result"
  co_serve :: "string \<Rightarrow> unit result"
  co_query :: "string \<Rightarrow> query_args \<Rightarrow> unit result"
  co_verify :: "string \<Rightarrow> bool \<Rightarrow> bool \<Rightarrow> verify_outcome result"
  co_export :: "string \<Rightarrow> export_args \<Rightarrow> string option \<Rightarrow> unit result"
  co_unmask :: "string \<Rightarrow> string \<Rightarrow> string \<Rightarrow> unit result"
  co_reset :: "string \<Rightarrow> bool \<Rightarrow> bool \<Rightarrow> unit result"

record key_env =
  ke_config :: "string \<Rightarrow> config result"
  ke_home :: "string option"
  ke_sha256 :: "bytes \<Rightarrow> bytes"
  ke_parse :: "string \<Rightarrow> key_file option"
  ke_render :: "key_file \<Rightarrow> string"
  ke_io :: key_io

type_synonym key_files = "string \<rightharpoonup> bytes"

definition load_existing_key :: "key_env \<Rightarrow> key_files \<Rightarrow> string \<Rightarrow> (config \<times> key_file) result" where
  "load_existing_key ev fs path =
     and_then (ke_config ev path) (\<lambda>cfg.
     and_then (resolved_key_path (ke_home ev) cfg) (\<lambda>key_path.
     and_then (load_key (ke_parse ev) (ke_io ev) (fs key_path)) (\<lambda>k. case k of
       None \<Rightarrow> Inl (KeyFailed ''no key file'')
     | Some key \<Rightarrow> Inr (cfg, key))))"

text \<open>What is printed, and the files afterwards.\<close>

definition put_file :: "key_files \<Rightarrow> string \<Rightarrow> bytes option \<Rightarrow> key_files" where
  "put_file fs path file = fs(path := file)"

fun key_command :: "key_env \<Rightarrow> string \<Rightarrow> key_action \<Rightarrow> key_files \<Rightarrow> string result \<times> key_files" where
  "key_command ev path KeyPath fs =
     (and_then (ke_config ev path) (\<lambda>cfg. resolved_key_path (ke_home ev) cfg), fs)"
| "key_command ev path KeyFingerprint fs =
     (and_then (load_existing_key ev fs path) (\<lambda>(cfg, key). fingerprint (ke_sha256 ev) key), fs)"
| "key_command ev path (KeyBackup dest force) fs =
     (case load_existing_key ev fs path of
        Inl e \<Rightarrow> (Inl e, fs)
      | Inr (cfg, key) \<Rightarrow>
          (case backup (ke_render ev) (ke_io ev) key (fs dest) force of
             (Inl e, file) \<Rightarrow> (Inl e, put_file fs dest file)
           | (Inr _, file) \<Rightarrow> (Inr (''Key backed up to '' @ dest), put_file fs dest file)))"

text \<open>The exit status of the process: an error returned by \<open>main\<close> is 1.\<close>

fun status_of :: "'a result \<Rightarrow> int" where
  "status_of (Inl e) = 1"
| "status_of (Inr x) = 0"

fun verify_status :: "verify_outcome result \<Rightarrow> int" where
  "verify_status (Inl e) = 1"
| "verify_status (Inr r) = (if r \<noteq> Clean then exit_code r else 0)"

definition main :: "commands \<Rightarrow> key_env \<Rightarrow> string option \<Rightarrow> command \<Rightarrow> key_files \<Rightarrow> int \<times> key_files" where
  "main co ev config c fs =
     (let path = config_path config in
      case c of
        Run target \<Rightarrow> (status_of (co_run co path target), fs)
      | Serve \<Rightarrow> (status_of (co_serve co path), fs)
      | QueryRows a \<Rightarrow> (status_of (co_query co path a), fs)
      | VerifyChain repair_index yes \<Rightarrow> (verify_status (co_verify co path repair_index yes), fs)
      | ExportRows a output \<Rightarrow> (status_of (co_export co path a output), fs)
      | UnmaskHash hash note \<Rightarrow> (status_of (co_unmask co path hash note), fs)
      | Key a \<Rightarrow> (let (r, fs') = key_command ev path a fs in (status_of r, fs'))
      | ResetChain yes keep_old \<Rightarrow> (status_of (co_reset co path yes keep_old), fs))"

section \<open>Properties\<close>

text \<open>
  The status of \<open>verify\<close> says what happened: zero exactly for a clean verdict, the code of every
  other verdict, and one for a run that failed; so status zero is never a failure that went unnoticed.
\<close>

theorem verify_status_exact:
  assumes "co_verify co = (\<lambda>path repair yes. fst (run_verify v (cfg path) repair yes d))"
  shows "fst (main co ev config (VerifyChain repair yes) fs) = 0 \<longleftrightarrow>
      fst (run_verify v (cfg (config_path config)) repair yes d) = Inr Clean"
    and "fst (main co ev config (VerifyChain repair yes) fs) > 1 \<Longrightarrow>
      \<exists>r. fst (run_verify v (cfg (config_path config)) repair yes d) = Inr r \<and> r \<notin> {Clean, Tampered} \<and>
        exit_code r = fst (main co ev config (VerifyChain repair yes) fs)"
proof -
  have m: "fst (main co ev config (VerifyChain repair yes) fs) = verify_status (fst (run_verify v (cfg (config_path config)) repair yes d))"
    using assms by (simp add: main_def Let_def)
  have z: "verify_status x = 0 \<longleftrightarrow> x = Inr Clean" for x
  proof (cases x)
    case (Inr r)
    then show ?thesis by (cases r) simp_all
  qed simp
  show "fst (main co ev config (VerifyChain repair yes) fs) = 0 \<longleftrightarrow>
      fst (run_verify v (cfg (config_path config)) repair yes d) = Inr Clean" by (simp add: m z)
  show "\<exists>r. fst (run_verify v (cfg (config_path config)) repair yes d) = Inr r \<and> r \<notin> {Clean, Tampered} \<and>
      exit_code r = fst (main co ev config (VerifyChain repair yes) fs)"
    if "fst (main co ev config (VerifyChain repair yes) fs) > 1"
  proof (cases "fst (run_verify v (cfg (config_path config)) repair yes d)")
    case (Inr r)
    with that m show ?thesis by (cases r) simp_all
  qed (use that m in simp)
qed

text \<open>
  A key backup is the key: after a successful \<open>key backup\<close> the destination reads back as the key
  that was backed up, so it gives the same fingerprint and, for every database, the same two chain keys;
  without \<open>--force\<close> nothing was there before; and a backup that fails leaves every file as it was.
\<close>

theorem key_backup_restores:
  assumes "\<forall>cfg key. load_existing_key ev fs path = Inr (cfg, key) \<longrightarrow> ke_parse ev (ke_render ev key) = Some key"
    and "key_command ev path (KeyBackup dest force) fs = (r, fs')"
  shows "(\<forall>e. r = Inl e \<longrightarrow> fs' = fs) \<and>
    (is_ok r \<longrightarrow> (force \<or> fs dest = None) \<and> (\<exists>cfg key. load_existing_key ev fs path = Inr (cfg, key) \<and>
      fs' = fs(dest \<mapsto> ke_render ev key) \<and> (\<not> ke_io ev ''read key file'' \<longrightarrow>
      load_key (ke_parse ev) (ke_io ev) (fs' dest) = Inr (Some key))))"
proof (cases "load_existing_key ev fs path")
  case (Inl e)
  with assms(2) show ?thesis by auto
next
  case (Inr x)
  obtain cfg key where x: "x = (cfg, key)" by fastforce
  show ?thesis
    using assms Inr x
    by (auto simp: backup_def put_file_def load_key_def split: if_splits)
qed

section \<open>Witnesses\<close>

definition toy_keys :: key_env where
  "toy_keys = \<lparr>ke_config = (\<lambda>_. Inr toy_reset_config), ke_home = None, ke_sha256 = (\<lambda>x. x), ke_parse = sample_key_parse,
     ke_render = sample_key_render, ke_io = (\<lambda>_. False)\<rparr>"

theorem key_backup_restores_witness:
  "\<exists>fs' :: key_files. key_command toy_keys [] (KeyBackup ''copy'' False) [''key'' \<mapsto> ''K''] = (Inr ''Key backed up to copy'', fs') \<and>
     load_key sample_key_parse (\<lambda>_. False) (fs' ''copy'') = Inr (Some (generate ''now'' (replicate 32 CHR ''r'') ''u''))"
proof -
  let ?key = "generate ''now'' (replicate 32 CHR ''r'') ''u''"
  have l: "load_existing_key toy_keys [''key'' \<mapsto> ''K''] [] = Inr (toy_reset_config, ?key)"
    using toy_reset_facts(1) by (simp add: load_existing_key_def toy_keys_def toy_reset_def load_key_def sample_key_parse_def)
  then have rt: "\<forall>cfg key. load_existing_key toy_keys [''key'' \<mapsto> ''K''] [] = Inr (cfg, key) \<longrightarrow>
      ke_parse toy_keys (ke_render toy_keys key) = Some key"
    by (simp add: toy_keys_def sample_key_parse_def sample_key_render_def generate_def)
  obtain fs' :: key_files where c: "key_command toy_keys [] (KeyBackup ''copy'' False) [''key'' \<mapsto> ''K''] = (Inr ''Key backed up to copy'', fs')"
    using l by (simp add: backup_def toy_keys_def)
  have "load_key (ke_parse toy_keys) (ke_io toy_keys) (fs' ''copy'') = Inr (Some ?key)"
    using key_backup_restores [OF rt c] l by (auto simp: toy_keys_def)
  with c show ?thesis by (intro exI [of _ fs']) (simp only: toy_keys_def key_env.select_convs simp_thms)
qed

end
