(* ===== verification/TextSafety.thy ===== *)
theory TextSafety
  imports AuditRow SecretsProps
begin

text \<open>
  What is stored is text. In Rust a slice of a string that does not lie at character boundaries is a
  panic; the functions that cut strings (\<open>src/truncate.rs\<close>, \<open>src/audit.rs\<close>) or replace parts of them
  (\<open>src/secrets.rs\<close>) are shown to map UTF-8 to UTF-8, which is what slicing at boundaries amounts to.
\<close>

section \<open>Cutting at boundaries\<close>

lemma is_char_boundary_conv:
  "is_char_boundary s i \<longleftrightarrow> i = 0 \<or> i = length s \<or> (i < length s \<and> \<not> is_cont (s ! i))"
  by (auto simp: is_char_boundary_def is_cont_def in_range_def)

lemma matching_full:
  "matching ts s = length ts \<Longrightarrow> length ts \<le> length s \<and> (\<forall>j<length ts. (ts ! j) (s ! j))"
  by (induction ts s rule: matching.induct) (auto simp: nth_Cons split: if_splits nat.splits)

lemma matching_append: "matching ts s = length ts \<Longrightarrow> matching ts (take (length ts) s @ u) = length ts"
  by (induction ts s rule: matching.induct) (auto split: if_splits)

lemma second_cont: "second_of_3 b c \<Longrightarrow> is_cont c" "second_of_4 b c \<Longrightarrow> is_cont c"
  by (auto simp: second_of_3_def second_of_4_def is_cont_def in_range_def split: if_splits)

definition utf8_tests :: "char \<Rightarrow> (char \<Rightarrow> bool) list option" where
  "utf8_tests b =
     (if in_range 0 127 b then Some []
      else if in_range 194 223 b then Some [is_cont]
      else if in_range 224 239 b then Some [second_of_3 b, is_cont]
      else if in_range 240 244 b then Some [second_of_4 b, is_cont, is_cont]
      else None)"

lemma utf8_step_tests:
  "utf8_step (b # s) = (case utf8_tests b of None \<Rightarrow> (False, 1) | Some ts \<Rightarrow> (matching ts s = length ts, Suc (matching ts s)))"
  by (simp add: utf8_tests_def Let_def)

lemma utf8_tests_cont: "utf8_tests b = Some ts \<Longrightarrow> t \<in> set ts \<Longrightarrow> t c \<Longrightarrow> is_cont c"
  by (auto simp: utf8_tests_def second_cont split: if_splits)

lemma utf8_step_char:
  assumes "s \<noteq> []" and "fst (utf8_step s)"
  shows "snd (utf8_step s) \<le> length s" and "0 < j \<Longrightarrow> j < snd (utf8_step s) \<Longrightarrow> is_cont (s ! j)"
    and "utf8_step (take (snd (utf8_step s)) s @ u) = utf8_step s"
proof -
  obtain b t where s: "s = b # t" using assms(1) by (cases s) auto
  obtain ts where ts: "utf8_tests b = Some ts" "matching ts t = length ts"
    using assms(2) unfolding s utf8_step_tests by (auto split: option.splits)
  then have n: "snd (utf8_step s) = Suc (length ts)" by (simp add: s utf8_step_tests del: utf8_step.simps)
  show "snd (utf8_step s) \<le> length s" using n matching_full [OF ts(2)] s by simp
  show "is_cont (s ! j)" if "0 < j" "j < snd (utf8_step s)"
    using that n matching_full [OF ts(2)] utf8_tests_cont [OF ts(1), of "ts ! (j - 1)"] by (cases j) (auto simp: s)
  show "utf8_step (take (snd (utf8_step s)) s @ u) = utf8_step s"
    unfolding n by (simp add: s utf8_step_tests ts matching_append [OF ts(2)] del: utf8_step.simps)
qed

lemma utf8_valid_Nil [simp]: "utf8_valid []"
  by (subst utf8_valid.simps) simp

lemma utf8_valid_step: "s \<noteq> [] \<Longrightarrow> utf8_valid s \<longleftrightarrow> fst (utf8_step s) \<and> utf8_valid (drop (snd (utf8_step s)) s)"
  by (subst utf8_valid.simps) simp

lemma utf8_valid_char:
  assumes "s \<noteq> []" and "fst (utf8_step s)"
  shows "utf8_valid (take (snd (utf8_step s)) s @ u) \<longleftrightarrow> utf8_valid u"
proof -
  let ?n = "snd (utf8_step s)"
  have "take ?n s @ u \<noteq> []" using assms(1) utf8_step_pos [OF assms(1)] by simp
  then show ?thesis
    using utf8_step_char(1,3) [OF assms] assms(2) by (subst utf8_valid_step) simp_all
qed

lemma utf8_append: "utf8_valid s \<Longrightarrow> utf8_valid t \<Longrightarrow> utf8_valid (s @ t)"
proof (induction s rule: utf8_valid.induct)
  case (1 s)
  show ?case
  proof (cases "s = []")
    case False
    with 1 have v: "fst (utf8_step s)" "utf8_valid (drop (snd (utf8_step s)) s @ t)" by (simp_all add: utf8_valid_step)
    have "s @ t = take (snd (utf8_step s)) s @ drop (snd (utf8_step s)) s @ t" by simp
    with utf8_valid_char [OF False v(1)] v(2) show ?thesis by metis
  qed (use 1 in simp)
qed

lemma utf8_cut: "utf8_valid s \<Longrightarrow> is_char_boundary s i \<Longrightarrow> utf8_valid (take i s) \<and> utf8_valid (drop i s)"
proof (induction s arbitrary: i rule: utf8_valid.induct)
  case (1 s)
  show ?case
  proof (cases "s = [] \<or> i = 0")
    case False
    let ?n = "snd (utf8_step s)"
    from False 1 have v: "fst (utf8_step s)" "utf8_valid (drop ?n s)" by (simp_all add: utf8_valid_step)
    note char = utf8_step_char [OF _ v(1)]
    have n: "?n \<le> i"
    proof (rule ccontr)
      assume "\<not> ?n \<le> i"
      with char(1) char(2) [of i] False have "i < length s" "is_cont (s ! i)" by simp_all
      with 1(3) False show False by (simp add: is_char_boundary_conv)
    qed
    have i: "i \<le> length s" using 1(3) False by (auto simp: is_char_boundary_conv)
    have "is_char_boundary (drop ?n s) (i - ?n)" using 1(3) n i by (auto simp: is_char_boundary_conv)
    with 1(1) [of "i - ?n"] False v have cut: "utf8_valid (take (i - ?n) (drop ?n s))" "utf8_valid (drop (i - ?n) (drop ?n s))" by blast+
    have "take i s = take ?n s @ take (i - ?n) (drop ?n s)" using n by (metis le_add_diff_inverse take_add)
    then have "utf8_valid (take i s)" using utf8_valid_char [OF _ v(1)] cut(1) False by simp
    with cut(2) n show ?thesis by simp
  qed (use 1 in auto)
qed

lemma boundary_drop:
  "is_char_boundary s i \<Longrightarrow> c \<le> i \<Longrightarrow> is_char_boundary (drop c s) (i - c)"
  by (auto simp: is_char_boundary_conv)

lemma utf8_slice:
  assumes "utf8_valid s" and "is_char_boundary s c" and "is_char_boundary s i" and "c \<le> i"
  shows "utf8_valid (take (i - c) (drop c s))"
  using utf8_cut [OF utf8_cut [OF assms(1,2), THEN conjunct2] boundary_drop [OF assms(3,4)]] by simp

section \<open>Texts the code puts in\<close>

lemma ascii_digits: "list_all is_digit s \<Longrightarrow> ascii s"
  by (induction s) (simp_all add: is_digit_def in_range_def)

lemma utf8_show_nat [simp]: "utf8_valid (show_nat n)"
  by (rule utf8_valid_ascii) (rule ascii_digits [OF show_nat_digits])

lemma utf8_literal: "ascii s \<Longrightarrow> utf8_valid (s @ t) \<longleftrightarrow> utf8_valid t" "in_range 0 127 c \<Longrightarrow> utf8_valid (c # t) \<longleftrightarrow> utf8_valid t"
proof -
  show c: "in_range 0 127 c \<Longrightarrow> utf8_valid (c # t) \<longleftrightarrow> utf8_valid t" for c t
    by (subst utf8_valid.simps) (simp add: Let_def)
  show "ascii s \<Longrightarrow> utf8_valid (s @ t) \<longleftrightarrow> utf8_valid t"
    by (induction s) (simp_all add: c)
qed

lemmas utf8_text = utf8_literal(2) in_range_def utf8_append snap_boundary_boundary utf8_cut [THEN conjunct1] utf8_cut [THEN conjunct2]

section \<open>Truncation\<close>

lemma utf8_truncate_string: "utf8_valid s \<Longrightarrow> utf8_valid (truncate_string s)"
  by (simp add: truncate_string_def utf8_text)

lemma utf8_truncate_preview: "utf8_valid s \<Longrightarrow> utf8_valid (truncate_preview s)"
  by (simp add: truncate_preview_def utf8_text)

lemma utf8_truncate_raw_sampled:
  assumes "utf8_valid s"
  shows "utf8_valid (truncate_raw_sampled s)"
proof (cases "length s \<le> raw_head_bytes + raw_middle_bytes + raw_tail_bytes")
  case False
  let ?a = "snap_boundary s (length s div 2 - raw_middle_bytes div 2)"
  let ?b = "snap_boundary s (?a + raw_middle_bytes)"
  have "?a \<le> ?b"
    by (rule snap_boundary_greatest) (simp_all add: snap_boundary_le_length snap_boundary_boundary)
  then have "utf8_valid (take (?b - ?a) (drop ?a s))"
    using utf8_slice [OF assms snap_boundary_boundary snap_boundary_boundary] by blast
  with assms False show ?thesis by (simp add: truncate_raw_sampled_def Let_def utf8_text)
qed (use assms in \<open>simp add: truncate_raw_sampled_def\<close>)

section \<open>Redaction\<close>

lemma utf8_splice:
  "utf8_valid s \<Longrightarrow> is_char_boundary s c \<Longrightarrow> \<forall>h\<in>set hs. utf8_valid (h_pattern h) \<Longrightarrow> utf8_valid (splice s c hs)"
proof (induction s c hs rule: splice.induct)
  case (1 s cursor)
  then show ?case by (simp add: utf8_cut)
next
  case (2 s cursor h hs)
  show ?case
  proof (cases "range_ok s cursor h")
    case True
    then have b: "is_char_boundary s (h_start h)" "is_char_boundary s (h_end h)" "cursor \<le> h_start h"
      by (auto simp: range_ok_def)
    with True 2 have "utf8_valid (splice s (h_end h) hs)" by simp
    moreover have "utf8_valid (take (h_start h - cursor) (drop cursor s))"
      by (rule utf8_slice [OF 2(3,4) b(1,3)])
    moreover have "utf8_valid (h_pattern h)" using 2(5) by simp
    ultimately show ?thesis using True by (simp add: utf8_append utf8_literal(2) in_range_def)
  qed (use 2 in simp)
qed

lemma pick_preferred_pattern: "h_pattern (pick_preferred a b) \<in> {h_pattern a, h_pattern b}"
  by (simp add: pick_preferred_def)

lemma merge_from_patterns: "h_pattern ` set (merge_from gs ge w hs) \<subseteq> insert (h_pattern w) (h_pattern ` set hs)"
proof (induction gs ge w hs rule: merge_from.induct)
  case (2 gs ge w h hs)
  show ?case using 2 pick_preferred_pattern [of w h] by (cases "h_start h < ge") auto
qed simp

lemma scan_str_patterns: "h_pattern ` set (scan_str sc s key_name) \<subseteq> pt_name ` set (sc_patterns sc)"
proof -
  have "h_pattern ` set (merge_overlapping_hits hs) \<subseteq> h_pattern ` set hs" for hs
  proof (cases "sort_key h_start hs")
    case (Cons h rest)
    then have "set hs = insert h (set rest)" by (metis list.simps(15) set_sort)
    with Cons merge_from_patterns [of "h_start h" "h_end h" h rest] show ?thesis
      by (auto simp: merge_overlapping_hits_def)
  qed (auto simp: merge_overlapping_hits_def)
  moreover have "h_pattern ` set (raw_hits sc s key_name) \<subseteq> pt_name ` set (sc_patterns sc)"
    by (auto simp: raw_hits_def pattern_hits_def Let_def split: if_splits)
  ultimately show ?thesis unfolding scan_str_def by blast
qed

definition patterns_utf8 :: "scanner \<Rightarrow> bool" where
  "patterns_utf8 sc \<longleftrightarrow> (\<forall>p\<in>set (sc_patterns sc). utf8_valid (pt_name p))"

lemma utf8_redacted_text:
  assumes "patterns_utf8 sc" and "utf8_valid s"
  shows "utf8_valid (redact_ranges s (scan_str sc s key_name))"
proof -
  have "\<forall>h\<in>set (scan_str sc s key_name). utf8_valid (h_pattern h)"
    using assms(1) scan_str_patterns [of sc s key_name] by (auto simp: patterns_utf8_def)
  then show ?thesis using assms(2) by (simp add: redact_ranges_def Let_def utf8_splice is_char_boundary_def)
qed

section \<open>JSON values\<close>

definition json_utf8 :: "json \<Rightarrow> bool" where
  "json_utf8 v \<longleftrightarrow> list_all utf8_valid (json_strings v) \<and> list_all utf8_valid (json_keys v)"

lemma json_utf8_simps [simp]:
  "json_utf8 (JString s) \<longleftrightarrow> utf8_valid s"
  "json_utf8 (JArray arr) \<longleftrightarrow> (\<forall>x\<in>set arr. json_utf8 x)"
  "json_utf8 (JObject ms) \<longleftrightarrow> (\<forall>m\<in>set ms. utf8_valid (fst m) \<and> json_utf8 (snd m))"
  "json_utf8 JNull" "json_utf8 (JBool b)" "json_utf8 (JNumber n)"
  by (auto simp: json_utf8_def list_all_iff case_prod_beta ball_Un)

lemma json_utf8_walk:
  assumes "patterns_utf8 sc" and "json_utf8 v"
  shows "json_utf8 (fst (walk_json sc key_name v))"
proof -
  have s: "utf8_valid t" if "redacted_text sc s t" "utf8_valid s" for s t
    using that utf8_redacted_text [OF assms(1)] by (auto simp: redacted_text_def)
  have k: "utf8_valid t" if "redacted_key sc s t" "utf8_valid s" for s t
    using that s by (auto simp: redacted_key_def utf8_append utf8_literal(2) in_range_def)
  show ?thesis
    using assms(2) walk_strings [of _ sc key_name v] walk_keys [of _ sc key_name v] s k
    unfolding json_utf8_def list_all_iff by blast
qed

lemma json_utf8_truncate:
  "json_utf8 v \<Longrightarrow> json_utf8 (truncate_json_semantic v)"
  "\<forall>x\<in>set arr. json_utf8 x \<Longrightarrow> \<forall>x\<in>set (truncate_array arr). json_utf8 x"
proof (induction v and arr rule: truncate_json_semantic_truncate_array.induct)
  case (3 ms)
  let ?ok = "\<lambda>ms. \<forall>m\<in>set ms. utf8_valid (fst m) \<and> json_utf8 (snd m)"
  have ins: "?ok out \<Longrightarrow> utf8_valid k \<Longrightarrow> json_utf8 v \<Longrightarrow> ?ok (obj_insert k v out)" for k v out
    using set_obj_insert [of k v out] by fastforce
  have fold: "?ok out \<Longrightarrow> ?ok ms \<Longrightarrow> ?ok (foldl (\<lambda>out (k, v). obj_insert k v out) out ms)" for out ms
  proof (induction ms arbitrary: out)
    case (Cons m ms)
    obtain k v where m: "m = (k, v)" by fastforce
    with Cons.prems ins [of out k v] have "?ok (obj_insert k v out)" "?ok ms" by simp_all
    from Cons.IH [OF this] show ?case by (simp add: m)
  qed simp
  have "json_utf8 (truncate_json_semantic (snd m))" if "m \<in> set ms" for m
    using 3 that by (cases m) fastforce
  with 3 have "?ok (map (\<lambda>(k, v). (k, truncate_json_semantic v)) ms)" by (simp add: case_prod_beta)
  then have "?ok (foldl (\<lambda>out (k, v). obj_insert k v out) [] (map (\<lambda>(k, v). (k, truncate_json_semantic v)) ms))"
    by (rule fold [rotated]) simp
  then show ?case by (simp only: truncate_json_semantic.simps json_utf8_simps)
next
  case (5 arr)
  show ?case
  proof (cases "length arr \<le> array_keep_head + array_keep_tail")
    case True
    with 5 show ?thesis by simp
  next
    case False
    have "\<forall>x\<in>set (take array_keep_head arr). json_utf8 (truncate_json_semantic x)"
      using "5.IH"(2) [OF False] "5.prems" in_set_takeD by fast
    moreover have "\<forall>x\<in>set (drop (length arr - array_keep_tail) arr). json_utf8 (truncate_json_semantic x)"
      using "5.IH"(3) [OF False] "5.prems" in_set_dropD by fast
    moreover have "utf8_valid (''... '' @ show_nat n @ '' items omitted ...'')" for n
      by (simp add: utf8_append utf8_literal(2) in_range_def)
    ultimately show ?thesis using False by (auto simp del: append.simps)
  qed
qed (simp_all add: utf8_truncate_string)

fun payload_utf8 :: "payload \<Rightarrow> bool" where
  "payload_utf8 (Json v) \<longleftrightarrow> json_utf8 v"
| "payload_utf8 (Raw s) \<longleftrightarrow> utf8_valid s"

lemma payload_utf8_redact:
  assumes "patterns_utf8 sc" and "payload_utf8 p"
  shows "payload_utf8 (fst (payload_redact sc p))"
proof (cases p)
  case (Json v)
  with assms json_utf8_walk [OF assms(1), of v None] show ?thesis
    by (simp add: payload_redact_def scan_and_redact_json_def case_prod_beta)
next
  case (Raw s)
  with assms utf8_redacted_text [OF assms(1), of s None] show ?thesis
    by (simp add: payload_redact_def scan_and_redact_text_def Let_def)
qed

lemma utf8_render:
  assumes show_json: "\<And>v. json_utf8 v \<Longrightarrow> utf8_valid (show_json v)" and "payload_utf8 p"
  shows "utf8_valid (render show_json t p)"
proof (cases p)
  case (Json v)
  have "utf8_valid (truncate_json_preview show_json v preview_bytes)"
  proof -
    have v: "utf8_valid (show_json v)" using assms Json by simp
    consider "truncate_json_preview show_json v preview_bytes = show_json v"
      | j where "is_char_boundary (show_json v) j" "truncate_json_preview show_json v preview_bytes =
          preview_envelope show_json (length (show_json v)) (take j (show_json v))"
      using truncate_json_preview_bounded [of show_json v preview_bytes] by blast
    then show ?thesis
    proof cases
      case 2
      with v have "utf8_valid (take j (show_json v))" by (simp add: utf8_cut)
      then show ?thesis unfolding 2(2) preview_envelope_def by (intro show_json) (simp add: utf8_text)
    qed (use v in simp)
  qed
  with assms Json json_utf8_truncate(1) [of v] show ?thesis by (simp add: render_def split: tier.split)
next
  case (Raw s)
  with assms show ?thesis
    by (simp add: render_def utf8_truncate_preview utf8_truncate_raw_sampled split: tier.split)
qed

section \<open>The row\<close>

text \<open>
  C23. What a row records of a call is text at every tier: whatever the scanner reports, also ranges that
  cut a character in two, redaction and truncation turn valid UTF-8 into valid UTF-8, so no slice
  they take can panic. Assumed are inputs that are text, as the parsed messages are, pattern
  names that are, and a JSON printer that prints text.
\<close>

theorem recorded_payloads_are_text:
  assumes "patterns_utf8 (ae_scanner env)" and "\<And>v. json_utf8 v \<Longrightarrow> utf8_valid (ae_show env v)"
    and "pred_option json_utf8 (pc_args call)" and "pred_option payload_utf8 (co_result outcome)"
    and "pred_option payload_utf8 (co_error outcome)"
    and "build_entry env now ms call outcome = (entry, dest, fp)"
  shows "pred_option utf8_valid (e_args_json entry) \<and> pred_option utf8_valid (e_result_json entry) \<and>
    pred_option utf8_valid (e_error_message entry)"
proof -
  have "pred_option payload_utf8 (fst (redact_option (ae_scanner env) p))" if "pred_option payload_utf8 p" for p
    using that payload_utf8_redact [OF assms(1)] by (cases p) (simp_all add: redact_option_def case_prod_beta)
  then have r: "pred_option utf8_valid (map_option (render (ae_show env) t) (fst (redact_option (ae_scanner env) p)))"
    if "pred_option payload_utf8 p" for t p
    using that utf8_render [OF assms(2)] by (fastforce simp: option.pred_map option.pred_set)
  have "pred_option payload_utf8 (map_option Json (pc_args call))" using assms(3) by (cases "pc_args call") simp_all
  from r [OF this] r [OF assms(4)] r [OF assms(5)] assms(6) show ?thesis
    by (auto simp: build_entry_def Let_def case_prod_beta simp del: option.map_comp)
qed

text \<open>A scanner that reports half of a two-byte character as a secret: that range is not replaced.\<close>

theorem recorded_payloads_are_text_witness:
  "\<exists>entry dest fp. build_entry \<lparr>ae_scanner = sample_scanner, ae_show = (\<lambda>v. case v of JString s \<Rightarrow> s | _ \<Rightarrow> ''{}''),
       ae_records_json = (\<lambda>_. Some ''[]''), ae_to_vec = (\<lambda>_. Some []), ae_session_id = ''s'', ae_server_name = ''srv'', ae_tier = Minimal\<rparr>
       ''now'' 0 \<lparr>pc_tool_name = ''t'', pc_args = Some (JString [CHR 0xC3, CHR 0xA9]), pc_bytes_in = 2, pc_started = 0\<rparr> timed_out =
     (entry, dest, fp) \<and> pred_option utf8_valid (e_args_json entry)"
  (is "\<exists>entry dest fp. build_entry ?env ''now'' 0 ?call timed_out = (entry, dest, fp) \<and> _")
proof -
  have p: "patterns_utf8 (ae_scanner ?env)"
    by (simp add: patterns_utf8_def sample_scanner_def utf8_valid_ascii in_range_def)
  have s: "utf8_valid (ae_show ?env v)" if "json_utf8 v" for v
    using that by (cases v) (simp_all add: utf8_valid_ascii in_range_def)
  have a: "pred_option json_utf8 (pc_args ?call)"
    by (simp add: utf8_valid_step Let_def in_range_def is_cont_def)
  obtain entry dest fp where b: "build_entry ?env ''now'' 0 ?call timed_out = (entry, dest, fp)" by (metis prod_cases3)
  from recorded_payloads_are_text [OF p s a _ _ b] b show ?thesis by (auto simp: timed_out_def)
qed

end
