(* ===== verification/StdioRelay.thy ===== *)
theory StdioRelay
  imports StdioProps
begin

text \<open>
  \<open>src/proxy.rs\<close>: the bytes of a session from one process to the other, through the reader thread,
  the two pumps and the thread that writes to the client. The channels between them hold their items
  in order; how full they are only delays. A receiver that is gone ends the reader thread, which is the reading of a shorter list.
\<close>

section \<open>The reader thread\<close>

lemma lf_position_less: "lf_position s = Some i \<Longrightarrow> i < length s"
  using lf_position_Some by blast

lemma read_line_measure:
  "read_line m line bufs = (Line buf, rest) \<Longrightarrow> bufs \<noteq> [] \<Longrightarrow>
     length rest + length (input_bytes rest) < length bufs + length (input_bytes bufs)"
proof (induction m line bufs arbitrary: rest rule: read_line.induct)
  case (3 m line av bufs)
  show ?case
  proof (cases "bufs = [] \<or> av = []")
    case True
    with 3(2) show ?thesis
      by (cases "lf_position av") (auto simp: Let_def split: if_splits dest: lf_position_less)
  next
    case False
    with 3 show ?thesis
      by (cases "lf_position av") (fastforce simp: Let_def split: if_splits dest: lf_position_less)+
  qed
qed auto

text \<open>One input per line, up to the end of the stream, the first error or the first line that is too long.\<close>

definition input_done :: "client_input \<Rightarrow> bool" where
  "input_done i = (case i of Line buf \<Rightarrow> False | _ \<Rightarrow> True)"

function reader_loop :: "nat \<Rightarrow> (string + bytes) list \<Rightarrow> client_input list" where
  "reader_loop max_bytes bufs =
     (let i = fst (read_client_line max_bytes bufs)
      in i # (if input_done i then [] else reader_loop max_bytes (snd (read_client_line max_bytes bufs))))"
  by auto
termination
proof (relation "measure (\<lambda>(m, bufs). length bufs + length (input_bytes bufs))")
  fix m bufs and i :: client_input
  assume "i = fst (read_client_line m bufs)" and "\<not> input_done i"
  then obtain buf where "fst (read_client_line m bufs) = Line buf" by (cases "fst (read_client_line m bufs)") (auto simp: input_done_def)
  then have r: "read_line m [] bufs = (Line buf, snd (read_client_line m bufs))" by (metis prod.collapse read_client_line_def)
  then have "bufs \<noteq> []" by auto
  with read_line_measure [OF r]
  show "((m, snd (read_client_line m bufs)), m, bufs) \<in> measure (\<lambda>(m, bufs). length bufs + length (input_bytes bufs))" by simp
qed simp

declare reader_loop.simps [simp del]

section \<open>The response side\<close>

text \<open>\<open>read_until\<close> for a line feed, which knows no limit: the bytes read, an error, and what is left.\<close>

fun read_until :: "bytes \<Rightarrow> (string + bytes) list \<Rightarrow> (string + bytes) \<times> (string + bytes) list" where
  "read_until line [] = (Inr line, [])"
| "read_until line (Inl e # bufs) = (Inl e, bufs)"
| "read_until line (Inr available # bufs) =
     (if available = [] then (Inr line, bufs)
      else case lf_position available of
        Some i \<Rightarrow> (Inr (line @ take (i + 1) available), if drop (i + 1) available = [] then bufs else Inr (drop (i + 1) available) # bufs)
      | None \<Rightarrow> read_until (line @ available) bufs)"

lemma read_until_bytes:
  "read_until line bufs = (Inr buf, rest) \<Longrightarrow> buf @ input_bytes rest = line @ input_bytes bufs"
proof (induction line bufs arbitrary: buf rest rule: read_until.induct)
  case (3 line av bufs)
  have split: "take k av @ drop k av @ z = av @ z" for k z
    by (simp add: append_assoc [symmetric] del: append_assoc)
  show ?case
    using 3 split [of _ "input_bytes bufs"] by (cases "lf_position av") (fastforce split: if_splits)+
qed auto

text \<open>The lines the pump reads: it ends at an error and at the end of the stream.\<close>

function child_lines :: "(string + bytes) list \<Rightarrow> bytes list" where
  "child_lines bufs =
     (case fst (read_until [] bufs) of
        Inl e \<Rightarrow> []
      | Inr buf \<Rightarrow> if buf = [] then [] else buf # child_lines (snd (read_until [] bufs)))"
  by auto
termination
proof (relation "measure (\<lambda>bufs. length (input_bytes bufs))")
  fix bufs :: "(string + bytes) list" and buf
  assume "fst (read_until [] bufs) = Inr buf" and ne: "buf \<noteq> []"
  then have "read_until [] bufs = (Inr buf, snd (read_until [] bufs))" by (metis prod.collapse)
  from arg_cong [OF read_until_bytes [OF this], of length] ne
  show "(snd (read_until [] bufs), bufs) \<in> measure (\<lambda>bufs. length (input_bytes bufs))" by (cases buf) simp_all
qed simp

declare child_lines.simps [simp del]

section \<open>Streams without faults\<close>

text \<open>No read fails, and a buffer is empty only at the end, after which there is none.\<close>

definition smooth :: "(string + bytes) list \<Rightarrow> bool" where
  "smooth bufs \<longleftrightarrow> list_all (\<lambda>b. case b of Inl e \<Rightarrow> False | Inr c \<Rightarrow> c \<noteq> []) bufs"

lemma smooth_simps [simp]: "smooth []" "\<not> smooth (Inl e # bufs)" "smooth (Inr b # bufs) \<longleftrightarrow> b \<noteq> [] \<and> smooth bufs"
  by (simp_all add: smooth_def)

lemma read_until_smooth:
  "smooth bufs \<Longrightarrow> CHR 0x0A \<notin> set line \<Longrightarrow> read_until line bufs = (r, rest) \<Longrightarrow>
     smooth rest \<and> (\<exists>buf. r = Inr buf \<and> ((rest = [] \<and> CHR 0x0A \<notin> set buf) \<or> (buf \<noteq> [] \<and> last buf = CHR 0x0A)))"
proof (induction line bufs arbitrary: rest rule: read_until.induct)
  case (3 line av bufs)
  show ?case
  proof (cases "lf_position av")
    case None
    with 3 show ?thesis by (simp add: lf_position_None)
  next
    case (Some i)
    then have "take (i + 1) av \<noteq> []" using 3(2) by simp
    with 3(2,4) Some take_line [OF Some] show ?thesis by (auto split: if_splits)
  qed
qed auto

lemma read_line_smooth:
  "smooth bufs \<Longrightarrow> read_line m line bufs = (i, rest) \<Longrightarrow>
     smooth rest \<and> (case i of Line buf \<Rightarrow> True | Eof \<Rightarrow> line @ input_bytes bufs = [] | ReadFailure e \<Rightarrow> False | Oversized n \<Rightarrow> m < n)"
proof (induction m line bufs arbitrary: rest rule: read_line.induct)
  case (3 m line av bufs)
  then show ?case
    by (cases "lf_position av") (fastforce simp: Let_def split: if_splits client_input.splits)+
qed (auto split: if_splits)

section \<open>From the client to the target\<close>

lemma register_line_gate [simp]: "begin_input (so_session (register_line env n msgs s)) = begin_input (so_session s)"
proof (induction msgs arbitrary: s)
  case (Cons msg msgs)
  then show ?case
    by (simp add: case_prod_beta Let_def log_if_def begin_input_def permit_register_def set_calls_def split: option.split)
qed simp

lemma client_line_relay:
  assumes "client_line env buf w s = (r, s')"
  shows "so_to_target s' = so_to_target s \<or> so_to_target s' = so_to_target s @ [buf]"
    and "r = None \<Longrightarrow> so_to_target s' = so_to_target s @ [buf]" and "r \<noteq> Some ClientEof"
    and "begin_input (so_session s) \<Longrightarrow> w = Written \<Longrightarrow> r = None \<and> begin_input (so_session s')"
  using assms by (auto simp: client_line_def Let_def split: if_splits write_result.splits)

definition one_line :: "bytes \<Rightarrow> bool" where
  "one_line l \<longleftrightarrow> l \<noteq> [] \<and> length l \<le> max_line_bytes \<and> CHR 0x0A \<notin> set (butlast l)"

text \<open>The reader's next input, and the rest of the stream.\<close>

lemma reader_loop_Cons:
  assumes "reader_loop m bufs = i # is"
  shows "i = fst (read_client_line m bufs)" and "is = (if input_done i then [] else reader_loop m (snd (read_client_line m bufs)))"
  using assms unfolding reader_loop.simps [of m bufs] by (auto simp: Let_def)

lemma reader_loop_nonempty [simp]: "reader_loop m bufs \<noteq> []"
  by (subst reader_loop.simps) (simp add: Let_def)

text \<open>
  C14. The client's bytes reach the target unchanged: whatever the buffers they are read in, whatever
  becomes of the writes and whenever the pump is stopped (after the reader's first \<open>k\<close> inputs), the lines
  forwarded are, one after the other, the beginning of the client's stream. If the pump ends because the
  client closed its stream, all of it was forwarded; and while the gate is open, with no fault of a read or
  a write, it ends for no other reason, except for the stop and for a line over the limit.
\<close>

theorem client_stream_relayed:
  assumes "map fst iws = map FromReader (take k (reader_loop max_line_bytes bufs)) @ (if stopped then [StopSignal] else [])"
    and "stopped \<or> length (reader_loop max_line_bytes bufs) \<le> k" and "pump_client_to_child env iws s = (x, s')"
  shows "\<exists>ls. so_to_target s' = so_to_target s @ ls \<and> list_all one_line ls \<and> prefix (concat ls) (input_bytes bufs) \<and>
    (smooth bufs \<longrightarrow> x = ClientEof \<longrightarrow> concat ls = input_bytes bufs) \<and>
    (smooth bufs \<longrightarrow> begin_input (so_session s) \<longrightarrow> list_all (\<lambda>w. w = Written) (map snd iws) \<longrightarrow>
      x = ClientEof \<or> (x = ShutdownRequested \<and> stopped) \<or> (\<exists>n. x = ProtocolSizeRefusal n \<and> max_line_bytes < n))"
  using assms
proof (induction k arbitrary: iws bufs s)
  case 0
  then have "stopped" "x = ShutdownRequested" "s' = s" by (auto simp: Cons_eq_map_conv)
  then show ?case by (intro exI [of _ "[]"]) simp
next
  case (Suc k)
  let ?rest = "snd (read_client_line max_line_bytes bufs)"
  obtain i "is" where loop: "reader_loop max_line_bytes bufs = i # is" by (cases "reader_loop max_line_bytes bufs") simp_all
  note i = reader_loop_Cons(1) [OF loop] and rest = reader_loop_Cons(2) [OF loop]
  obtain w jws where iws: "iws = (FromReader i, w) # jws"
    and tail: "map fst jws = map FromReader (take k is) @ (if stopped then [StopSignal] else [])"
    using Suc.prems(1) by (auto simp: loop Cons_eq_map_conv)
  have r: "read_line max_line_bytes [] bufs = (i, ?rest)" using i by (simp add: read_client_line_def)
  show ?case
  proof (cases i)
    case (Line buf)
    have line: "buf @ input_bytes ?rest = input_bytes bufs" "one_line buf"
      using read_line_result [of "[]" max_line_bytes bufs buf ?rest] r Line by (simp_all add: one_line_def)
    obtain e t where cl: "client_line env buf w s = (e, t)" by fastforce
    note relay = client_line_relay [OF cl]
    have go_on: "is = reader_loop max_line_bytes ?rest" using rest Line by (simp add: input_done_def)
    show ?thesis
    proof (cases e)
      case None
      with Suc.prems(3) iws Line cl have "pump_client_to_child env jws t = (x, s')" by simp
      moreover have "stopped \<or> length (reader_loop max_line_bytes ?rest) \<le> k" using Suc.prems(2) loop go_on by auto
      ultimately obtain ls where ls: "so_to_target s' = so_to_target t @ ls" "list_all one_line ls" "prefix (concat ls) (input_bytes ?rest)"
        "smooth ?rest \<longrightarrow> x = ClientEof \<longrightarrow> concat ls = input_bytes ?rest"
        "smooth ?rest \<longrightarrow> begin_input (so_session t) \<longrightarrow> list_all (\<lambda>w. w = Written) (map snd jws) \<longrightarrow>
          x = ClientEof \<or> (x = ShutdownRequested \<and> stopped) \<or> (\<exists>n. x = ProtocolSizeRefusal n \<and> max_line_bytes < n)"
        using Suc.IH [of jws ?rest t] tail go_on by blast
      have "smooth bufs \<longrightarrow> smooth ?rest" using read_line_smooth [OF _ r] by simp
      moreover have "begin_input (so_session s) \<longrightarrow> w = Written \<longrightarrow> begin_input (so_session t)" using relay(4) by simp
      ultimately show ?thesis
        using ls relay(2) [OF None] line by (intro exI [of _ "buf # ls"]) (auto simp: iws line(1) [symmetric])
    next
      case (Some e')
      with Suc.prems(3) iws Line cl have "x = e'" "s' = t" by simp_all
      with relay Some have "x \<noteq> ClientEof" by simp
      moreover have "begin_input (so_session s) \<longrightarrow> w \<noteq> Written" using relay(4) Some by blast
      ultimately show ?thesis
        using relay(1) line \<open>s' = t\<close> by (elim disjE) (rule exI [of _ "[]"] exI [of _ "[buf]"], auto simp: iws line(1) [symmetric])+
    qed
  next
    case Eof
    with Suc.prems(3) iws read_line_smooth [OF _ r] show ?thesis by (intro exI [of _ "[]"]) auto
  next
    case (ReadFailure e)
    with Suc.prems(3) iws read_line_smooth [OF _ r] show ?thesis by (intro exI [of _ "[]"]) auto
  next
    case (Oversized n)
    with Suc.prems(3) iws read_line_smooth [OF _ r] show ?thesis by (intro exI [of _ "[]"]) auto
  qed
qed

section \<open>From the target to the client\<close>

lemma fold_target_message_client [simp]: "so_to_client (fold (target_message env n) msgs s) = so_to_client s"
proof (induction msgs arbitrary: s)
  case (Cons msg msgs)
  have "so_to_client (target_message env n msg s) = so_to_client s"
    by (simp add: target_message_def log_if_def case_prod_beta split: option.split)
  with Cons show ?case by simp
qed simp

lemma target_line_relay:
  assumes "target_line env buf written s = (r, s')"
  shows "r \<Longrightarrow> so_to_client s' = so_to_client s @ [buf]" and "\<not> r \<Longrightarrow> so_to_client s' = so_to_client s"
    and "buf \<noteq> [] \<Longrightarrow> written \<Longrightarrow> \<not> r \<Longrightarrow> max_line_bytes < length buf \<and> last buf \<noteq> CHR 0x0A"
  using assms by (auto simp: target_line_def split: if_splits)

text \<open>What the pump does with the first line of the stream, and where the stream goes on.\<close>

lemma child_lines_Cons:
  assumes "child_lines bufs = buf # ls"
  shows "read_until [] bufs = (Inr buf, snd (read_until [] bufs))" and "buf \<noteq> []" and "ls = child_lines (snd (read_until [] bufs))"
  using assms unfolding child_lines.simps [of bufs] by (auto split: sum.splits if_splits simp: prod_eq_iff)

lemma child_lines_Nil:
  assumes "child_lines bufs = []" and "smooth bufs"
  shows "input_bytes bufs = []"
proof -
  obtain r rest where r: "read_until [] bufs = (r, rest)" by fastforce
  from read_until_smooth [OF assms(2) _ r] obtain buf where buf: "r = Inr buf" "rest = [] \<or> buf \<noteq> []" by auto
  with assms(1) r have "buf = []" unfolding child_lines.simps [of bufs] by (auto split: if_splits)
  with read_until_bytes [of "[]" bufs buf rest] r buf show ?thesis by auto
qed

text \<open>
  The thread that writes to the client: each request is written and flushed, and answered; the first
  failure ends the thread, and a write can fail after any number of bytes. The second component is
  the replies, which later requests do not get.
\<close>

datatype output_result = Flushed | WriteBroke nat string | FlushBroke string

fun stdout_writer :: "(bytes \<times> output_result) list \<Rightarrow> bytes \<times> (string + unit) list" where
  "stdout_writer [] = ([], [])"
| "stdout_writer ((buf, r) # requests) =
     (case r of
        Flushed \<Rightarrow> (let (out, replies) = stdout_writer requests in (buf @ out, Inr () # replies))
      | WriteBroke n e \<Rightarrow> (take n buf, [Inl e])
      | FlushBroke e \<Rightarrow> (buf, [Inl e]))"

text \<open>The lines that are sent to it: the pump ends at the first that is not.\<close>

definition sendable :: "bytes \<Rightarrow> bool" where
  "sendable buf \<longleftrightarrow> length buf \<le> max_line_bytes \<or> last buf = CHR 0x0A"

text \<open>
  C15. The target's bytes reach the client unchanged: what the writer thread puts out is the beginning of
  the target's output, and holds every line the pump takes for written. Without a fault of a read or a
  write all of the output is put out, except for one thing: a last line without a line feed that is over
  the limit is held back. A line that ends in a line feed is written however long it is.
\<close>

theorem target_stream_relayed:
  assumes "map fst requests = takeWhile sendable (child_lines bufs)" and "(out, replies) = stdout_writer requests"
    and "lws = zip (child_lines bufs) (map is_ok replies @ [False])"
  shows "prefix out (input_bytes bufs) \<and>
    (\<exists>ls. so_to_client (pump_child_to_client env lws s) = so_to_client s @ ls \<and> prefix (concat ls) out \<and>
      (list_all (\<lambda>r. snd r = Flushed) requests \<longrightarrow> concat ls = out)) \<and>
    (smooth bufs \<longrightarrow> list_all (\<lambda>r. snd r = Flushed) requests \<longrightarrow>
      input_bytes bufs = out \<or> (\<exists>l. input_bytes bufs = out @ l \<and> max_line_bytes < length l \<and> CHR 0x0A \<notin> set l))"
  using assms
proof (induction requests arbitrary: bufs s out replies lws)
  case Nil
  show ?case
  proof (cases "child_lines bufs")
    case Nil
    with Nil.prems child_lines_Nil [OF Nil] show ?thesis by simp
  next
    case (Cons buf ls)
    with Nil.prems(1) have big: "max_line_bytes < length buf" "last buf \<noteq> CHR 0x0A" by (simp_all add: sendable_def split: if_splits)
    note line = child_lines_Cons [OF Cons]
    have "smooth bufs \<longrightarrow> input_bytes bufs = buf \<and> CHR 0x0A \<notin> set buf"
      using read_until_smooth [OF _ _ line(1)] read_until_bytes [OF line(1)] big(2) by auto
    moreover have "pump_child_to_client env lws s = s" using Nil.prems(2,3) Cons big by (simp add: target_line_def)
    ultimately show ?thesis using Nil.prems(2) big by simp
  qed
next
  case (Cons req requests)
  obtain buf r where req: "req = (buf, r)" by fastforce
  obtain lines where c: "child_lines bufs = buf # lines" and send: "sendable buf" and more: "map fst requests = takeWhile sendable lines"
    using Cons.prems(1) req by (cases "child_lines bufs") (auto split: if_splits)
  note line = child_lines_Cons [OF c]
  let ?rest = "snd (read_until [] bufs)"
  have bytes: "input_bytes bufs = buf @ input_bytes ?rest" using read_until_bytes [OF line(1)] by simp
  show ?case
  proof (cases "r = Flushed")
    case True
    obtain out' replies' where w: "(out', replies') = stdout_writer requests" by (metis prod.collapse)
    with Cons.prems(2) req True have out: "out = buf @ out'" "replies = Inr () # replies'" by (auto split: prod.splits)
    obtain t where tl: "target_line env buf True s = (True, t)"
      using line(2) send by (auto simp: target_line_def sendable_def)
    let ?lws = "zip (child_lines ?rest) (map is_ok replies' @ [False])"
    have run: "pump_child_to_client env lws s = pump_child_to_client env ?lws t"
      using Cons.prems(3) c line(3) out(2) tl by simp
    have "map fst requests = takeWhile sendable (child_lines ?rest)" using more line(3) by simp
    note IH = Cons.IH [OF this w refl, of t]
    from IH obtain ls where ls: "so_to_client (pump_child_to_client env ?lws t) = so_to_client t @ ls" "prefix (concat ls) out'"
      "list_all (\<lambda>r. snd r = Flushed) requests \<longrightarrow> concat ls = out'" by blast
    have "smooth bufs \<longrightarrow> smooth ?rest" using read_until_smooth [OF _ _ line(1)] by simp
    moreover have "so_to_client t = so_to_client s @ [buf]" using target_line_relay(1) [OF tl] by simp
    then have "\<exists>ls. so_to_client (pump_child_to_client env lws s) = so_to_client s @ ls \<and> prefix (concat ls) out \<and>
        (list_all (\<lambda>r. snd r = Flushed) (req # requests) \<longrightarrow> concat ls = out)"
      unfolding run by (intro exI [of _ "buf # ls"]) (use ls out(1) in simp)
    ultimately show ?thesis using IH out(1) bytes by auto
  next
    case False
    with Cons.prems(2) req obtain e where out: "replies = [Inl e]" "prefix out buf" by (cases r) (auto simp: take_is_prefix)
    then have "pump_child_to_client env lws s = s" using Cons.prems(3) c line(2) by (simp add: target_line_def)
    then show ?thesis using False req out(2) bytes by (auto intro: exI [of _ "[]"])
  qed
qed

section \<open>Witnesses\<close>

lemma sample_reads:
  "reader_loop max_line_bytes [Inr ''a'', Inr (''b'' @ [CHR 0x0A] @ ''c'')] = [Line (''ab'' @ [CHR 0x0A]), Line ''c'', Eof]"
  by (simp add: reader_loop.simps read_client_line_def input_done_def max_line_bytes_def)

theorem client_stream_relayed_witness:
  "\<exists>x s'. pump_client_to_child sample_stdio
       [(FromReader (Line (''ab'' @ [CHR 0x0A])), Written), (FromReader (Line ''c''), Written), (FromReader Eof, Written)] (new_stdio ''s'') = (x, s') \<and>
     concat (so_to_target s') = ''ab'' @ [CHR 0x0A] @ ''c''"
proof -
  let ?iws = "[(FromReader (Line (''ab'' @ [CHR 0x0A])), Written), (FromReader (Line ''c''), Written), (FromReader Eof, Written)]"
  obtain x s' where run: "pump_client_to_child sample_stdio ?iws (new_stdio ''s'') = (x, s')" by fastforce
  let ?loop = "reader_loop max_line_bytes [Inr ''a'', Inr (''b'' @ [CHR 0x0A] @ ''c'')]"
  have m: "map fst ?iws = map FromReader (take 3 ?loop) @ (if False then [StopSignal] else [])" "False \<or> length ?loop \<le> 3"
    unfolding sample_reads by simp_all
  have "x = ClientEof"
  proof -
    have open0: "begin_input (so_session (new_stdio ''s''))" by (simp add: begin_input_def new_stdio_def new_session_def)
    have go: "\<exists>t. client_line sample_stdio buf Written s = (None, t) \<and> begin_input (so_session t)" if "begin_input (so_session s)" for buf s
      using client_line_relay(4) [of sample_stdio buf Written s] that by (metis prod.exhaust)
    from go [OF open0, of "''ab'' @ [CHR 0x0A]"] go [of _ "''c''"] run show ?thesis by fastforce
  qed
  then have "concat (so_to_target s') = ''ab'' @ [CHR 0x0A] @ ''c''"
    using client_stream_relayed [OF m run] by (auto simp: new_stdio_def)
  with run show ?thesis by blast
qed

lemma sample_output: "child_lines [Inr (''xy'' @ [CHR 0x0A] @ ''z'')] = [''xy'' @ [CHR 0x0A], ''z'']"
  by (simp add: child_lines.simps)

theorem target_stream_relayed_witness:
  "concat (so_to_client (pump_child_to_client sample_stdio [(''xy'' @ [CHR 0x0A], True), (''z'', True)] (new_stdio ''s''))) =
     ''xy'' @ [CHR 0x0A] @ ''z''"
proof -
  let ?bufs = "[Inr (''xy'' @ [CHR 0x0A] @ ''z'')] :: (string + bytes) list"
  let ?reqs = "[(''xy'' @ [CHR 0x0A], Flushed), (''z'', Flushed)]"
  have m: "map fst ?reqs = takeWhile sendable (child_lines ?bufs)" unfolding sample_output by (simp add: sendable_def max_line_bytes_def)
  have w: "(''xy'' @ [CHR 0x0A] @ ''z'', [Inr (), Inr ()]) = stdout_writer ?reqs" by simp
  have "zip (child_lines ?bufs) (map is_ok [Inr (), Inr ()] @ [False]) = [(''xy'' @ [CHR 0x0A], True), (''z'', True)]"
    unfolding sample_output by simp
  then show ?thesis using target_stream_relayed [OF m w refl, of sample_stdio "new_stdio ''s''"] by (auto simp: new_stdio_def)
qed

end
