(* ===== verification/Listeners.thy ===== *)
theory Listeners
  imports StartupProps ServerProps
begin

text \<open>
  \<open>build_listener\<close> of \<open>src/http/server.rs\<close>: from a configured server to the listener that handles its
  requests, and what its default origins let through. The parsers, the clock and the printing that a
  listener of the model carries come with a template.
\<close>

definition build_listener ::
  "parsers \<Rightarrow> listener \<Rightarrow> (socket_addr \<Rightarrow> string) \<Rightarrow> config \<Rightarrow> audit \<Rightarrow> socket_addr \<times> server_config \<Rightarrow> listener result" where
  "build_listener px base show_addr c a bound =
     (let (addr, s) = bound
      in and_then (upstream_uri px s) (\<lambda>_.
           case li_parse_uri base (sv_upstream s) of
             None \<Rightarrow> Inl (Invalid ''unparseable upstream'')
           | Some u \<Rightarrow>
               Inr (base\<lparr>li_server_name := sv_name s, li_upstream := u, li_local_addr := show_addr addr,
                 li_allowed_origins := (case sv_allowed_origins s of Some os \<Rightarrow> os | None \<Rightarrow> default_allowed_origins),
                 li_config := c,
                 li_env := (li_env base)\<lparr>ae_scanner := (ae_scanner (li_env base))
                   \<lparr>sc_patterns := au_patterns a, sc_allowlist := au_allowlist a\<rparr>\<rparr>\<rparr>)))"

text \<open>A page served from this machine over HTTP, on whatever port.\<close>

definition loopback_page :: "string \<Rightarrow> bool" where
  "loopback_page origin \<longleftrightarrow>
     (\<exists>host\<in>set [''localhost'', ''127.0.0.1'', ''[::1]'']. origin = ''http://'' @ host \<or>
       (\<exists>port. list_all is_digit port \<and> origin = ''http://'' @ host @ '':'' @ port))"

lemma default_origins: "origin_allowed origin default_allowed_origins \<longleftrightarrow> loopback_page origin"
  using origin_allowed_exact [of origin default_allowed_origins] by (simp add: default_allowed_origins_def loopback_page_def)

lemma origin_refusal:
  "(\<exists>m. fst (proxy_request limited l conn req h) = Inl (Refusal 403 m)) \<longleftrightarrow> \<not> origin_ok l (rq_headers req)"
proof (cases "origin_ok l (rq_headers req)")
  case True
  then show ?thesis
    using collect_body_result [of "[]" "limited max_request_bytes (rq_frames req)"]
    by (auto simp: proxy_request_def case_prod_beta split: sum.splits)
qed (simp add: proxy_request_def)

text \<open>
  C28. A server configured without \<open>allowed_origins\<close> is closed to pages from elsewhere: a request is refused
  with 403 exactly if it names an origin that is not a page of this machine, and such a request changes
  nothing and is not sent upstream. A request that names no origin is never refused so.
\<close>

theorem default_origins_exact:
  assumes "build_listener px base show_addr c a (addr, s) = Inr l" and "sv_allowed_origins s = None"
  shows "((\<exists>m. fst (proxy_request limited l conn req h) = Inl (Refusal 403 m)) \<longleftrightarrow>
      (\<exists>v. map_of (rq_headers req) ''origin'' = Some v \<and>
        \<not> loopback_page (case li_header_str base v of Some t \<Rightarrow> t | None \<Rightarrow> []))) \<and>
    (\<not> origin_ok l (rq_headers req) \<longrightarrow>
      proxy_request limited l conn req h = (Inl (Refusal 403 ''auditmcp: Origin not allowed''), h))"
proof -
  have l: "li_allowed_origins l = default_allowed_origins" "li_header_str l = li_header_str base"
    using assms by (auto simp: build_listener_def and_then_Inr split: option.splits)
  show ?thesis
    unfolding origin_refusal by (auto simp: origin_ok_def l default_origins proxy_request_def split: option.splits)
qed

text \<open>A page of another site behind a name that resolves to this machine.\<close>

theorem default_origins_exact_witness:
  "\<exists>l. build_listener (st_parsers (toy_start True)) (sample_listener\<lparr>li_parse_uri := (\<lambda>_. Some (li_upstream sample_listener))\<rparr>)
       (\<lambda>_. ''127.0.0.1:9'') toy_start_config \<lparr>au_mode = HmacMode [] [] 45 75, au_lease = None, au_anchor = None, au_patterns = [], au_allowlist = {}\<rparr>
       (V4 [127, 0, 0, 1] 9, toy_server) = Inr l \<and>
     (\<exists>msg. fst (proxy_request limit_frames l 0
       \<lparr>rq_method = ''POST'', rq_headers = [(''origin'', ''http://evil.example'')], rq_path_and_query = None, rq_frames = []\<rparr> new_http) =
       Inl (Refusal 403 msg))"
proof -
  let ?base = "sample_listener\<lparr>li_parse_uri := (\<lambda>_. Some (li_upstream sample_listener))\<rparr>"
  let ?a = "\<lparr>au_mode = HmacMode [] [] 45 75, au_lease = None, au_anchor = None, au_patterns = [], au_allowlist = {}\<rparr>"
  let ?req = "\<lparr>rq_method = ''POST'', rq_headers = [(''origin'', ''http://evil.example'')], rq_path_and_query = None, rq_frames = []\<rparr> :: request"
  obtain l where l: "build_listener (st_parsers (toy_start True)) ?base (\<lambda>_. ''127.0.0.1:9'') toy_start_config ?a
      (V4 [127, 0, 0, 1] 9, toy_server) = Inr l"
    by (simp add: build_listener_def upstream_uri_def toy_start_def)
  have "\<not> loopback_page ''http://evil.example''" by (simp add: loopback_page_def)
  then have "\<exists>msg. fst (proxy_request limit_frames l 0 ?req new_http) = Inl (Refusal 403 msg)"
    using default_origins_exact [OF l, of limit_frames 0 ?req new_http] by (simp add: toy_server_def sample_listener_def)
  with l show ?thesis by blast
qed

end
