(* ===== verification/Recorded.thy ===== *)
theory Recorded
  imports StdioRelay HttpProps Lifecycle
begin

text \<open>
  A session from the pumps to the database: the rows the pumps hand to \<open>DbHandle::log\<close>, the bounded
  queue, the writer thread that takes from it, other processes that write to the same database, and
  the drain at the end. The handle and the writer share one drop tally. A turn of the writer is
  one step, in which it sees one value of the tally.
\<close>

record pipe =
  pp_queue :: queue
  pp_writer :: writer

datatype pipe_event =
    Submit tool_call_entry
  | Work turn
  | Elsewhere "string \<Rightarrow> nat \<Rightarrow> bool" tool_call_entry

definition new_pipe :: "database \<Rightarrow> pipe" where
  "new_pipe d = \<lparr>pp_queue = \<lparr>q_items = [], q_connected = True, q_dropped = 0\<rparr>,
     pp_writer = \<lparr>w_db = d, w_dropped = 0, w_recorded_drops = 0\<rparr>\<rparr>"

definition inserted :: "chain_params \<Rightarrow> database \<Rightarrow> tool_call_entry \<Rightarrow> string result \<times> database" where
  "inserted w d e = insert_result (cp_mac w) (cp_canon w) (cp_parse w) (cp_key w) d e"

fun pipe_step :: "chain_params \<Rightarrow> string \<Rightarrow> pipe \<Rightarrow> pipe_event \<Rightarrow> pipe" where
  "pipe_step w sid p (Submit e) =
     (let q = snd (log ((pp_queue p)\<lparr>q_dropped := w_dropped (pp_writer p)\<rparr>) e)
      in \<lparr>pp_queue = q, pp_writer = (pp_writer p)\<lparr>w_dropped := q_dropped q\<rparr>\<rparr>)"
| "pipe_step w sid p (Work t) =
     (case q_items (pp_queue p) of
        [] \<Rightarrow> p
      | c # cs \<Rightarrow>
          \<lparr>pp_queue = (pp_queue p)\<lparr>q_items := cs\<rparr>,
           pp_writer = writer_turn (cp_mac w) (cp_canon w) (cp_parse w) (cp_key w) sid (pp_writer p) (t\<lparr>t_drops := 0\<rparr>, c)\<rparr>)"
| "pipe_step w sid p (Elsewhere f e) =
     p\<lparr>pp_writer := (pp_writer p)\<lparr>w_db := snd (inserted w ((w_db (pp_writer p))\<lparr>sql_fails := f\<rparr>) e)\<rparr>\<rparr>"

definition pipe_run :: "chain_params \<Rightarrow> string \<Rightarrow> pipe \<Rightarrow> pipe_event list \<Rightarrow> pipe" where
  "pipe_run w sid p es = foldl (pipe_step w sid) p es"

text \<open>The channel is closed and empty: the last attempt at a gap marker, then the writer is done.\<close>

definition pipe_end :: "chain_params \<Rightarrow> string \<Rightarrow> turn \<Rightarrow> pipe \<Rightarrow> writer" where
  "pipe_end w sid fin p =
     persist_audit_gap (cp_mac w) (cp_canon w) (cp_parse w) (cp_key w) (t_now fin) sid (with_faults (t_gap_fails fin) (pp_writer p))"

fun submissions :: "pipe_event list \<Rightarrow> tool_call_entry list" where
  "submissions [] = []"
| "submissions (Submit e # es) = e # submissions es"
| "submissions (_ # es) = submissions es"

section \<open>Nothing is lost unless it is counted\<close>

abbreviation entries :: "writer \<Rightarrow> tool_call_entry list" where
  "entries v \<equiv> map row_entry (tool_calls (w_db v))"

definition pipe_ok :: "chain_params \<Rightarrow> bytes \<Rightarrow> tool_call_entry list \<Rightarrow> pipe \<Rightarrow> tool_call_entry list \<Rightarrow> bool" where
  "pipe_ok w k old p subs \<longleftrightarrow> q_connected (pp_queue p) \<and> chain_ok (cp_mac w) (cp_canon w) k (w_db (pp_writer p)) \<and>
     w_dropped (pp_writer p) + length (q_items (pp_queue p)) \<le> length subs \<and>
     (w_dropped (pp_writer p) = 0 \<longrightarrow>
       (\<exists>stored added. subs = stored @ map command_entry (q_items (pp_queue p)) \<and> entries (pp_writer p) = old @ added \<and>
         subseq stored added))"

lemma inserted_result:
  assumes "inserted w d e = (r, d')" and "cp_key w = Hmac k"
  shows "map row_entry (tool_calls d') = map row_entry (tool_calls d) @ (if is_ok r then [e] else [])"
    and "chain_ok (cp_mac w) (cp_canon w) k d \<Longrightarrow> chain_ok (cp_mac w) (cp_canon w) k d'"
  using assms insert_result_rows insert_result_chain_ok by (auto simp: inserted_def)

lemma gap_step:
  fixes w :: chain_params
  assumes "cp_key w = Hmac k" and "v' = persist_audit_gap (cp_mac w) (cp_canon w) (cp_parse w) (cp_key w) now sid v"
  shows "w_dropped v' = w_dropped v" and "prefix (entries v) (entries v')"
    and "chain_ok (cp_mac w) (cp_canon w) k (w_db v) \<Longrightarrow> chain_ok (cp_mac w) (cp_canon w) k (w_db v')"
proof -
  show "chain_ok (cp_mac w) (cp_canon w) k (w_db v) \<Longrightarrow> chain_ok (cp_mac w) (cp_canon w) k (w_db v')"
    using assms persist_audit_gap_chain_ok by simp
  show "w_dropped v' = w_dropped v" "prefix (entries v) (entries v')"
    using assms insert_result_rows [of "cp_mac w" "cp_canon w" "cp_parse w" k "w_db v"]
    by (auto simp: persist_audit_gap_def Let_def split: prod.splits sum.splits)
qed

lemma with_faults_fields [simp]:
  "w_dropped (with_faults f v) = w_dropped v" "tool_calls (w_db (with_faults f v)) = tool_calls (w_db v)"
  "chain_ok mac canon k (w_db (with_faults f v)) = chain_ok mac canon k (w_db v)"
  by (simp_all add: with_faults_def chain_ok_faults)

lemma turn_step:
  fixes w :: chain_params
  assumes "cp_key w = Hmac k" and "w_dropped v + 1 < 2 ^ 64"
    and "v' = writer_turn (cp_mac w) (cp_canon w) (cp_parse w) (cp_key w) sid v (t\<lparr>t_drops := 0\<rparr>, c)"
  shows "(w_dropped v' = w_dropped v \<and> (\<exists>gaps. entries v' = entries v @ gaps @ [command_entry c])) \<or> w_dropped v' = w_dropped v + 1"
    and "prefix (entries v) (entries v')"
    and "chain_ok (cp_mac w) (cp_canon w) k (w_db v) \<Longrightarrow> chain_ok (cp_mac w) (cp_canon w) k (w_db v')"
proof -
  let ?v1 = "with_faults (t_gap_fails t) (v\<lparr>w_dropped := w_dropped v mod 2 ^ 64\<rparr>)"
  define v2 where "v2 = persist_audit_gap (cp_mac w) (cp_canon w) (cp_parse w) (cp_key w) (t_now t) sid ?v1"
  note gap = gap_step [OF assms(1) v2_def]
  have small: "w_dropped v mod 2 ^ 64 = w_dropped v" using assms(2) by simp
  obtain r d' where ins: "inserted w (w_db (with_faults (t_fails t) v2)) (command_entry c) = (r, d')" by fastforce
  note res = inserted_result [OF ins assms(1)]
  have v': "w_db v' = d'" "w_dropped v' = (case r of Inl e \<Rightarrow> (w_dropped v2 + 1) mod 2 ^ 64 | Inr h \<Rightarrow> w_dropped v2)"
    using assms(3) ins by (simp_all add: writer_turn_def Let_def write_command_def inserted_def v2_def tally_record_def split: sum.split)
  from gap(2) obtain gaps where gaps: "entries v2 = entries v @ gaps" by (auto simp: prefix_def)
  show "(w_dropped v' = w_dropped v \<and> (\<exists>gaps. entries v' = entries v @ gaps @ [command_entry c])) \<or> w_dropped v' = w_dropped v + 1"
    using v' res(1) gap(1) gaps small assms(2) by (cases r) auto
  show "prefix (entries v) (entries v')" using res(1) gaps v'(1) by simp
  show "chain_ok (cp_mac w) (cp_canon w) k (w_db v) \<Longrightarrow> chain_ok (cp_mac w) (cp_canon w) k (w_db v')"
    using gap(3) res(2) v'(1) by simp
qed

lemma log_step:
  assumes "q_connected q" and "q_dropped q + 1 < 2 ^ 64" and "q' = snd (log q e)"
  shows "q_connected q' \<and> ((q_items q' = q_items q @ [Entry e] \<and> q_dropped q' = q_dropped q) \<or>
    (q_items q' = q_items q \<and> q_dropped q' = q_dropped q + 1))"
  using assms by (auto simp: log_def try_send_def tally_record_def Let_def)

lemma pipe_step_ok:
  assumes "pipe_ok w k old p subs" and "cp_key w = Hmac k" and "length (subs @ submissions [ev]) < 2 ^ 64"
  shows "pipe_ok w k old (pipe_step w sid p ev) (subs @ submissions [ev])"
proof (cases ev)
  case (Submit e)
  let ?q = "(pp_queue p)\<lparr>q_dropped := w_dropped (pp_writer p)\<rparr>"
  have "q_connected ?q" "q_dropped ?q + 1 < 2 ^ 64" using assms(1,3) by (simp_all add: pipe_ok_def Submit)
  from log_step [OF this refl, of e] show ?thesis
    using assms(1) by (auto simp: Submit pipe_ok_def Let_def)
next
  case (Work t)
  show ?thesis
  proof (cases "q_items (pp_queue p)")
    case Nil
    with assms(1) show ?thesis by (simp add: Work)
  next
    case (Cons c cs)
    let ?v = "pp_writer p"
    define v' where "v' = writer_turn (cp_mac w) (cp_canon w) (cp_parse w) (cp_key w) sid ?v (t\<lparr>t_drops := 0\<rparr>, c)"
    have "w_dropped ?v + 1 < 2 ^ 64" using assms(1,3) Cons by (simp add: pipe_ok_def Work)
    note turn = turn_step [OF assms(2) this v'_def]
    have step: "pipe_step w sid p ev = \<lparr>pp_queue = (pp_queue p)\<lparr>q_items := cs\<rparr>, pp_writer = v'\<rparr>"
      by (simp add: Work Cons v'_def)
    have "\<exists>stored added. subs = stored @ map command_entry cs \<and> entries v' = old @ added \<and> subseq stored added" if z: "w_dropped v' = 0"
    proof -
      from turn(1) z obtain gaps where g: "w_dropped ?v = 0" "entries v' = entries ?v @ gaps @ [command_entry c]" by auto
      then obtain stored added where st: "subs = stored @ map command_entry (c # cs)" "entries ?v = old @ added" "subseq stored added"
        using assms(1) Cons by (auto simp: pipe_ok_def)
      have "subseq (stored @ [command_entry c]) ((added @ gaps) @ [command_entry c])"
        using st(3) by (intro list_emb_append_mono) (auto intro: list_emb_append2)
      with st g(2) show ?thesis
        by (intro exI [of _ "stored @ [command_entry c]"] exI [of _ "added @ gaps @ [command_entry c]"]) simp
    qed
    with turn(1,3) assms(1) Cons show ?thesis unfolding step by (auto simp: Work pipe_ok_def)
  qed
next
  case (Elsewhere f e)
  let ?v = "pp_writer p"
  obtain r d' where ins: "inserted w ((w_db ?v)\<lparr>sql_fails := f\<rparr>) e = (r, d')" by fastforce
  note res = inserted_result [OF ins assms(2)]
  have grow: "\<exists>stored added. subs = stored @ xs \<and> map row_entry (tool_calls d') = old @ added \<and> subseq stored added"
    if "subs = stored @ xs" "entries ?v = old @ added" "subseq stored added" for xs stored added
    using res(1) that by (intro exI [of _ stored] exI [of _ "added @ (if is_ok r then [e] else [])"]) (auto intro: list_emb_append2)
  with assms(1) res(2) ins show ?thesis by (auto simp: Elsewhere pipe_ok_def chain_ok_faults intro!: grow)
qed

lemma submissions_append [simp]: "submissions (xs @ ys) = submissions xs @ submissions ys"
  by (induction xs rule: submissions.induct) simp_all

lemma pipe_run_ok:
  assumes "chain_ok (cp_mac w) (cp_canon w) k d" and "cp_key w = Hmac k" and "length (submissions es) < 2 ^ 64"
  shows "pipe_ok w k (map row_entry (tool_calls d)) (pipe_run w sid (new_pipe d) es) (submissions es)"
  using assms(3)
proof (induction es rule: rev_induct)
  case Nil
  then show ?case using assms(1) by (simp add: pipe_run_def pipe_ok_def new_pipe_def)
next
  case (snoc ev es)
  then have "pipe_ok w k (map row_entry (tool_calls d)) (pipe_run w sid (new_pipe d) es) (submissions es)" by simp
  from pipe_step_ok [OF this assms(2), of ev sid] snoc.prems show ?case by (simp add: pipe_run_def)
qed


section \<open>The whole session\<close>

lemma subseq_mset_subset: "subseq xs ys \<Longrightarrow> mset xs \<subseteq># mset ys"
  by (induction rule: list_emb.induct) (auto intro: subset_mset.order_trans)

text \<open>What a drain without drops means for the database, for either transport.\<close>

lemma drained_rows:
  assumes "length (submissions es) < 2 ^ 64" and "p = pipe_run w wsid (new_pipe db) es" and "q_items (pp_queue p) = []"
    and "v = pipe_end w wsid fin p" and "cp_key w = Hmac k" and "ids_ok db"
    and "verify_chain_with_key (cp_mac w) (cp_canon w) (healthy db) (Hmac k) = Inr (Inr n)" and "w_dropped v = 0"
  shows "mset (submissions es) \<subseteq># mset (drop n (entries v)) \<and> take n (entries v) = map row_entry (tool_calls db) \<and>
    (\<exists>m \<ge> n. verify_chain_with_key (cp_mac w) (cp_canon w) (healthy (w_db v)) (Hmac k) = Inr (Inr m))"
proof -
  have db: "chain_ok (cp_mac w) (cp_canon w) k db" "n = length (tool_calls db)" using verify_healthy assms(6,7) by blast+
  have v: "v = persist_audit_gap (cp_mac w) (cp_canon w) (cp_parse w) (cp_key w) (t_now fin) wsid
      (with_faults (t_gap_fails fin) (pp_writer p))" using assms(4) by (simp add: pipe_end_def)
  note gap = gap_step [OF assms(5) v]
  obtain added where added: "entries (pp_writer p) = map row_entry (tool_calls db) @ added" "subseq (submissions es) added"
    and ok: "chain_ok (cp_mac w) (cp_canon w) k (w_db (pp_writer p))"
    using pipe_run_ok [OF db(1) assms(5,1), of wsid] gap(1) assms(2,3,8) by (auto simp: pipe_ok_def)
  from gap(2) added(1) obtain gaps where all: "entries v = map row_entry (tool_calls db) @ added @ gaps" by (auto simp: prefix_def)
  have "subseq (submissions es) (added @ gaps)"
    using list_emb_append_mono [OF added(2), of "[]" gaps] by simp
  then have "mset (submissions es) \<subseteq># mset (drop n (entries v))"
    unfolding all using db(2) subseq_mset_subset by force
  moreover have "chain_ok (cp_mac w) (cp_canon w) k (w_db v)" using gap(3) ok by simp
  then have "verify_chain_with_key (cp_mac w) (cp_canon w) (healthy (w_db v)) (Hmac k) = Inr (Inr (length (tool_calls (w_db v))))"
    using verify_healthy [of "w_db v"] by (simp add: chain_ok_def)
  moreover have "n \<le> length (tool_calls (w_db v))" using arg_cong [OF all, of length] db(2) by simp
  ultimately show ?thesis using db(2) by (auto simp: all)
qed

lemma names_among:
  "mset es \<subseteq># mset es' \<Longrightarrow> mset (map e_tool_name es) \<subseteq># mset (map e_tool_name es')"
  unfolding mset_map by (rule image_mset_subseteq_mono)



section \<open>Witness\<close>

text \<open>One call, to which the target never answers: its row is that of a timeout.\<close>

definition quiet_turn :: turn where
  "quiet_turn = \<lparr>t_now = ''t'', t_drops = 0, t_gap_fails = no_fault, t_fails = no_fault\<rparr>"

definition calling_stdio :: stdio_env where
  "calling_stdio = sample_stdio\<lparr>se_parse_json := (\<lambda>_. Some (Jsonrpc.sample_call ''1''))\<rparr>"

definition one_call :: "stdio_event list" where
  "one_call = [ClientLine ''x'' write_result.Written] @ [StopInput] @ [] @ [TakeInbound] @ [] @ [StopOutput] @ [] @ [TakeOutbound] @ [] @ [DrainPending] @ []"

lemma one_call_names: "fst (stdio_run calling_stdio s one_call) = [''rm'']" if "begin_input (so_session s)"
  using that by (simp add: one_call_def case_prod_beta line_calls_def calling_stdio_def parse_rpc_messages_def
      strip_trailing_newline_def Jsonrpc.sample_call_def parse_batch_def struct_field_def message_of_fields_def optional_value_def
      is_tool_call_request_def id_key_def tool_name_def utf8_valid_ascii in_range_def)

lemma one_row_stored:
  fixes w :: chain_params
  assumes "cp_key w = Hmac k" and "cp_canon w e \<noteq> None" and "flags_ok (cp_parse w) e"
  shows "q_items (pp_queue (pipe_run w sid (new_pipe d) [Submit e, Work quiet_turn])) = [] \<and>
    w_dropped (pipe_end w sid quiet_turn (pipe_run w sid (new_pipe d) [Submit e, Work quiet_turn])) = 0"
proof -
  obtain h d' where ins: "insert_row_with_key (cp_mac w) (cp_canon w) (cp_parse w) (d\<lparr>sql_fails := no_fault\<rparr>) e (Hmac k) = (Inr h, d', [])"
    using insert_without_fault [of "cp_canon w" e "cp_parse w" "cp_mac w" d k] assms(2,3) by blast
  have turn: "writer_turn (cp_mac w) (cp_canon w) (cp_parse w) (cp_key w) sid
      \<lparr>w_db = d, w_dropped = 0, w_recorded_drops = 0\<rparr> (quiet_turn\<lparr>t_drops := 0\<rparr>, Entry e) =
      \<lparr>w_db = d', w_dropped = 0, w_recorded_drops = 0\<rparr>"
    using ins assms(1)
    by (simp add: writer_turn_def with_faults_def persist_audit_gap_def write_command_def insert_result_def quiet_turn_def)
  have step: "pipe_run w sid (new_pipe d) [Submit e, Work quiet_turn] =
      \<lparr>pp_queue = \<lparr>q_items = [], q_connected = True, q_dropped = 0\<rparr>, pp_writer = \<lparr>w_db = d', w_dropped = 0, w_recorded_drops = 0\<rparr>\<rparr>"
    using turn by (simp add: pipe_run_def new_pipe_def log_def try_send_def channel_capacity_def)
  show ?thesis unfolding step by (simp add: pipe_end_def with_faults_def persist_audit_gap_def)
qed

lemma fresh_database:
  "ids_ok empty_database"
  "verify_chain_with_key (cp_mac sample_params) (cp_canon sample_params) (healthy empty_database) (Hmac toy_key) = Inr (Inr 0)"
  using toy_db_verifies [of "[]"] by (simp_all add: ids_ok_def sample_params_def toy_db_def healthy_def empty_database_def)


text \<open>A request with one call, cut off by the stop before the upstream answers.\<close>

definition calling_listener :: listener where
  "calling_listener = sample_listener\<lparr>li_parse_json := (\<lambda>_. Some (Jsonrpc.sample_call ''1''))\<rparr>"

definition calling_request :: request where
  "calling_request = \<lparr>rq_method = ''POST'', rq_headers = [], rq_path_and_query = None, rq_frames = [FrameData ''x'']\<rparr>"

lemma log_timeout_fields [simp]:
  "hp_fresh (log_timeout l a c h) = hp_fresh h" "s_id (hp_heap (log_timeout l a c h) b) = s_id (hp_heap h b)"
  by (simp_all add: log_timeout_def log_entry_def clock_def case_prod_beta Let_def set_session_def)

lemma log_timeouts_fields [simp]:
  "hp_fresh (log_timeouts l a cs h) = hp_fresh h" "s_id (hp_heap (log_timeouts l a cs h) b) = s_id (hp_heap h b)"
  by (induction cs arbitrary: h) (simp_all add: log_timeouts_def)

lemma drain_and_log_fields [simp]:
  "hp_fresh (drain_and_log l a h) = hp_fresh h" "s_id (hp_heap (drain_and_log l a h) b) = s_id (hp_heap h b)"
  by (simp_all add: drain_and_log_def case_prod_beta drain_session_def set_session_def drain_abandoned_def)

lemma shutdown_drain_fields [simp]:
  "hp_fresh (shutdown_drain l h) = hp_fresh h" "s_id (hp_heap (shutdown_drain l h) b) = s_id (hp_heap h b)"
proof -
  have "hp_fresh (fold (drain_and_log l) as g) = hp_fresh g \<and> s_id (hp_heap (fold (drain_and_log l) as g) b) = s_id (hp_heap g b)" for as g
    by (induction as arbitrary: g) simp_all
  then show "hp_fresh (shutdown_drain l h) = hp_fresh h" "s_id (hp_heap (shutdown_drain l h) b) = s_id (hp_heap h b)"
    by (simp_all add: shutdown_drain_def take_all_def)
qed

lemma one_request:
  obtains net where "net_run (\<lambda>_ fs. fs) calling_listener new_net ([Accept, Request 0 calling_request] @ [Stop]) = ([''rm''], net)"
    and "\<forall>x<hp_fresh (nt_http net). \<not> legacy_id (hp_heap (nt_http net) x)"
proof -
  let ?r = "net_run (\<lambda>_ fs. fs) calling_listener new_net ([Accept, Request 0 calling_request] @ [Stop])"
  have "fst ?r = [''rm''] \<and> (\<forall>x<hp_fresh (nt_http (snd ?r)). \<not> legacy_id (hp_heap (nt_http (snd ?r)) x))"
    by (simp add: calling_listener_def calling_request_def sample_listener_def new_net_def new_http_def case_prod_beta Let_def
        open_session_def alloc_def proxy_request_def origin_ok_def request_session_def register_if_tool_call_def max_request_bytes_def
        admitted_def parse_batch_def Jsonrpc.sample_call_def struct_field_def message_of_fields_def optional_value_def
        is_tool_call_request_def message_key_def id_key_def tool_name_def
        set_session_def register_at_def new_session_def legacy_id_def starts_with_def clock_def register_def permit_register_def calls_insert_def drop_bodies_def
        split: option.split)
  then show ?thesis using that by (metis prod.collapse)
qed


end
