(* ===== verification/Spec2Isabelle.thy ===== *)
theory Spec2Isabelle
  imports Prelude Json Truncate Hex LinkedLog Store HashChain Samples Metadata ChainProps MetadataProps
    RedactionIndex Writer WriterProps Utf8 Anchor AnchorProps Heartbeat Keys Bootstrap BootstrapProps
    Verify VerifyProps Forwarding Sse Extract Anomaly AnomalyProps Secrets SecretsProps Jsonrpc Session Config
    AuditRow Registry Tee Server CallBooks HttpBooks HttpRun HttpProps ServerProps Stdio StdioProps
    Query QueryProps Export Unmask Recovery RecoveryProps Reset ResetProps HeartbeatRun Startup StartupProps
    KeyFiles Transactions Opening Stops Lifecycle Commands TextSafety StdioRelay Listeners Recorded
begin

text \<open>
  A verification of auditmcp, a proxy that stands between an MCP client and its servers, forwards their
  traffic unchanged, and records every \<open>tools/call\<close> in a local SQLite database whose rows form a chain of
  keyed hashes.

  \<^bold>\<open>The program.\<close> \<open>auditmcp run\<close> (\<open>src/proxy.rs\<close>) starts a target and relays its standard input and output;
  \<open>auditmcp serve\<close> (\<open>src/http/\<close>) listens on loopback addresses for the configured HTTP servers. Both parse
  what passes (\<open>src/jsonrpc.rs\<close>, \<open>src/http/sse.rs\<close>), match calls with responses in a session
  (\<open>src/session.rs\<close>), and make of each completed, abandoned or displaced call a row (\<open>src/audit.rs\<close>):
  secrets are redacted (\<open>src/secrets.rs\<close>), the payload is cut to the configured tier (\<open>src/truncate.rs\<close>),
  anomalies are scored (\<open>src/anomaly.rs\<close>, \<open>src/extract.rs\<close>). Rows go through a bounded queue to one writer
  thread (\<open>src/db/writer.rs\<close>), which links each to its predecessor (\<open>src/db/chain_hash.rs\<close>) and
  indexes its redactions (\<open>src/db/redaction_repair.rs\<close>). A start creates or checks the chain and its keys
  (\<open>src/chain.rs\<close>, \<open>src/keys.rs\<close>), closes the sessions that a crash left open (\<open>src/lease.rs\<close>,
  \<open>src/recovery.rs\<close>), and from then on heartbeats (\<open>src/heartbeat.rs\<close>) and a second, append-only
  witness (\<open>src/anchor.rs\<close>) are written. \<open>verify\<close>, \<open>query\<close>, \<open>export\<close>, \<open>unmask\<close> and \<open>reset\<close> are the
  commands on a database (the files of these names, dispatched by \<open>src/main.rs\<close>).

  \<^bold>\<open>How code and model correspond.\<close> Definitions bear the names of the functions they translate. A
  struct is a record, an enum a datatype, \<open>Result\<close> a sum whose left side names the failing step, text and
  bytes are lists of bytes. Integers are \<open>nat\<close> or \<open>int\<close>; where the code counts or computes at a
  fixed width, its wrap-around, saturation or check is written out. A database is the contents of its
  tables with an oracle that says which execution of which statement fails; files are their bytes with
  an oracle of the same kind. Shared sessions live in a store of addresses (\<open>Registry\<close>).
  Operations take the state and return it.

  \<^bold>\<open>Storage and chain.\<close>

  \<^item> \<open>Store\<close> (\<open>db/mod.rs\<close>): tables, reads, allowlist. \<open>Opening\<close> (\<open>db/mod.rs\<close>): \<open>open_db\<close> with the retries
    for WAL mode, which end within 201 attempts if waiting advances the clock.
  \<^item> \<open>LinkedLog\<close>: the locales \<open>linked_log\<close> and \<open>rooted_log\<close>, the contract of a log of records that name their
    predecessor's MAC; proved in them are splitting, extension and determination by length and head, with an
    explicit collision as the only alternative. \<open>HashChain\<close> (\<open>db/chain_hash.rs\<close>) interprets
    \<open>rooted_log\<close> on the table \<open>tool_calls\<close> and \<open>Anchor\<close> interprets \<open>linked_log\<close> on the anchor file.
  \<^item> \<open>Metadata\<close>, \<open>MetadataProps\<close> (\<open>db/chain_hash.rs\<close>): the MAC over \<open>chain_metadata\<close>; its text encoding
    is injective. \<open>ChainProps\<close>: what an edit of the rows leads to. \<open>Samples\<close>: concrete inputs for the
    witnesses, with a MAC that has no collisions.
  \<^item> \<open>RedactionIndex\<close> (\<open>db/redaction_repair.rs\<close>): projection, check and repair of the index; a repair refines
    the specification that the index is the multiset of the hits in the flags.
  \<^item> \<open>Writer\<close>, \<open>WriterProps\<close> (\<open>db/writer.rs\<close>): queue, insert transaction, writer loop, gap marker; nothing
    disappears without being counted. \<open>Transactions\<close>: the insert taken apart into the statements between
    which other processes run, a step relation whose runs refine serial insertion. \<open>Lifecycle\<close>: start, writers
    and \<open>verify\<close> composed.
  \<^item> \<open>Anchor\<close>, \<open>AnchorProps\<close> (\<open>anchor.rs\<close>), with \<open>Utf8\<close> for the decoding of its lines: append, torn
    tails, the cross-check with the chain.

  \<^bold>\<open>Starting and stopping.\<close>

  \<^item> \<open>Keys\<close>, \<open>Hex\<close> (\<open>keys.rs\<close>, \<open>hex.rs\<close>): derivation, encoding, load and backup of the key file. \<open>KeyFiles\<close>: a
    write as separate file-system operations and the race of processes to create the key, a step
    relation with its invariant.
  \<^item> \<open>Config\<close> (\<open>config.rs\<close>, \<open>paths.rs\<close>): the configuration and its validation. \<open>Bootstrap\<close>,
    \<open>BootstrapProps\<close> (\<open>chain.rs\<close>): the decision whether a chain is fresh, resumed or refused.
  \<^item> \<open>Recovery\<close>, \<open>RecoveryProps\<close> (\<open>lease.rs\<close>, \<open>recovery.rs\<close>, \<open>log_durable\<close> of \<open>db/writer.rs\<close>): the leases and
    the closing rows of crashed sessions; the step relation \<open>share_step\<close> interleaves processes at their
    commits and lock operations.
  \<^item> \<open>Startup\<close>, \<open>StartupProps\<close> (\<open>proxy.rs\<close>, \<open>http/server.rs\<close>): the order of a start, and its composition with
    bootstrap, writer and recovery. \<open>Listeners\<close>: \<open>build_listener\<close> and the default origins.
  \<^item> \<open>Heartbeat\<close>, \<open>HeartbeatRun\<close> (\<open>heartbeat.rs\<close>): the rows, the gap report and the loop.
  \<^item> \<open>Stops\<close> (\<open>shutdown.rs\<close>, \<open>proxy.rs\<close>): signals, the reasons to stop, the waits and their bounds.

  \<^bold>\<open>From the wire to a row.\<close>

  \<^item> \<open>Jsonrpc\<close> (\<open>jsonrpc.rs\<close>), over \<open>Json\<close>: the view of messages and batches. \<open>Forwarding\<close>: the locale
    \<open>forwarder\<close> (no byte lost, invented or reordered), interpreted on the parser \<open>feed\<close> of \<open>Sse\<close>
    (\<open>http/sse.rs\<close>).
  \<^item> \<open>Session\<close> (\<open>session.rs\<close>): pending calls and gates, with the locale \<open>pending_calls\<close> for the map of calls,
    interpreted on the association lists of the model. \<open>CallBooks\<close>: what both transports say of pending calls.
  \<^item> \<open>Stdio\<close>, \<open>StdioProps\<close> (\<open>proxy.rs\<close>): line reading, both pumps and the shutdown sequence, over every
    interleaving. \<open>StdioRelay\<close>: the reader and the writer thread, and the bytes of a session
    from end to end.
  \<^item> \<open>Registry\<close>, \<open>Tee\<close>, \<open>Server\<close> (\<open>http/session_registry.rs\<close>, \<open>http/tee.rs\<close>, \<open>http/server.rs\<close>): one request and its
    response. \<open>HttpBooks\<close>: each handler keeps the books of calls. \<open>HttpRun\<close>: the life of a listener as a list
    of events. \<open>HttpProps\<close>, \<open>ServerProps\<close>: what follows for whole runs and single requests.
  \<^item> \<open>Secrets\<close>, \<open>SecretsProps\<close> (\<open>secrets.rs\<close>), \<open>Truncate\<close> (\<open>truncate.rs\<close>), \<open>Extract\<close> (\<open>extract.rs\<close>), \<open>Anomaly\<close>,
    \<open>AnomalyProps\<close> (\<open>anomaly.rs\<close>), \<open>AuditRow\<close> (\<open>audit.rs\<close>): the making of a row. \<open>TextSafety\<close>: every cut lies at
    a character boundary, so what is stored is text.
  \<^item> \<open>Recorded\<close>: pumps or listeners, queue, writer, other processes and the final drain together: an exit
    without an error means that every call has its row.

  \<^bold>\<open>Commands.\<close> \<open>Verify\<close>, \<open>VerifyProps\<close>; \<open>Query\<close>, \<open>QueryProps\<close>; \<open>Export\<close>; \<open>Unmask\<close>; \<open>Reset\<close>, \<open>ResetProps\<close>
  (the files of these names); \<open>Commands\<close> (\<open>main.rs\<close>): dispatch, exit status and the \<open>key\<close> subcommands.

  \<^bold>\<open>What the theorems show.\<close> Tampering: rows that verify under the key are those the writer
  wrote, or a prefix of them, up to collisions of the MAC between texts at hand; an anchored tail
  cannot be removed, a setting under the metadata MAC cannot be edited; conversely a log that only
  the writer wrote is never called tampered. Conservation: entries, calls and lifecycle rows are each
  accounted for through queue, faults, duplicate ids, hangups, crashes and concurrent processes. Relay: both transports
  forward the bytes they receive. Content: matched secrets do not influence what is stored, and what is
  stored is text. Failure: exports and archives leave everything as it was or are complete; waits and
  retries end. Some theorems record where the code falls short: a dead process can leave a key file
  that no start accepts, a busy checkpoint lets \<open>reset\<close> lose rows, a batch of five elements can be read as
  one message, and an HTTP session displaced from its endpoint keeps its pending calls for good.

  \<^bold>\<open>Parameters.\<close> What is not in this repository is an argument: HMAC-SHA256, SHA-256 and HKDF (of which no
  property is assumed; where two MACs must differ the collision is an alternative of the conclusion),
  printing and parsing of JSON, the TOML and URI parsers, the regular expression engine, UUIDs,
  clocks and random draws, the size-limiting body adapter of \<open>http_body_util\<close>, and the answers of
  the operating system and SQLite. Hypotheses name the documented behaviour they rest on (a JSON object is
  printed with a leading brace, a printed text parses back, a match lies inside its text, at character
  boundaries).

  \<^bold>\<open>Bounds and fuel.\<close> \<open>suffix_loop\<close> tries one name more than there are keys, so a free one is always found.
  \<open>enable_wal\<close> is a partial function, with its own theorem that it returns. \<open>log_durable\<close> is recursive in the
  views its turns take of the queue. Loops over buffers are total functions with a measure. Counts are
  taken below \<open>2 ^ 64\<close> where the code has a 64-bit counter; the theorems say so in a hypothesis.

  \<^bold>\<open>Granularity.\<close> A step of \<open>HttpRun\<close> is a whole handler; one of \<open>RecoveryProps\<close> a commit or lock
  operation; one of \<open>Transactions\<close> a statement; one of \<open>KeyFiles\<close> a file operation; one of \<open>Recorded\<close> a call of \<open>log\<close>, a
  turn of the writer or a foreign commit. Finer interleavings are not covered.

  \<^bold>\<open>Not modelled.\<close> Sockets, TLS and the framing of HTTP (\<open>hyper\<close>, \<open>rustls\<close>); the spawning of the target,
  and the pipes to it; how threads
  and tasks are scheduled, beyond the interleavings above; parsing of arguments by \<open>clap\<close> and of
  TOML; the text printed on the console and log messages; the single Windows ACL calls and the
  registration of signal handlers; code compiled only for tests (\<open>HashKey::Legacy\<close>, \<open>KeyFile::save\<close>
  and the test modules, which are about half of the lines under \<open>src/\<close>). Real numbers
  stand for \<open>f64\<close> in the entropy threshold, so rounding is not seen; cadences too large for the clock
  types are not considered.
\<close>

end
